(* ===== verification/Prelude.thy ===== *)
theory Prelude
  imports Main "HOL-Library.Word"
begin

text \<open>
  What every component of the development shares: the outcome of a C function that may run into
  undefined behaviour or leave the process, C's fixed width integers written out on \<open>int\<close>,
  bytes and network byte order, writes into a buffer of bytes, and generic lemmas on lists.
\<close>

named_theorems c_simps \<open>unfolding rules of the small C level helpers\<close>
named_theorems wf_intros \<open>introduction rules of the well-formedness invariants\<close>

section \<open>Outcomes\<close>

text \<open>
  A C function whose execution is undefined, or that ends the process, has no result. The model
  makes each such execution the left summand of a sum: \<open>StillWaiting\<close> is a call that has not
  returned within the number of waits the model looks at. \<open>OutOfBounds\<close> is an access outside an array or a block,
  except for one kind of write that has a fault of its own, so that a theorem can tell it from all others: \<open>LogOverrun\<close>, the
  write of a sample behind its full log.
\<close>

datatype fault = NullDeref | OutOfBounds | LogOverrun | DivByZero | UseAfterFree | Uninitialised | BadThread | BadConversion | StillWaiting | Exit int

type_synonym 'a outcome = "fault + 'a"

fun bindR :: "'a outcome \<Rightarrow> ('a \<Rightarrow> 'b outcome) \<Rightarrow> 'b outcome" where
  "bindR (Inl e) f = Inl e"
| "bindR (Inr x) f = f x"

lemma bindR_Inr_iff: "bindR r f = Inr y \<longleftrightarrow> (\<exists>x. r = Inr x \<and> f x = Inr y)"
  by (cases r) auto

lemma bindR_Inl_iff: "bindR r f = Inl e \<longleftrightarrow> r = Inl e \<or> (\<exists>x. r = Inr x \<and> f x = Inl e)"
  by (cases r) auto

lemma bindR_assoc: "bindR (bindR r f) g = bindR r (\<lambda>x. bindR (f x) g)"
  by (cases r) auto

text \<open>Every fault of \<open>r\<close> is in \<open>A\<close>, and every result satisfies \<open>P\<close>.\<close>

definition outcome_sat :: "fault set \<Rightarrow> ('a \<Rightarrow> bool) \<Rightarrow> 'a outcome \<Rightarrow> bool" where
  "outcome_sat A P r \<longleftrightarrow> (case r of Inl e \<Rightarrow> e \<in> A | Inr x \<Rightarrow> P x)"

lemma outcome_sat_simps [simp]: "outcome_sat A P (Inl e) \<longleftrightarrow> e \<in> A" "outcome_sat A P (Inr x) \<longleftrightarrow> P x"
  by (simp_all add: outcome_sat_def)

lemma outcome_satI:
  "(\<And>e. r = Inl e \<Longrightarrow> e \<in> A) \<Longrightarrow> (\<And>x. r = Inr x \<Longrightarrow> P x) \<Longrightarrow> outcome_sat A P r"
  by (cases r) simp_all

lemma outcome_sat_bindR:
  "outcome_sat A P r \<Longrightarrow> (\<And>x. P x \<Longrightarrow> outcome_sat A Q (f x)) \<Longrightarrow> outcome_sat A Q (bindR r f)"
  by (cases r) simp_all

lemma outcome_sat_mono: "outcome_sat A P r \<Longrightarrow> (\<And>x. P x \<Longrightarrow> Q x) \<Longrightarrow> outcome_sat A Q r"
  by (cases r) simp_all

lemma bindR_cong [fundef_cong]:
  "r = r' \<Longrightarrow> (\<And>x. r' = Inr x \<Longrightarrow> f x = f' x) \<Longrightarrow> bindR r f = bindR r' f'"
  by (cases r') auto

section \<open>Integers of a fixed width\<close>

text \<open>
  A C \<open>int\<close> is an \<open>int\<close> in two's complement range; \<open>i32\<close> is the conversion to it (and what
  the machine computes where C leaves a signed overflow undefined). \<open>i64\<close> is \<open>int64_t\<close>,
  \<open>u64\<close> is \<open>uint64_t\<close>, \<open>u32\<close> an unsigned of 32 bits, \<open>i16\<close> is \<open>short\<close>.
\<close>

definition i32 :: "int \<Rightarrow> int" where
  "i32 x = (x + 2147483648) mod 4294967296 - 2147483648"

definition i16 :: "int \<Rightarrow> int" where
  "i16 x = (x + 32768) mod 65536 - 32768"

definition u32 :: "int \<Rightarrow> int" where
  "u32 x = x mod 4294967296"

definition u64 :: "int \<Rightarrow> int" where
  "u64 x = x mod 18446744073709551616"

definition i64 :: "int \<Rightarrow> int" where
  "i64 x = (x + 9223372036854775808) mod 18446744073709551616 - 9223372036854775808"

definition in_i32 :: "int \<Rightarrow> bool" where
  "in_i32 x \<longleftrightarrow> - 2147483648 \<le> x \<and> x < 2147483648"

lemma i32_in_range [simp]: "in_i32 (i32 x)"
proof -
  have "0 \<le> (x + 2147483648) mod 4294967296" "(x + 2147483648) mod 4294967296 < 4294967296"
    by simp_all
  then show ?thesis unfolding in_i32_def i32_def by linarith
qed

lemma i32_id: "in_i32 x \<Longrightarrow> i32 x = x"
  by (simp add: i32_def in_i32_def)

lemma i32_i32 [simp]: "i32 (i32 x) = i32 x"
  by (rule i32_id) (rule i32_in_range)

lemma i32_add_left: "i32 (i32 x + y) = i32 (x + y)"
  unfolding i32_def by (simp add: algebra_simps mod_simps)

lemma i32_mod: "i32 x mod 4294967296 = x mod 4294967296"
  unfolding i32_def by (simp add: mod_simps)

text \<open>C's integer division rounds towards zero.\<close>

definition c_div :: "int \<Rightarrow> int \<Rightarrow> int" where
  "c_div a b = sgn a * sgn b * (\<bar>a\<bar> div \<bar>b\<bar>)"

lemma c_div_nonneg: "0 \<le> a \<Longrightarrow> 0 < b \<Longrightarrow> c_div a b = a div b"
  by (cases "a = 0") (auto simp: c_div_def sgn_if)

section \<open>Bytes and network byte order\<close>

type_synonym byte = "8 word"

text \<open>\<open>be_bytes n x\<close>: the \<open>n\<close> low bytes of \<open>x\<close>, most significant first.\<close>

fun be_bytes :: "nat \<Rightarrow> int \<Rightarrow> byte list" where
  "be_bytes 0 x = []"
| "be_bytes (Suc n) x = be_bytes n (x div 256) @ [word_of_int x]"

definition be_val :: "byte list \<Rightarrow> int" where
  "be_val bs = foldl (\<lambda>a b. a * 256 + uint b) 0 bs"

lemma be_val_Nil [simp]: "be_val [] = 0"
  by (simp add: be_val_def)

lemma be_val_snoc [simp]: "be_val (bs @ [b]) = be_val bs * 256 + uint b"
  by (simp add: be_val_def)

lemma length_be_bytes [simp]: "length (be_bytes n x) = n"
  by (induction n arbitrary: x) auto

lemma uint_byte_of_int: "uint (word_of_int x :: byte) = x mod 256"
  by (simp add: uint_word_of_int)

lemma be_val_be_bytes: "be_val (be_bytes n x) = x mod 256 ^ n"
proof (induction n arbitrary: x)
  case 0
  then show ?case by simp
next
  case (Suc n)
  have "x mod 256 ^ Suc n = (x div 256) mod 256 ^ n * 256 + x mod 256"
    by (simp add: zmod_zmult2_eq)
  with Suc show ?case by (simp add: uint_byte_of_int)
qed

text \<open>
  \<open>mem_of e n x\<close>: the \<open>n\<close> bytes in memory of the integer \<open>x\<close> on a host of byte order
  \<open>e\<close>; \<open>mem_val\<close> reads them back.
\<close>

datatype endian = LittleEndian | BigEndian

fun mem_of :: "endian \<Rightarrow> nat \<Rightarrow> int \<Rightarrow> byte list" where
  "mem_of BigEndian n x = be_bytes n x"
| "mem_of LittleEndian n x = rev (be_bytes n x)"

fun mem_val :: "endian \<Rightarrow> byte list \<Rightarrow> int" where
  "mem_val BigEndian bs = be_val bs"
| "mem_val LittleEndian bs = be_val (rev bs)"

lemma length_mem_of [simp]: "length (mem_of e n x) = n"
  by (cases e) auto

lemma mem_val_mem_of: "mem_val e (mem_of e n x) = x mod 256 ^ n"
  by (cases e) (simp_all add: be_val_be_bytes)

lemma be_bytes_be_val: "be_bytes (length bs) (be_val bs) = bs"
proof (induction bs rule: rev_induct)
  case Nil
  then show ?case by simp
next
  case (snoc b bs)
  have lt: "uint b < 256" "0 \<le> uint b"
    using uint_lt2p [of b] by simp_all
  have q: "(be_val bs * 256 + uint b) div 256 = be_val bs"
    using lt by simp
  have "uint (word_of_int (be_val bs * 256 + uint b) :: byte) = uint b"
    using lt by (simp only: uint_byte_of_int) simp
  then have "(word_of_int (be_val bs * 256 + uint b) :: byte) = b"
    by (rule word_uint_eqI)
  then show ?case by (simp only: length_append_singleton be_bytes.simps be_val_snoc q snoc)
qed

lemma mem_of_mem_val: "mem_of e (length bs) (mem_val e bs) = bs"
proof (cases e)
  case LittleEndian
  have "be_bytes (length (rev bs)) (be_val (rev bs)) = rev bs"
    by (rule be_bytes_be_val)
  with LittleEndian show ?thesis by simp
next
  case BigEndian
  then show ?thesis by (simp add: be_bytes_be_val)
qed

section \<open>Writes into a buffer of bytes\<close>

text \<open>A write of \<open>bs\<close> at offset \<open>off\<close>; past the end of the block it is undefined.\<close>

definition poke :: "nat \<Rightarrow> byte list \<Rightarrow> byte list \<Rightarrow> byte list outcome" where
  "poke off bs buf =
     (if off + length bs \<le> length buf
      then Inr (take off buf @ bs @ drop (off + length bs) buf)
      else Inl OutOfBounds)"

lemma poke_length: "poke off bs buf = Inr buf' \<Longrightarrow> length buf' = length buf"
  by (auto simp: poke_def split: if_splits)

text \<open>Filling a zeroed block from the front: the written prefix grows.\<close>

lemma poke_append:
  assumes "length pre = off" and "length bs \<le> length post"
  shows "poke off bs (pre @ post) = Inr (pre @ bs @ drop (length bs) post)"
  using assms by (simp add: poke_def)

section \<open>Lists\<close>

lemma upt_Suc_append_map: "map f [0..<Suc n] = map f [0..<n] @ [f n]"
  by simp

lemma map_upt_Suc_shift: "map f [0..<Suc n] = f 0 # map (\<lambda>i. f (Suc i)) [0..<n]"
  using map_upt_Suc [of f n] .

lemma nth_list_update_neq': "i \<noteq> j \<Longrightarrow> xs[i := x] ! j = xs ! j"
  by simp

end
