(* ===== verification/Fifo.thy ===== *)
theory Fifo
  imports Prelude
begin

text \<open>
  The queue interface the threads rely on, and the ring of slots that both fixed length buffers
  of the program use (\<open>ze_sm_reqbuf.h\<close>, \<open>ze_sm_resbuf.h\<close>).

  \<open>fifo_queue\<close> is the contract of every queue between two threads: items come out in the order
  they went in, none is lost or repeated. \<open>bounded_fifo\<close> adds the capacity. The two buffers and
  the carriers queue interpret them on their own operations.
\<close>

section \<open>The contract of a queue between two threads\<close>

datatype 'a queue_op = Put 'a | Get

text \<open>
  A run of operations. \<open>put\<close> answers \<open>None\<close> where the queue does not take the item;
  the run records the items taken and the items delivered, in order.
\<close>

fun fifo_run :: "('a \<Rightarrow> 'q \<Rightarrow> 'q option) \<Rightarrow> ('q \<Rightarrow> ('a \<times> 'q) option) \<Rightarrow> 'a queue_op list \<Rightarrow> 'q
    \<Rightarrow> 'a list \<times> 'a list \<times> 'q" where
  "fifo_run put get [] q = ([], [], q)"
| "fifo_run put get (Put x # ops) q =
     (case put x q of
        None \<Rightarrow> fifo_run put get ops q
      | Some q' \<Rightarrow> (case fifo_run put get ops q' of (acc, del, r) \<Rightarrow> (x # acc, del, r)))"
| "fifo_run put get (Get # ops) q =
     (case get q of
        None \<Rightarrow> fifo_run put get ops q
      | Some (x, q') \<Rightarrow> (case fifo_run put get ops q' of (acc, del, r) \<Rightarrow> (acc, x # del, r)))"

locale fifo_queue =
  fixes invar :: "'q \<Rightarrow> bool"
    and contents :: "'q \<Rightarrow> 'a list"
    and put :: "'a \<Rightarrow> 'q \<Rightarrow> 'q option"
    and get :: "'q \<Rightarrow> ('a \<times> 'q) option"
  assumes put_invar: "invar q \<Longrightarrow> put x q = Some q' \<Longrightarrow> invar q'"
    and put_contents: "invar q \<Longrightarrow> put x q = Some q' \<Longrightarrow> contents q' = contents q @ [x]"
    and get_invar: "invar q \<Longrightarrow> get q = Some (x, q') \<Longrightarrow> invar q'"
    and get_contents: "invar q \<Longrightarrow> get q = Some (x, q') \<Longrightarrow> contents q = x # contents q'"
    and get_empty: "invar q \<Longrightarrow> get q = None \<longleftrightarrow> contents q = []"
begin

lemma run_invar: "invar q \<Longrightarrow> fifo_run put get ops q = (acc, del, r) \<Longrightarrow> invar r"
proof (induction ops arbitrary: q acc del r)
  case Nil
  then show ?case by simp
next
  case (Cons a ops)
  then show ?case
    by (cases a) (auto split: option.splits prod.splits dest: put_invar get_invar)
qed

text \<open>What was inside and what was taken is what was delivered and what is left.\<close>

lemma run_order:
  "invar q \<Longrightarrow> fifo_run put get ops q = (acc, del, r) \<Longrightarrow> contents q @ acc = del @ contents r"
proof (induction ops arbitrary: q acc del r)
  case Nil
  then show ?case by simp
next
  case (Cons a ops)
  show ?case
  proof (cases a)
    case (Put x)
    with Cons show ?thesis
      by (auto split: option.splits prod.splits dest: put_invar put_contents)
        (metis append.assoc append_Cons append_Nil put_contents put_invar)
  next
    case Get
    with Cons show ?thesis
      by (auto split: option.splits prod.splits dest: get_invar)
        (metis append_Cons get_contents get_invar)
  qed
qed

end

locale bounded_fifo = fifo_queue +
  fixes capacity :: nat
  assumes room: "invar q \<Longrightarrow> put x q = None \<longleftrightarrow> length (contents q) = capacity"
    and bound: "invar q \<Longrightarrow> length (contents q) \<le> capacity"
begin

lemma run_bound: "invar q \<Longrightarrow> fifo_run put get ops q = (acc, del, r) \<Longrightarrow> length (contents r) \<le> capacity"
  by (rule bound) (rule run_invar)

text \<open>No more than the capacity is ever taken and not yet delivered.\<close>

lemma run_lag:
  assumes "invar q" and "contents q = []" and "fifo_run put get ops q = (acc, del, r)"
  shows "length acc \<le> length del + capacity \<and> take (length del) acc = del"
proof -
  have "acc = del @ contents r"
    using run_order [OF assms(1,3)] assms(2) by simp
  then show ?thesis
    using run_bound [OF assms(1,3)] by simp
qed

end

section \<open>The ring of slots\<close>

text \<open>
  The struct shared by \<open>ze_sm_request_buf_t\<close> and \<open>ze_sm_response_buf_t\<close>: an array of slots,
  the two indexes and the item counter. The mutex makes each critical section one step of the
  model; the condition variable is the wait of \<open>put\<close>.
\<close>

record 'a ring =
  rbuf :: "'a list"
  gethere :: nat
  puthere :: nat
  counter :: nat

definition ring_wf :: "nat \<Rightarrow> 'a ring \<Rightarrow> bool" where
  "ring_wf n b \<longleftrightarrow> 0 < n \<and> length (rbuf b) = n \<and> gethere b < n \<and> counter b \<le> n
     \<and> puthere b = (gethere b + counter b) mod n"

definition ring_list :: "nat \<Rightarrow> 'a ring \<Rightarrow> 'a list" where
  "ring_list n b = map (\<lambda>i. rbuf b ! ((gethere b + i) mod n)) [0..<counter b]"

text \<open>The two critical sections, common to the four operations.\<close>

definition ring_insert :: "nat \<Rightarrow> 'a \<Rightarrow> 'a ring \<Rightarrow> 'a ring" where
  "ring_insert n x b =
     b\<lparr>rbuf := (rbuf b)[puthere b := x], puthere := (puthere b + 1) mod n, counter := counter b + 1\<rparr>"

definition ring_remove :: "nat \<Rightarrow> 'a ring \<Rightarrow> 'a \<times> 'a ring" where
  "ring_remove n b =
     (rbuf b ! gethere b, b\<lparr>gethere := (gethere b + 1) mod n, counter := counter b - 1\<rparr>)"

lemma length_ring_list [simp]: "length (ring_list n b) = counter b"
  by (simp add: ring_list_def)

lemma ring_list_empty_iff [simp]: "ring_list n b = [] \<longleftrightarrow> counter b = 0"
  by (simp add: ring_list_def)

lemma Nil_ring_list_iff [simp]: "[] = ring_list n b \<longleftrightarrow> counter b = 0"
  by (simp add: ring_list_def)

lemma ring_insert_wf: "ring_wf n b \<Longrightarrow> counter b < n \<Longrightarrow> ring_wf n (ring_insert n x b)"
  by (simp add: ring_wf_def ring_insert_def mod_simps)

lemma ring_remove_wf:
  assumes "ring_wf n b" and "0 < counter b"
  shows "ring_wf n (snd (ring_remove n b))"
proof -
  from assms(2) obtain k where k: "counter b = Suc k" by (cases "counter b") auto
  with assms(1) show ?thesis by (simp add: ring_wf_def ring_remove_def mod_simps)
qed

text \<open>Different offsets below the ring's size are different slots.\<close>

lemma ring_slot_neq:
  assumes "i < k" and "k < (n::nat)"
  shows "(g + i) mod n \<noteq> (g + k) mod n"
proof
  assume "(g + i) mod n = (g + k) mod n"
  then have "n dvd (g + k) - (g + i)"
    using assms by (metis add_le_cancel_left less_imp_le mod_eq_dvd_iff_nat)
  then have "n dvd k - i" by simp
  with assms show False by (auto dest!: dvd_imp_le)
qed

lemma ring_insert_list:
  assumes "ring_wf n b" and "counter b < n"
  shows "ring_list n (ring_insert n x b) = ring_list n b @ [x]"
proof -
  have slot: "(rbuf b)[(gethere b + counter b) mod n := x] ! ((gethere b + i) mod n)
      = rbuf b ! ((gethere b + i) mod n)" if "i < counter b" for i
    using ring_slot_neq [OF that assms(2), of "gethere b"] by (metis nth_list_update_neq)
  have "(gethere b + counter b) mod n < length (rbuf b)"
    using assms by (simp add: ring_wf_def)
  with assms slot show ?thesis
    by (simp add: ring_list_def ring_insert_def ring_wf_def)
qed

lemma ring_remove_list:
  assumes "ring_wf n b" and "0 < counter b"
  shows "ring_list n b = fst (ring_remove n b) # ring_list n (snd (ring_remove n b))"
proof -
  from assms(2) obtain k where k: "counter b = Suc k" by (cases "counter b") auto
  have g: "gethere b mod n = gethere b"
    using assms(1) by (simp add: ring_wf_def)
  have "(gethere b + Suc i) mod n = ((gethere b + 1) mod n + i) mod n" for i
    by (simp add: mod_simps)
  with g show ?thesis
    by (simp add: ring_list_def ring_remove_def k map_upt_Suc_shift del: upt_Suc)
qed

lemmas ring_laws = ring_insert_wf ring_remove_wf ring_insert_list

lemma ring_insert_counter [simp]: "counter (ring_insert n x b) = counter b + 1"
  by (simp add: ring_insert_def)

lemma ring_remove_counter [simp]: "counter (snd (ring_remove n b)) = counter b - 1"
  by (simp add: ring_remove_def)

lemma ring_wf_counter: "ring_wf n b \<Longrightarrow> counter b \<le> n"
  by (simp add: ring_wf_def)

end
