(* ===== verification/RequestBuffer.thy ===== *)
theory RequestBuffer
  imports Fifo
begin

text \<open>
  \<open>ze_sm_reqbuf.c\<close>: the fixed length buffer of requests from the CoAP server thread (the only
  producer) to the Streaming Manager thread (the only consumer). The operations are functions on
  the ring; what happens while \<open>put_request_buf_item\<close> waits on \<open>notfull\<close> is the step relation
  \<open>rb_step\<close>, with and without the spurious wakeups POSIX allows.
\<close>

section \<open>Data\<close>

record sm_request =
  rq_rtype :: int
  rq_sensor :: int
  rq_ticket :: int
  rq_freq :: int

type_synonym request_buf = "sm_request ring"

definition SM_RBUF_SIZE :: nat where "SM_RBUF_SIZE = 20"

definition SM_REQ_START :: int where "SM_REQ_START = 10"
definition SM_REQ_STOP :: int where "SM_REQ_STOP = 20"
definition SM_REQ_ONESHOT :: int where "SM_REQ_ONESHOT = 30"
definition SM_REQ_INVALID :: int where "SM_REQ_INVALID = -1"

lemmas sm_req_codes = SM_REQ_START_def SM_REQ_STOP_def SM_REQ_ONESHOT_def SM_REQ_INVALID_def

lemma SM_RBUF_SIZE_pos [simp]: "0 < SM_RBUF_SIZE"
  by (simp add: SM_RBUF_SIZE_def)

section \<open>Operations\<close>

text \<open>The zero item of \<open>memset\<close>.\<close>

definition zero_request :: sm_request where
  "zero_request = \<lparr>rq_rtype = 0, rq_sensor = 0, rq_ticket = 0, rq_freq = 0\<rparr>"

text \<open>\<open>ok\<close> is whether \<open>malloc\<close> returned memory.\<close>

definition init_sm_buf :: "bool \<Rightarrow> request_buf option" where
  "init_sm_buf ok =
     (if ok then Some \<lparr>rbuf = replicate SM_RBUF_SIZE zero_request, gethere = 0, puthere = 0, counter = 0\<rparr>
      else None)"

text \<open>
  The local \<open>temp\<close> is not initialised: on an empty buffer only its \<open>rtype\<close> is set, the rest is
  what the stack held, the parameter \<open>temp\<close> here.
\<close>

definition get_request_buf_item :: "sm_request \<Rightarrow> request_buf \<Rightarrow> sm_request \<times> request_buf" where
  "get_request_buf_item temp buf =
     (if counter buf \<le> 0 then (temp\<lparr>rq_rtype := SM_REQ_INVALID\<rparr>, buf)
      else (rbuf buf ! gethere buf,
            buf\<lparr>gethere := (gethere buf + 1) mod SM_RBUF_SIZE, counter := counter buf - 1\<rparr>))"

text \<open>
  \<open>wait\<close> is what the other thread does to the buffer between the release of the mutex inside
  \<open>pthread_cond_wait\<close> and its return: it is called once, under \<open>if\<close>, and the condition is not
  looked at again.
\<close>

definition put_request_buf_item ::
    "(request_buf \<Rightarrow> request_buf) \<Rightarrow> request_buf \<Rightarrow> int \<Rightarrow> int \<Rightarrow> int \<Rightarrow> int \<Rightarrow> int \<times> request_buf" where
  "put_request_buf_item wait buf rtype sensor ticket freq =
     (let buf1 = (if SM_RBUF_SIZE \<le> counter buf then wait buf else buf);
          item = \<lparr>rq_rtype = rtype, rq_sensor = sensor, rq_ticket = ticket, rq_freq = freq\<rparr>
      in (0, buf1\<lparr>rbuf := (rbuf buf1)[puthere buf1 := item],
                  puthere := (puthere buf1 + 1) mod SM_RBUF_SIZE,
                  counter := counter buf1 + 1\<rparr>))"

abbreviation reqbuf_wf :: "request_buf \<Rightarrow> bool" where
  "reqbuf_wf b \<equiv> ring_wf SM_RBUF_SIZE b"

abbreviation requests :: "request_buf \<Rightarrow> sm_request list" where
  "requests b \<equiv> ring_list SM_RBUF_SIZE b"

section \<open>The operations as ring operations\<close>

lemma get_request_nonempty:
  "0 < counter b \<Longrightarrow> get_request_buf_item temp b = ring_remove SM_RBUF_SIZE b"
  by (simp add: get_request_buf_item_def ring_remove_def)

lemma get_request_empty:
  "counter b = 0 \<Longrightarrow> get_request_buf_item temp b = (temp\<lparr>rq_rtype := SM_REQ_INVALID\<rparr>, b)"
  by (simp add: get_request_buf_item_def)

lemma put_request_room:
  "counter b < SM_RBUF_SIZE \<Longrightarrow> put_request_buf_item w b rt s t f =
     (0, ring_insert SM_RBUF_SIZE \<lparr>rq_rtype = rt, rq_sensor = s, rq_ticket = t, rq_freq = f\<rparr> b)"
  by (simp add: put_request_buf_item_def ring_insert_def Let_def)

lemma put_request_full:
  "SM_RBUF_SIZE \<le> counter b \<Longrightarrow> put_request_buf_item w b rt s t f =
     (0, ring_insert SM_RBUF_SIZE \<lparr>rq_rtype = rt, rq_sensor = s, rq_ticket = t, rq_freq = f\<rparr> (w b))"
  by (simp add: put_request_buf_item_def ring_insert_def Let_def)

lemma init_sm_buf_wf: "init_sm_buf ok = Some b \<Longrightarrow> reqbuf_wf b \<and> requests b = []"
  by (auto simp: init_sm_buf_def ring_wf_def ring_list_def split: if_splits)

lemma get_request_wf: "reqbuf_wf b \<Longrightarrow> reqbuf_wf (snd (get_request_buf_item temp b))"
  by (cases "counter b = 0") (simp_all add: get_request_nonempty get_request_empty ring_laws)

lemma put_request_room_list:
  "reqbuf_wf b \<Longrightarrow> counter b < SM_RBUF_SIZE \<Longrightarrow>
     requests (snd (put_request_buf_item w b rt s t f)) =
     requests b @ [\<lparr>rq_rtype = rt, rq_sensor = s, rq_ticket = t, rq_freq = f\<rparr>]"
  by (simp add: put_request_room ring_insert_list)

lemma put_request_room_wf:
  "reqbuf_wf b \<Longrightarrow> counter b < SM_RBUF_SIZE \<Longrightarrow> reqbuf_wf (snd (put_request_buf_item w b rt s t f))"
  by (simp add: put_request_room ring_insert_wf)

lemma requests_remove:
  assumes "reqbuf_wf b" and "get_request_buf_item temp b = (q, b')" and "0 < counter b"
  shows "requests b = q # requests b' \<and> reqbuf_wf b'"
  using assms ring_remove_list [of SM_RBUF_SIZE b] ring_remove_wf [of SM_RBUF_SIZE b]
  by (simp add: get_request_nonempty)

text \<open>
  The views of the two operations a client of the queue contract sees: a put that would wait and
  a get that finds nothing are \<open>None\<close>.
\<close>

definition put_request_view :: "sm_request \<Rightarrow> request_buf \<Rightarrow> request_buf option" where
  "put_request_view q b =
     (if SM_RBUF_SIZE \<le> counter b then None
      else Some (snd (put_request_buf_item id b (rq_rtype q) (rq_sensor q) (rq_ticket q) (rq_freq q))))"

definition get_request_view :: "request_buf \<Rightarrow> (sm_request \<times> request_buf) option" where
  "get_request_view b =
     (if counter b = 0 then None else Some (get_request_buf_item zero_request b))"

interpretation reqq: bounded_fifo reqbuf_wf requests put_request_view get_request_view SM_RBUF_SIZE
proof unfold_locales
  fix q q' :: request_buf and x :: sm_request
  assume wf: "reqbuf_wf q"
  show "put_request_view x q = Some q' \<Longrightarrow> reqbuf_wf q'"
    using wf by (auto simp: put_request_view_def put_request_room_wf split: if_splits)
  show "put_request_view x q = Some q' \<Longrightarrow> requests q' = requests q @ [x]"
    using wf by (auto simp: put_request_view_def put_request_room_list split: if_splits)
  show "get_request_view q = Some (x, q') \<Longrightarrow> reqbuf_wf q'"
    using wf requests_remove [of q zero_request x q'] by (auto simp: get_request_view_def split: if_splits)
  show "get_request_view q = Some (x, q') \<Longrightarrow> requests q = x # requests q'"
    using wf requests_remove [of q zero_request x q'] by (auto simp: get_request_view_def split: if_splits)
  show "(get_request_view q = None) = (requests q = [])"
    by (simp add: get_request_view_def)
  show "(put_request_view x q = None) = (length (requests q) = SM_RBUF_SIZE)"
    using wf by (auto simp: put_request_view_def ring_wf_def)
  show "length (requests q) \<le> SM_RBUF_SIZE"
    using wf by (simp add: ring_wf_counter)
qed

section \<open>The blocking put, step by step\<close>

text \<open>
  The producer is ready, asleep in \<open>pthread_cond_wait\<close> with an item in hand, or woken and about to
  take the mutex again. \<open>rb_in\<close> and \<open>rb_out\<close> record the items put and delivered. The parameter says
  whether \<open>pthread_cond_wait\<close> may return without a signal, which POSIX allows.
\<close>

datatype producer = Ready | Asleep sm_request | Woken sm_request

record rb_state =
  rb_buf :: request_buf
  rb_pc :: producer
  rb_in :: "sm_request list"
  rb_out :: "sm_request list"

fun wake :: "producer \<Rightarrow> producer" where
  "wake (Asleep q) = Woken q"
| "wake p = p"

definition put_body :: "sm_request \<Rightarrow> request_buf \<Rightarrow> request_buf" where
  "put_body q b = snd (put_request_buf_item id b (rq_rtype q) (rq_sensor q) (rq_ticket q) (rq_freq q))"

inductive rb_step :: "bool \<Rightarrow> rb_state \<Rightarrow> rb_state \<Rightarrow> bool" for spurious :: bool where
  put_now: "rb_pc s = Ready \<Longrightarrow> counter (rb_buf s) < SM_RBUF_SIZE \<Longrightarrow>
     rb_step spurious s (s\<lparr>rb_buf := put_body q (rb_buf s), rb_in := rb_in s @ [q]\<rparr>)"
| put_wait: "rb_pc s = Ready \<Longrightarrow> SM_RBUF_SIZE \<le> counter (rb_buf s) \<Longrightarrow>
     rb_step spurious s (s\<lparr>rb_pc := Asleep q\<rparr>)"
| put_resume: "rb_pc s = Woken q \<Longrightarrow>
     rb_step spurious s (s\<lparr>rb_buf := put_body q (rb_buf s), rb_in := rb_in s @ [q], rb_pc := Ready\<rparr>)"
| get_item: "0 < counter (rb_buf s) \<Longrightarrow> get_request_buf_item temp (rb_buf s) = (q, b) \<Longrightarrow>
     rb_step spurious s (s\<lparr>rb_buf := b, rb_out := rb_out s @ [q], rb_pc := wake (rb_pc s)\<rparr>)"
| get_nothing: "counter (rb_buf s) = 0 \<Longrightarrow> rb_step spurious s s"
| spurious_wakeup: "spurious \<Longrightarrow> rb_pc s = Asleep q \<Longrightarrow>
     rb_step spurious s (s\<lparr>rb_pc := Woken q\<rparr>)"

inductive_cases rb_stepE: "rb_step spurious s t"

definition rb_init :: rb_state where
  "rb_init = \<lparr>rb_buf = the (init_sm_buf True), rb_pc = Ready, rb_in = [], rb_out = []\<rparr>"

inductive rb_reachable :: "bool \<Rightarrow> rb_state \<Rightarrow> bool" for spurious :: bool where
  rb_start: "rb_reachable spurious rb_init"
| rb_next: "rb_reachable spurious s \<Longrightarrow> rb_step spurious s t \<Longrightarrow> rb_reachable spurious t"

text \<open>
  Without spurious wakeups: the ring is well formed, a woken producer finds a free slot, and the
  items put are those delivered followed by those inside.
\<close>

definition rb_inv :: "rb_state \<Rightarrow> bool" where
  "rb_inv s \<longleftrightarrow> reqbuf_wf (rb_buf s)
     \<and> (\<forall>q. rb_pc s = Woken q \<longrightarrow> counter (rb_buf s) < SM_RBUF_SIZE)
     \<and> rb_in s = rb_out s @ requests (rb_buf s)"

lemma put_body_room:
  assumes "reqbuf_wf b" and "counter b < SM_RBUF_SIZE"
  shows "reqbuf_wf (put_body q b)" and "requests (put_body q b) = requests b @ [q]"
  using assms by (simp_all add: put_body_def put_request_room_wf put_request_room_list)

lemma put_body_full:
  "SM_RBUF_SIZE \<le> counter b \<Longrightarrow> put_body q b = ring_insert SM_RBUF_SIZE q b"
  by (cases q) (simp add: put_body_def put_request_full)

lemma rb_inv_init: "rb_inv rb_init"
  using init_sm_buf_wf [of True "the (init_sm_buf True)"]
  by (auto simp: rb_inv_def rb_init_def init_sm_buf_def)

lemma rb_inv_step: "rb_step False s t \<Longrightarrow> rb_inv s \<Longrightarrow> rb_inv t"
proof (induction rule: rb_step.induct)
  case (get_item s temp q b)
  then have "requests (rb_buf s) = q # requests b \<and> reqbuf_wf b"
    by (intro requests_remove) (auto simp: rb_inv_def)
  moreover have "counter b < SM_RBUF_SIZE"
    using get_item ring_wf_counter [of SM_RBUF_SIZE "rb_buf s"]
    by (auto simp: rb_inv_def get_request_buf_item_def split: if_splits)
  ultimately show ?case
    using get_item by (simp add: rb_inv_def)
qed (auto simp: rb_inv_def put_body_room)

lemma rb_reachable_inv: "rb_reachable False s \<Longrightarrow> rb_inv s"
  by (induction rule: rb_reachable.induct) (auto intro: rb_inv_init rb_inv_step)

text \<open>Putting \<open>n\<close> items with room for them is a run of \<open>n\<close> steps.\<close>

lemma rb_fill:
  assumes "rb_reachable sp s" and "rb_pc s = Ready" and "reqbuf_wf (rb_buf s)"
    and "counter (rb_buf s) + n \<le> SM_RBUF_SIZE"
  shows "\<exists>t. rb_reachable sp t \<and> rb_pc t = Ready \<and> reqbuf_wf (rb_buf t)
           \<and> counter (rb_buf t) = counter (rb_buf s) + n \<and> gethere (rb_buf t) = gethere (rb_buf s)
           \<and> rb_in t = rb_in s @ replicate n q \<and> rb_out t = rb_out s"
  using assms
proof (induction n)
  case 0
  then show ?case by auto
next
  case (Suc n)
  then obtain t where t: "rb_reachable sp t" "rb_pc t = Ready" "reqbuf_wf (rb_buf t)"
    "counter (rb_buf t) = counter (rb_buf s) + n" "gethere (rb_buf t) = gethere (rb_buf s)"
    "rb_in t = rb_in s @ replicate n q" "rb_out t = rb_out s"
    by auto
  let ?u = "t\<lparr>rb_buf := put_body q (rb_buf t), rb_in := rb_in t @ [q]\<rparr>"
  have room: "counter (rb_buf t) < SM_RBUF_SIZE"
    using t(4) Suc.prems(4) by simp
  then have "rb_step sp t ?u"
    using t(2) by (rule rb_step.put_now [rotated])
  then have "rb_reachable sp ?u"
    using t(1) by (rule rb_reachable.rb_next [rotated])
  moreover have "counter (put_body q (rb_buf t)) = counter (rb_buf t) + 1"
    and "gethere (put_body q (rb_buf t)) = gethere (rb_buf t)"
    using room by (simp_all add: put_body_def put_request_room ring_insert_def)
  ultimately show ?case
    using t put_body_room(1) [OF t(3) room]
    by (intro exI [of _ ?u]) (simp add: replicate_append_same)
qed

section \<open>Properties\<close>

text \<open>
  C23. On a fresh request buffer, whatever sequence of puts and gets is run, the requests the
  Streaming Manager takes out are exactly the first ones the CoAP server put in, in that order; at most
  20 are inside, and those inside are the rest.
\<close>

theorem request_buffer_fifo:
  assumes "init_sm_buf ok = Some b"
    and "fifo_run put_request_view get_request_view ops b = (acc, del, r)"
  shows "acc = del @ requests r \<and> length acc \<le> length del + 20 \<and> reqbuf_wf r"
proof -
  have b: "reqbuf_wf b" "requests b = []"
    using init_sm_buf_wf [OF assms(1)] by simp_all
  show ?thesis
    using reqq.run_order [OF b(1) assms(2)] reqq.run_lag [OF b assms(2)]
      reqq.run_invar [OF b(1) assms(2)]
    by (simp add: b(2)) (simp add: SM_RBUF_SIZE_def)
qed

theorem request_buffer_fifo_witness:
  "init_sm_buf True = Some (the (init_sm_buf True)) \<and>
   fst (snd (fifo_run put_request_view get_request_view [Get, Put zero_request, Get] (the (init_sm_buf True))))
     = [zero_request] \<and>
   (\<exists>acc del r. fifo_run put_request_view get_request_view [Get, Put zero_request, Get]
      (the (init_sm_buf True)) = (acc, del, r) \<and> acc = del @ requests r)"
proof -
  obtain acc del r where run: "fifo_run put_request_view get_request_view
      [Get, Put zero_request, Get] (the (init_sm_buf True)) = (acc, del, r)"
    by (metis prod_cases3)
  have i: "init_sm_buf True = Some (the (init_sm_buf True))"
    by (simp add: init_sm_buf_def)
  have "fst (snd (fifo_run put_request_view get_request_view [Get, Put zero_request, Get]
      (the (init_sm_buf True)))) = [zero_request]"
    by (simp add: init_sm_buf_def get_request_view_def put_request_view_def SM_RBUF_SIZE_def
        put_request_buf_item_def get_request_buf_item_def zero_request_def)
  then show ?thesis
    using request_buffer_fifo [OF i run] run i by blast
qed

text \<open>
  C25. The blocking put is safe when \<open>pthread_cond_wait\<close> returns only after a signal: in every
  reachable state of one producer and one consumer the ring is well formed, at most 20 requests are
  inside, and what was put is what was delivered followed by what is inside.
\<close>

theorem request_buffer_blocking_safe:
  assumes "rb_reachable False s"
  shows "reqbuf_wf (rb_buf s) \<and> counter (rb_buf s) \<le> 20 \<and> rb_in s = rb_out s @ requests (rb_buf s)"
  using rb_reachable_inv [OF assms] ring_wf_counter [of SM_RBUF_SIZE "rb_buf s"]
  by (simp add: rb_inv_def SM_RBUF_SIZE_def)

theorem request_buffer_blocking_safe_witness:
  "rb_reachable False rb_init \<and> counter (rb_buf rb_init) \<le> 20"
  using request_buffer_blocking_safe [OF rb_reachable.rb_start] rb_reachable.rb_start by blast

text \<open>
  The wait is an \<open>if\<close>, not a \<open>while\<close>: with one spurious wakeup (which POSIX allows) a put into a
  full buffer goes through, 21 items are counted in 20 slots, and the oldest request \<open>p\<close>, put first and
  never delivered, is overwritten: the next get returns the newest request \<open>q\<close> instead.
\<close>

theorem request_buffer_spurious_overrun:
  "\<exists>s. rb_reachable True s \<and> rb_out s = [] \<and> rb_in s = replicate 20 p @ [q]
     \<and> counter (rb_buf s) = 21 \<and> fst (get_request_buf_item temp (rb_buf s)) = q"
proof -
  have init: "rb_pc rb_init = Ready" "rb_in rb_init = []" "rb_out rb_init = []"
    "counter (rb_buf rb_init) = 0" "reqbuf_wf (rb_buf rb_init)"
    using rb_inv_init by (simp_all add: rb_init_def init_sm_buf_def rb_inv_def)
  then obtain t where t: "rb_reachable True t" "rb_pc t = Ready" "reqbuf_wf (rb_buf t)"
    "counter (rb_buf t) = SM_RBUF_SIZE" "rb_in t = replicate SM_RBUF_SIZE p" "rb_out t = []"
    using rb_fill [OF rb_reachable.rb_start [of True], of SM_RBUF_SIZE p] by auto
  let ?a = "t\<lparr>rb_pc := Asleep q\<rparr>" and ?w = "t\<lparr>rb_pc := Woken q\<rparr>"
  let ?u = "t\<lparr>rb_buf := put_body q (rb_buf t), rb_in := rb_in t @ [q], rb_pc := Ready\<rparr>"
  have "rb_reachable True ?a"
    using t(1) rb_step.put_wait [of t True q] t(2,4) by (auto intro: rb_reachable.rb_next)
  then have "rb_reachable True ?w"
    using rb_step.spurious_wakeup [of True ?a q] by (auto intro: rb_reachable.rb_next)
  then have "rb_reachable True ?u"
    using rb_step.put_resume [of ?w q True] by (auto intro: rb_reachable.rb_next)
  moreover have "puthere (rb_buf t) = gethere (rb_buf t)" "gethere (rb_buf t) < length (rbuf (rb_buf t))"
    using t(3,4) by (auto simp: ring_wf_def)
  ultimately show ?thesis
    using t by (intro exI [of _ ?u])
      (simp add: put_body_full ring_insert_def get_request_buf_item_def SM_RBUF_SIZE_def)
qed

end
