(* ===== verification/Types.thy ===== *)
theory Types
  imports Prelude
begin

text \<open>
  The values the threads exchange (\<open>ASensorEvent\<close> as far as the program reads it, \<open>ticket_t\<close>,
  \<open>ze_sm_packet_t\<close>, the sensor numbers of \<open>ze_streaming_manager.h\<close>) and the list macros of
  \<open>utlist.h\<close>, which is not part of the repository, as a parameter.
\<close>

section \<open>Sensor events\<close>

text \<open>A C \<open>float\<close> is its 32 bits.\<close>

type_synonym f32 = "32 word"
type_synonym vec3 = "f32 \<times> f32 \<times> f32"

text \<open>
  \<open>ASensorEvent\<close> comes from the Android NDK. The fields are the members the program reads:
  the sensor type, the time stamp in nanoseconds, the three components of \<open>acceleration\<close> and of
  \<open>vector\<close>, \<open>distance\<close> and \<open>light\<close>.
\<close>

record sensor_event =
  ev_type :: int
  ev_timestamp :: int
  ev_acceleration :: vec3
  ev_vector :: vec3
  ev_distance :: f32
  ev_light :: f32

definition zero_event :: sensor_event where
  "zero_event = \<lparr>ev_type = 0, ev_timestamp = 0, ev_acceleration = (0, 0, 0), ev_vector = (0, 0, 0),
     ev_distance = 0, ev_light = 0\<rparr>"

text \<open>Sensor numbers: Android's, as the header lists them, and the program's own.\<close>

definition ASENSOR_TYPE_ACCELEROMETER :: int where "ASENSOR_TYPE_ACCELEROMETER = 1"
definition ASENSOR_TYPE_MAGNETIC_FIELD :: int where "ASENSOR_TYPE_MAGNETIC_FIELD = 2"
definition ASENSOR_TYPE_GYROSCOPE :: int where "ASENSOR_TYPE_GYROSCOPE = 4"
definition ASENSOR_TYPE_LIGHT :: int where "ASENSOR_TYPE_LIGHT = 5"
definition ASENSOR_TYPE_PROXIMITY :: int where "ASENSOR_TYPE_PROXIMITY = 8"
definition ZESENSE_SENSOR_TYPE_ORIENTATION :: int where "ZESENSE_SENSOR_TYPE_ORIENTATION = 3"
definition ZESENSE_SENSOR_TYPE_LOCATION :: int where "ZESENSE_SENSOR_TYPE_LOCATION = 14"
definition ZE_NUMSENSORS :: nat where "ZE_NUMSENSORS = 15"

lemmas sensor_codes = ASENSOR_TYPE_ACCELEROMETER_def ASENSOR_TYPE_MAGNETIC_FIELD_def
  ASENSOR_TYPE_GYROSCOPE_def ASENSOR_TYPE_LIGHT_def ASENSOR_TYPE_PROXIMITY_def
  ZESENSE_SENSOR_TYPE_ORIENTATION_def ZESENSE_SENSOR_TYPE_LOCATION_def

section \<open>Packets\<close>

text \<open>
  The CoAP message types come from \<open>libcoap\<close>; the program only compares them, so the model has
  the two it uses and one constructor for the others.
\<close>

datatype coap_message = COAP_MESSAGE_CON | COAP_MESSAGE_NON | COAP_MESSAGE_OTHER int

text \<open>\<open>data\<close> is \<open>None\<close> where the C pointer is \<open>NULL\<close>.\<close>

record sm_packet =
  pk_ntpts :: int
  pk_rtpts :: int
  pk_conf :: coap_message
  pk_data :: "byte list option"
  pk_length :: int

section \<open>The list macros of utlist.h\<close>

text \<open>
  A singly linked list is the list of its elements, a pointer into it an index. \<open>LL_APPEND\<close> and
  \<open>LL_DELETE\<close> are macros of \<open>utlist.h\<close>; \<open>utlist_ok\<close> is what its documentation says of them.
\<close>

record 'a utlist =
  ll_append :: "'a list \<Rightarrow> 'a \<Rightarrow> 'a list"
  ll_delete :: "'a list \<Rightarrow> nat \<Rightarrow> 'a list"

definition utlist_ok :: "'a utlist \<Rightarrow> bool" where
  "utlist_ok U \<longleftrightarrow> (\<forall>xs x. ll_append U xs x = xs @ [x])
     \<and> (\<forall>xs i. i < length xs \<longrightarrow> ll_delete U xs i = take i xs @ drop (Suc i) xs)"

lemma utlist_append: "utlist_ok U \<Longrightarrow> ll_append U xs x = xs @ [x]"
  by (simp add: utlist_ok_def)

lemma utlist_delete: "utlist_ok U \<Longrightarrow> i < length xs \<Longrightarrow> ll_delete U xs i = take i xs @ drop (Suc i) xs"
  by (simp add: utlist_ok_def)

text \<open>The hypothesis can hold.\<close>

definition plain_utlist :: "'a utlist" where
  "plain_utlist = \<lparr>ll_append = (\<lambda>xs x. xs @ [x]), ll_delete = (\<lambda>xs i. take i xs @ drop (Suc i) xs)\<rparr>"

lemma plain_utlist_ok [simp]: "utlist_ok plain_utlist"
  by (simp add: utlist_ok_def plain_utlist_def)

end
