(* ===== verification/ResponseBuffer.thy ===== *)
theory ResponseBuffer
  imports Fifo Types
begin

text \<open>
  \<open>ze_sm_resbuf.c\<close>: the fixed length buffer of responses from the Streaming Manager thread to the
  CoAP server thread. Its put waits at most two seconds for room and then gives up with
  \<open>ETIMEDOUT\<close>, unlike the put of the request buffer.
\<close>

section \<open>Data\<close>

record sm_response =
  rs_rtype :: int
  rs_ticket :: int
  rs_pk :: "sm_packet option"

type_synonym response_buf = "sm_response ring"

definition COAP_RBUF_SIZE :: nat where "COAP_RBUF_SIZE = 20"

definition STREAM_UPDATE :: int where "STREAM_UPDATE = 50"
definition ONESHOT :: int where "ONESHOT = 60"
definition STREAM_STOPPED :: int where "STREAM_STOPPED = 70"
definition INVALID_RESPONSE :: int where "INVALID_RESPONSE = 40"

lemmas sm_res_codes = STREAM_UPDATE_def ONESHOT_def STREAM_STOPPED_def INVALID_RESPONSE_def

text \<open>\<open>errno.h\<close> of Linux.\<close>

definition ETIMEDOUT :: int where "ETIMEDOUT = 110"

lemma COAP_RBUF_SIZE_pos [simp]: "0 < COAP_RBUF_SIZE"
  by (simp add: COAP_RBUF_SIZE_def)

section \<open>Operations\<close>

definition zero_response :: sm_response where
  "zero_response = \<lparr>rs_rtype = 0, rs_ticket = 0, rs_pk = None\<rparr>"

definition init_coap_buf :: "bool \<Rightarrow> response_buf option" where
  "init_coap_buf ok =
     (if ok then Some \<lparr>rbuf = replicate COAP_RBUF_SIZE zero_response, gethere = 0, puthere = 0, counter = 0\<rparr>
      else None)"

definition get_response_buf_item :: "sm_response \<Rightarrow> response_buf \<Rightarrow> sm_response \<times> response_buf" where
  "get_response_buf_item temp buf =
     (if counter buf \<le> 0 then (temp\<lparr>rs_rtype := INVALID_RESPONSE\<rparr>, buf)
      else (rbuf buf ! gethere buf,
            buf\<lparr>gethere := (gethere buf + 1) mod COAP_RBUF_SIZE, counter := counter buf - 1\<rparr>))"

text \<open>
  \<open>wait\<close> is \<open>pthread_cond_timedwait\<close>: its result and the buffer when it has the mutex again.
\<close>

definition put_response_buf_item ::
    "(response_buf \<Rightarrow> int \<times> response_buf) \<Rightarrow> response_buf \<Rightarrow> int \<Rightarrow> int \<Rightarrow> sm_packet option
      \<Rightarrow> int \<times> response_buf" where
  "put_response_buf_item wait buf rtype ticket pk =
     (let (timeout, buf1) = (if COAP_RBUF_SIZE \<le> counter buf then wait buf else (0, buf))
      in if timeout = 0
         then (timeout, buf1\<lparr>rbuf := (rbuf buf1)[puthere buf1 :=
                                   \<lparr>rs_rtype = rtype, rs_ticket = ticket, rs_pk = pk\<rparr>],
                              puthere := (puthere buf1 + 1) mod COAP_RBUF_SIZE,
                              counter := counter buf1 + 1\<rparr>)
         else (timeout, buf1))"

abbreviation resbuf_wf :: "response_buf \<Rightarrow> bool" where
  "resbuf_wf b \<equiv> ring_wf COAP_RBUF_SIZE b"

abbreviation responses :: "response_buf \<Rightarrow> sm_response list" where
  "responses b \<equiv> ring_list COAP_RBUF_SIZE b"

section \<open>The operations as ring operations\<close>

lemma get_response_nonempty:
  "0 < counter b \<Longrightarrow> get_response_buf_item temp b = ring_remove COAP_RBUF_SIZE b"
  by (simp add: get_response_buf_item_def ring_remove_def)

lemma get_response_empty:
  "counter b = 0 \<Longrightarrow> get_response_buf_item temp b = (temp\<lparr>rs_rtype := INVALID_RESPONSE\<rparr>, b)"
  by (simp add: get_response_buf_item_def)

lemma put_response_room:
  "counter b < COAP_RBUF_SIZE \<Longrightarrow> put_response_buf_item w b rt t pk =
     (0, ring_insert COAP_RBUF_SIZE \<lparr>rs_rtype = rt, rs_ticket = t, rs_pk = pk\<rparr> b)"
  by (simp add: put_response_buf_item_def ring_insert_def)

lemma put_response_full_ok:
  "COAP_RBUF_SIZE \<le> counter b \<Longrightarrow> w b = (0, b') \<Longrightarrow> put_response_buf_item w b rt t pk =
     (0, ring_insert COAP_RBUF_SIZE \<lparr>rs_rtype = rt, rs_ticket = t, rs_pk = pk\<rparr> b')"
  by (simp add: put_response_buf_item_def ring_insert_def)

lemma put_response_full_fail:
  "COAP_RBUF_SIZE \<le> counter b \<Longrightarrow> w b = (e, b') \<Longrightarrow> e \<noteq> 0 \<Longrightarrow> put_response_buf_item w b rt t pk = (e, b')"
  by (simp add: put_response_buf_item_def)

lemma init_coap_buf_wf: "init_coap_buf ok = Some b \<Longrightarrow> resbuf_wf b \<and> responses b = []"
  by (auto simp: init_coap_buf_def ring_wf_def ring_list_def split: if_splits)

lemma get_response_wf: "resbuf_wf b \<Longrightarrow> resbuf_wf (snd (get_response_buf_item temp b))"
  by (cases "counter b = 0") (simp_all add: get_response_nonempty get_response_empty ring_laws)

lemma responses_remove:
  assumes "resbuf_wf b" and "get_response_buf_item temp b = (q, b')" and "0 < counter b"
  shows "responses b = q # responses b' \<and> resbuf_wf b'"
  using assms ring_remove_list [of COAP_RBUF_SIZE b] ring_remove_wf [of COAP_RBUF_SIZE b]
  by (simp add: get_response_nonempty)

definition put_response_view :: "sm_response \<Rightarrow> response_buf \<Rightarrow> response_buf option" where
  "put_response_view q b =
     (case put_response_buf_item (\<lambda>b. (ETIMEDOUT, b)) b (rs_rtype q) (rs_ticket q) (rs_pk q) of
        (r, b') \<Rightarrow> if r = 0 then Some b' else None)"

definition get_response_view :: "response_buf \<Rightarrow> (sm_response \<times> response_buf) option" where
  "get_response_view b =
     (if counter b = 0 then None else Some (get_response_buf_item zero_response b))"

lemma put_response_view_eq:
  "put_response_view q b = (if counter b < COAP_RBUF_SIZE then Some (ring_insert COAP_RBUF_SIZE q b) else None)"
  by (cases q)
    (simp add: put_response_view_def put_response_buf_item_def ring_insert_def ETIMEDOUT_def)

interpretation resq: bounded_fifo resbuf_wf responses put_response_view get_response_view COAP_RBUF_SIZE
proof unfold_locales
  fix q q' :: response_buf and x :: sm_response
  assume wf: "resbuf_wf q"
  show "put_response_view x q = Some q' \<Longrightarrow> resbuf_wf q'"
    using wf by (auto simp: put_response_view_eq ring_laws split: if_splits)
  show "put_response_view x q = Some q' \<Longrightarrow> responses q' = responses q @ [x]"
    using wf by (auto simp: put_response_view_eq ring_laws split: if_splits)
  show "get_response_view q = Some (x, q') \<Longrightarrow> resbuf_wf q'"
    using wf responses_remove [of q zero_response x q'] by (auto simp: get_response_view_def split: if_splits)
  show "get_response_view q = Some (x, q') \<Longrightarrow> responses q = x # responses q'"
    using wf responses_remove [of q zero_response x q'] by (auto simp: get_response_view_def split: if_splits)
  show "(get_response_view q = None) = (responses q = [])"
    by (simp add: get_response_view_def)
  show "(put_response_view x q = None) = (length (responses q) = COAP_RBUF_SIZE)"
    using wf by (auto simp: put_response_view_eq ring_wf_def)
  show "length (responses q) \<le> COAP_RBUF_SIZE"
    using wf by (simp add: ring_wf_counter)
qed

section \<open>Properties\<close>

text \<open>
  A put into the response buffer on a well formed buffer, with a wait that leaves the buffer well formed
  and returns 0 only when there is room: result 0 means the response is now the last one, behind
  what the consumer left, and any other result means the response was not stored. The buffer stays well
  formed either way.
\<close>

theorem put_response_stored_iff_zero:
  assumes wf: "resbuf_wf b"
    and wait_wf: "\<And>e c. wait b = (e, c) \<Longrightarrow> resbuf_wf c"
    and wait_room: "\<And>c. wait b = (0, c) \<Longrightarrow> counter c < COAP_RBUF_SIZE"
    and put: "put_response_buf_item wait b rt t pk = (r, b')"
  shows "resbuf_wf b' \<and>
    (if counter b < 20 then r = 0 \<and> responses b' = responses b @ [\<lparr>rs_rtype = rt, rs_ticket = t, rs_pk = pk\<rparr>]
     else r = fst (wait b) \<and> responses b' = responses (snd (wait b)) @
            (if r = 0 then [\<lparr>rs_rtype = rt, rs_ticket = t, rs_pk = pk\<rparr>] else []))"
proof (cases "counter b < COAP_RBUF_SIZE")
  case True
  with wf put show ?thesis
    by (auto simp: put_response_room ring_laws) (simp_all add: COAP_RBUF_SIZE_def)
next
  case False
  obtain e c where w: "wait b = (e, c)" by force
  have c: "resbuf_wf c" "e = 0 \<Longrightarrow> counter c < COAP_RBUF_SIZE"
    using wait_wf wait_room w by simp_all
  show ?thesis
  proof (cases "e = 0")
    case True
    with False put w have "r = 0" "b' = ring_insert COAP_RBUF_SIZE \<lparr>rs_rtype = rt, rs_ticket = t, rs_pk = pk\<rparr> c"
      by (simp_all add: put_response_full_ok)
    with False True c w show ?thesis
      by (simp add: ring_laws) (simp add: COAP_RBUF_SIZE_def)
  next
    case e: False
    with False put w have "r = e" "b' = c"
      by (simp_all add: put_response_full_fail)
    with False e c w show ?thesis
      by (simp add: COAP_RBUF_SIZE_def)
  qed
qed

definition one_slot_buf :: response_buf where
  "one_slot_buf = the (init_coap_buf True)"

theorem put_response_stored_iff_zero_witness:
  "resbuf_wf one_slot_buf \<and>
   (\<exists>r b'. put_response_buf_item (\<lambda>b. (ETIMEDOUT, b)) one_slot_buf STREAM_STOPPED 7 None = (r, b') \<and>
      r = 0 \<and> responses b' = [\<lparr>rs_rtype = STREAM_STOPPED, rs_ticket = 7, rs_pk = None\<rparr>])"
proof -
  have wf: "resbuf_wf one_slot_buf" "responses one_slot_buf = []" "counter one_slot_buf < 20"
    using init_coap_buf_wf [of True one_slot_buf] by (auto simp: one_slot_buf_def init_coap_buf_def)
  obtain r b' where put: "put_response_buf_item (\<lambda>b. (ETIMEDOUT, b)) one_slot_buf STREAM_STOPPED 7 None = (r, b')"
    by force
  show ?thesis
    using put_response_stored_iff_zero [OF wf(1) _ _ put] wf put by (auto simp: ETIMEDOUT_def)
qed

text \<open>
  C24. The CoAP server sees the responses in the order the Streaming Manager put them: on a fresh
  buffer, over any sequence of puts (those that time out are not taken) and gets, what is taken out is the
  first part of what was taken in, and never more than 20 are in between.
\<close>

theorem response_buffer_fifo:
  assumes "init_coap_buf ok = Some b"
    and "fifo_run put_response_view get_response_view ops b = (acc, del, r)"
  shows "acc = del @ responses r \<and> length acc \<le> length del + 20 \<and> resbuf_wf r"
proof -
  have b: "resbuf_wf b" "responses b = []"
    using init_coap_buf_wf [OF assms(1)] by simp_all
  show ?thesis
    using resq.run_order [OF b(1) assms(2)] resq.run_lag [OF b assms(2)] resq.run_invar [OF b(1) assms(2)]
    by (simp add: b(2)) (simp add: COAP_RBUF_SIZE_def)
qed

theorem response_buffer_fifo_witness:
  "\<exists>acc del r. init_coap_buf True = Some one_slot_buf \<and>
     fifo_run put_response_view get_response_view [Get, Put zero_response, Get] one_slot_buf = (acc, del, r) \<and>
     acc = del @ responses r \<and> del = [zero_response]"
proof -
  obtain acc del r where run: "fifo_run put_response_view get_response_view
      [Get, Put zero_response, Get] one_slot_buf = (acc, del, r)"
    by (metis prod_cases3)
  have i: "init_coap_buf True = Some one_slot_buf"
    by (simp add: init_coap_buf_def one_slot_buf_def)
  have "fst (snd (fifo_run put_response_view get_response_view [Get, Put zero_response, Get]
      one_slot_buf)) = [zero_response]"
    by (simp add: one_slot_buf_def init_coap_buf_def get_response_view_def put_response_view_eq
        COAP_RBUF_SIZE_def get_response_buf_item_def ring_insert_def)
  with run have "del = [zero_response]" by simp
  then show ?thesis
    using response_buffer_fifo [OF i run] run i by blast
qed

end
