(* ===== verification/CarriersQueue.thy ===== *)
theory CarriersQueue
  imports Fifo Types
begin

text \<open>
  \<open>ze_carriers_queue.c\<close>: the unbounded queue of events from the carrier threads to the Streaming
  Manager. Both ends are non blocking; a put fails only when there is no memory.
\<close>

section \<open>Operations\<close>

text \<open>The list hanging from \<open>head\<close>; \<open>counter\<close> is in the struct but nothing uses it.\<close>

record carriers_queue =
  cq_head :: "sensor_event list"
  cq_counter :: int

text \<open>\<open>ok\<close> is the outcome of \<open>malloc\<close>, \<open>err\<close> the result of \<open>pthread_mutex_init\<close>.\<close>

definition init_carriers_queue :: "bool \<Rightarrow> int \<Rightarrow> carriers_queue option" where
  "init_carriers_queue ok err =
     (if \<not> ok then None
      else if err \<noteq> 0 then None
      else Some \<lparr>cq_head = [], cq_counter = 0\<rparr>)"

text \<open>\<open>event\<close> is the memory of the caller the head is copied to.\<close>

definition get_carrier_event :: "carriers_queue \<Rightarrow> sensor_event \<Rightarrow> int \<times> sensor_event \<times> carriers_queue" where
  "get_carrier_event queue event =
     (case cq_head queue of
        [] \<Rightarrow> (0, event, queue)
      | e # es \<Rightarrow> (1, e, queue\<lparr>cq_head := es\<rparr>))"

definition put_carrier_event ::
    "sensor_event utlist \<Rightarrow> bool \<Rightarrow> carriers_queue \<Rightarrow> sensor_event \<Rightarrow> int \<times> carriers_queue" where
  "put_carrier_event U ok queue event =
     (if \<not> ok then (0, queue)
      else (1, queue\<lparr>cq_head := ll_append U (cq_head queue) event\<rparr>))"

section \<open>The queue contract\<close>

definition put_carrier_view :: "sensor_event \<Rightarrow> carriers_queue \<Rightarrow> carriers_queue option" where
  "put_carrier_view ev q =
     (case put_carrier_event plain_utlist True q ev of (r, q') \<Rightarrow> if r = 1 then Some q' else None)"

definition get_carrier_view :: "carriers_queue \<Rightarrow> (sensor_event \<times> carriers_queue) option" where
  "get_carrier_view q = (case get_carrier_event q zero_event of (r, e, q') \<Rightarrow> if r = 1 then Some (e, q') else None)"

interpretation carq: fifo_queue "\<lambda>_. True" cq_head put_carrier_view get_carrier_view
  by unfold_locales
    (auto simp: put_carrier_view_def get_carrier_view_def put_carrier_event_def get_carrier_event_def
      plain_utlist_def split: list.splits)

section \<open>Properties\<close>

text \<open>
  The carriers queue loses an event only when \<open>malloc\<close> fails, and then says so: a put that
  returns 1 makes the event the last one of the queue and a get afterwards returns the oldest event; a put that
  returns 0 and a get that returns 0 leave the queue as it was.
\<close>

theorem carriers_queue_put_get:
  assumes "utlist_ok U" and "put_carrier_event U ok q ev = (r, q')"
  shows "(r = 1 \<longleftrightarrow> ok) \<and> (r = 0 \<longrightarrow> q' = q)
    \<and> (r = 1 \<longrightarrow> get_carrier_event q' out = (1, hd (cq_head q @ [ev]), q\<lparr>cq_head := tl (cq_head q @ [ev])\<rparr>))
    \<and> (get_carrier_event q out = (0, out, q) \<longleftrightarrow> cq_head q = [])"
  using assms
  by (cases "cq_head q")
    (auto simp: put_carrier_event_def get_carrier_event_def utlist_append split: if_splits)

theorem carriers_queue_put_get_witness:
  "get_carrier_event (snd (put_carrier_event plain_utlist True \<lparr>cq_head = [], cq_counter = 0\<rparr> zero_event)) zero_event
     = (1, zero_event, \<lparr>cq_head = [], cq_counter = 0\<rparr>)"
proof -
  let ?q = "\<lparr>cq_head = [], cq_counter = 0\<rparr>"
  obtain r q' where p: "put_carrier_event plain_utlist True ?q zero_event = (r, q')" by force
  show ?thesis
    using carriers_queue_put_get [OF plain_utlist_ok p, of zero_event] p by simp
qed

end
