(* ===== verification/FormatE.thy ===== *)
theory FormatE
  imports Types Complex_Main
begin

text \<open>
  What \<open>sprintf(p, "%e", x)\<close> of the C library writes for a \<open>float\<close> (which is promoted to
  \<open>double\<close> exactly): one digit, a point, six digits, \<open>e\<close>, a sign and at least two digits of the
  exponent, correctly rounded to nearest, ties to even. The encoder of the Streaming Manager uses
  it for every value it sends.
\<close>

section \<open>The value of a float\<close>

definition f32_neg :: "f32 \<Rightarrow> bool" where
  "f32_neg x \<longleftrightarrow> unat x div 2 ^ 31 = 1"

definition f32_exp :: "f32 \<Rightarrow> nat" where
  "f32_exp x = unat x div 2 ^ 23 mod 256"

definition f32_frac :: "f32 \<Rightarrow> nat" where
  "f32_frac x = unat x mod 2 ^ 23"

definition f32_finite :: "f32 \<Rightarrow> bool" where
  "f32_finite x \<longleftrightarrow> f32_exp x \<noteq> 255"

text \<open>A finite float has the absolute value \<open>f32_scaled x / 2 ^ 149\<close>.\<close>

definition f32_scaled :: "f32 \<Rightarrow> nat" where
  "f32_scaled x = (if f32_exp x = 0 then f32_frac x else (2 ^ 23 + f32_frac x) * 2 ^ (f32_exp x - 1))"

section \<open>Rounding to seven digits\<close>

text \<open>
  The decimal exponent, counted from \<open>-45\<close>: the first \<open>j\<close> with \<open>n / 2 ^ 149 < 10 ^ (j + 1 - 45)\<close>.
\<close>

definition dec_pos :: "nat \<Rightarrow> nat" where
  "dec_pos n = (case find (\<lambda>j. n * 10 ^ 45 < 2 ^ 149 * 10 ^ (j + 1)) [0..<84] of Some j \<Rightarrow> j | None \<Rightarrow> 83)"

definition round_half_even :: "nat \<Rightarrow> nat \<Rightarrow> nat" where
  "round_half_even a b =
     (let q = a div b; r = a mod b in if 2 * r > b \<or> (2 * r = b \<and> odd q) then q + 1 else q)"

definition round_e :: "nat \<Rightarrow> nat \<times> nat" where
  "round_e n =
     (let j = dec_pos n; q = round_half_even (n * 10 ^ 51) (2 ^ 149 * 10 ^ j)
      in if q = 10 ^ 7 then (10 ^ 6, j + 1) else (q, j))"

section \<open>The text\<close>

definition digit :: "nat \<Rightarrow> byte" where
  "digit d = of_nat (48 + d)"

fun digits :: "nat \<Rightarrow> nat \<Rightarrow> byte list" where
  "digits 0 q = []"
| "digits (Suc k) q = digits k (q div 10) @ [digit (q mod 10)]"

definition ascii :: "string \<Rightarrow> byte list" where
  "ascii s = map (\<lambda>c. of_nat (of_char c)) s"

definition exp_text :: "nat \<Rightarrow> byte list" where
  "exp_text j = (if 45 \<le> j then ascii ''+'' @ digits 2 (j - 45) else ascii ''-'' @ digits 2 (45 - j))"

definition mant_text :: "nat \<Rightarrow> byte list" where
  "mant_text m = [digit (m div 10 ^ 6)] @ ascii ''.'' @ digits 6 (m mod 10 ^ 6) @ ascii ''e''"

definition fmt_e :: "f32 \<Rightarrow> byte list" where
  "fmt_e x =
     (if \<not> f32_finite x then
        (if f32_frac x \<noteq> 0 then ascii ''nan''
         else (if f32_neg x then ascii ''-inf'' else ascii ''inf''))
      else (if f32_neg x then ascii ''-'' else []) @
           (if f32_scaled x = 0 then mant_text 0 @ exp_text 45
            else case round_e (f32_scaled x) of (m, j) \<Rightarrow> mant_text m @ exp_text j))"

section \<open>Length and content of the text\<close>

lemma length_digits [simp]: "length (digits k q) = k"
  by (induction k arbitrary: q) auto

lemma length_ascii [simp]: "length (ascii s) = length s"
  by (simp add: ascii_def)

lemma length_fmt_e: "length (fmt_e x) \<le> 13"
  by (auto simp: fmt_e_def mant_text_def exp_text_def split: prod.splits)

lemma digit_nonzero: "d < 10 \<Longrightarrow> digit d \<noteq> 0"
proof
  assume d: "d < 10" and z: "digit d = 0"
  have "unat (digit d) = 48 + d"
    by (simp only: digit_def unat_of_nat) (use d in simp)
  with z show False by simp
qed

lemma digits_nonzero: "0 \<notin> set (digits k q)"
  by (induction k arbitrary: q) (use digit_nonzero in \<open>force+\<close>)

lemma ascii_const_nonzero [simp]:
  "0 \<notin> set (ascii ''+'')" "0 \<notin> set (ascii ''-'')" "0 \<notin> set (ascii ''.'')" "0 \<notin> set (ascii ''e'')"
  "0 \<notin> set (ascii ''nan'')" "0 \<notin> set (ascii ''inf'')" "0 \<notin> set (ascii ''-inf'')"
  by (simp_all add: ascii_def)

section \<open>Accuracy of the rounding\<close>

lemma round_half_even_bound:
  assumes "0 < b"
  shows "2 * \<bar>int (round_half_even a b * b) - int a\<bar> \<le> int b"
proof -
  define q r where qr: "q = a div b" "r = a mod b"
  then have a: "a = q * b + r" and r: "r < b"
    using assms by (simp_all add: div_mod_decomp)
  show ?thesis
  proof (cases "2 * r > b \<or> (2 * r = b \<and> odd q)")
    case True
    then have "round_half_even a b * b = q * b + b" "b \<le> 2 * r"
      by (auto simp: round_half_even_def qr Let_def)
    with a r show ?thesis by simp
  next
    case False
    then have "round_half_even a b * b = q * b" and le: "2 * r \<le> b"
      by (auto simp: round_half_even_def qr Let_def)
    then have "int (round_half_even a b * b) = int (q * b)" by presburger
    moreover have "int a = int (q * b) + int r" using a by presburger
    ultimately have "int (round_half_even a b * b) - int a = - int r" by simp
    then show ?thesis using le by simp
  qed
qed

lemma find_upt_first:
  "find P [0..<n] = Some j \<Longrightarrow> j < n \<and> P j \<and> (\<forall>i<j. \<not> P i)"
  by (auto simp: find_Some_iff)

lemma f32_scaled_bound: "f32_finite x \<Longrightarrow> f32_scaled x < 2 ^ 277"
proof -
  assume fin: "f32_finite x"
  have fr: "f32_frac x < 2 ^ 23" by (simp add: f32_frac_def)
  have ex: "f32_exp x < 256" by (simp add: f32_exp_def)
  show ?thesis
  proof (cases "f32_exp x = 0")
    case True
    then have "f32_scaled x = f32_frac x" by (simp add: f32_scaled_def)
    also have "\<dots> < 2 ^ 23" by (rule fr)
    also have "(2::nat) ^ 23 < 2 ^ 277" by simp
    finally show ?thesis .
  next
    case False
    with fin ex have "f32_exp x - 1 \<le> 253" by (simp add: f32_finite_def)
    then have "(2::nat) ^ (f32_exp x - 1) \<le> 2 ^ 253" by (rule power_increasing) simp
    moreover have "2 ^ 23 + f32_frac x < 2 ^ 24" using fr by simp
    ultimately have "(2 ^ 23 + f32_frac x) * 2 ^ (f32_exp x - 1) < 2 ^ 24 * 2 ^ 253"
      by (intro mult_less_le_imp_less) auto
    with False show ?thesis by (simp add: f32_scaled_def)
  qed
qed

lemma dec_pos_spec:
  assumes "0 < n" and "n < 2 ^ 277"
  shows "dec_pos n < 84" and "n * 10 ^ 45 < 2 ^ 149 * 10 ^ (dec_pos n + 1)"
    and "2 ^ 149 * 10 ^ dec_pos n \<le> n * 10 ^ 45"
proof -
  let ?P = "\<lambda>j. n * 10 ^ 45 < 2 ^ 149 * 10 ^ (j + 1)"
  have "n * 10 ^ 45 < 2 ^ 277 * 10 ^ 45"
    using assms(2) by simp
  also have "(2::nat) ^ 277 * 10 ^ 45 \<le> 2 ^ 149 * 10 ^ (83 + 1)" by simp
  finally have "?P 83" .
  then have "\<exists>j. j \<in> set [0..<84] \<and> ?P j"
    by (intro exI [of _ 83] conjI) simp_all
  then have "find ?P [0..<84] \<noteq> None"
    using find_None_iff [of ?P "[0..<84]"] by blast
  then obtain j where j: "find ?P [0..<84] = Some j" by blast
  then have d: "dec_pos n = j" by (simp add: dec_pos_def)
  have first: "j < 84" "?P j" "\<And>i. i < j \<Longrightarrow> \<not> ?P i"
    using find_upt_first [OF j] by blast+
  show "dec_pos n < 84" "n * 10 ^ 45 < 2 ^ 149 * 10 ^ (dec_pos n + 1)"
    using first d by simp_all
  show "2 ^ 149 * 10 ^ dec_pos n \<le> n * 10 ^ 45"
  proof (cases j)
    case 0
    have "(2::nat) ^ 149 \<le> 1 * 10 ^ 45" by simp
    also have "\<dots> \<le> n * 10 ^ 45" using assms(1) by (intro mult_right_mono) auto
    finally show ?thesis using 0 d by simp
  next
    case (Suc i)
    then show ?thesis using first(3) [of i] d by simp
  qed
qed

text \<open>Seven significant digits, within half a unit of the last one.\<close>

lemma round_e_spec:
  assumes "0 < n" and "n < 2 ^ 277" and "round_e n = (m, j)"
  shows "10 ^ 6 \<le> m" and "m < 10 ^ 7" and "j \<le> 84"
    and "2 * \<bar>int m * (2 ^ 149 * 10 ^ j) - int n * 10 ^ 51\<bar> \<le> 2 ^ 149 * 10 ^ j"
proof -
  define d where "d = dec_pos n"
  define b :: nat where "b = 2 ^ 149 * 10 ^ d"
  define q where "q = round_half_even (n * 10 ^ 51) b"
  have b0: "0 < b" by (simp add: b_def)
  have lo: "b * 10 ^ 6 \<le> n * 10 ^ 51" and hi: "n * 10 ^ 51 < b * 10 ^ 7"
    using dec_pos_spec [OF assms(1,2)] by (simp_all add: b_def d_def)
  have acc: "2 * \<bar>int (q * b) - int (n * 10 ^ 51)\<bar> \<le> int b"
    unfolding q_def by (rule round_half_even_bound [OF b0])
  have q_lo: "10 ^ 6 \<le> q"
  proof -
    have "10 ^ 6 \<le> n * 10 ^ 51 div b"
      using lo b0 by (simp add: less_eq_div_iff_mult_less_eq mult.commute)
    then show ?thesis by (simp add: q_def round_half_even_def Let_def)
  qed
  have q_hi: "q \<le> 10 ^ 7"
  proof -
    have "n * 10 ^ 51 div b < 10 ^ 7"
      using hi b0 by (simp add: div_less_iff_less_mult mult.commute)
    then show ?thesis by (simp add: q_def round_half_even_def Let_def)
  qed
  have d84: "d < 84" unfolding d_def by (rule dec_pos_spec [OF assms(1,2)])
  have rd: "(m, j) = (if q = 10 ^ 7 then (10 ^ 6, d + 1) else (q, d))"
    using assms(3) [symmetric] by (simp only: round_e_def Let_def q_def b_def d_def)
  show "10 ^ 6 \<le> m" "m < 10 ^ 7" "j \<le> 84"
    using rd q_lo q_hi d84 by (auto split: if_splits)
  have same: "int m * (2 ^ 149 * 10 ^ j) = int (q * b)"
    using rd by (auto simp: b_def split: if_splits)
  have le: "int b \<le> 2 ^ 149 * 10 ^ j"
    using rd by (auto simp: b_def split: if_splits)
  show "2 * \<bar>int m * (2 ^ 149 * 10 ^ j) - int n * 10 ^ 51\<bar> \<le> 2 ^ 149 * 10 ^ j"
    using acc le unfolding same by simp
qed

section \<open>Reading the text back\<close>

text \<open>
  \<open>parse_e\<close> reads a text of this form: the sign, the seven digits as one number \<open>m\<close> and the
  exponent \<open>X\<close>, for the value \<open>m * 10 ^ (X - 6)\<close>.
\<close>

definition undigit :: "byte \<Rightarrow> nat" where
  "undigit b = unat b - 48"

definition undigits :: "byte list \<Rightarrow> nat" where
  "undigits bs = foldl (\<lambda>a b. a * 10 + undigit b) 0 bs"

definition parse_e :: "byte list \<Rightarrow> bool \<times> nat \<times> int" where
  "parse_e t =
     (let neg = (hd t = 45); u = (if neg then tl t else t);
          m = undigits ([u ! 0] @ take 6 (drop 2 u)); e = int (undigits (drop 10 u))
      in (neg, m, if u ! 9 = 45 then - e else e))"

definition text_value :: "bool \<times> nat \<times> int \<Rightarrow> rat" where
  "text_value r = (case r of (neg, m, e) \<Rightarrow> (if neg then - 1 else 1) * of_nat m * 10 powi (e - 6))"

definition f32_value :: "f32 \<Rightarrow> rat" where
  "f32_value x = (if f32_neg x then - 1 else 1) * of_nat (f32_scaled x) / 2 ^ 149"

lemma undigit_digit: "d < 10 \<Longrightarrow> undigit (digit d) = d"
  by (simp only: undigit_def digit_def unat_of_nat) simp

lemma undigits_snoc: "undigits (bs @ [b]) = undigits bs * 10 + undigit b"
  by (simp add: undigits_def)

lemma undigits_digits: "q < 10 ^ k \<Longrightarrow> undigits (digits k q) = q"
proof (induction k arbitrary: q)
  case 0
  then show ?case by (simp add: undigits_def)
next
  case (Suc k)
  then have "q div 10 < 10 ^ k" by (simp add: div_less_iff_less_mult mult.commute)
  with Suc show ?case by (simp add: undigits_snoc undigit_digit)
qed

lemma digits_Cons: "digits (Suc k) q = digit (q div 10 ^ k mod 10) # digits k q"
  by (induction k arbitrary: q) (simp_all add: div_mult2_eq)

lemma digits_mod: "digits k (q mod 10 ^ k) = digits k q"
proof (induction k arbitrary: q)
  case 0
  then show ?case by simp
next
  case (Suc k)
  have "q mod 10 ^ Suc k div 10 = q div 10 mod 10 ^ k"
    by (simp add: mod_mult2_eq)
  moreover have "q mod 10 ^ Suc k mod 10 = q mod 10"
    by (simp add: mod_mult2_eq)
  ultimately show ?case using Suc [of "q div 10"] by simp
qed

lemma mant_text_digits:
  assumes "m < 10 ^ 7"
  shows "mant_text m = [digit (m div 10 ^ 6)] @ [46] @ digits 6 m @ [101]"
    and "digit (m div 10 ^ 6) # digits 6 m = digits (Suc 6) m"
proof -
  have "m div 10 ^ 6 < 10" using assms by (simp add: div_less_iff_less_mult)
  then have "m div 10 ^ 6 mod 10 = m div 10 ^ 6" by (rule mod_less)
  then show "digit (m div 10 ^ 6) # digits 6 m = digits (Suc 6) m"
    by (simp only: digits_Cons)
  have "digits 6 (m mod 10 ^ 6) = digits 6 m" by (rule digits_mod)
  moreover have "ascii ''.'' = [46]" "ascii ''e'' = [101]" by (simp_all add: ascii_def)
  ultimately show "mant_text m = [digit (m div 10 ^ 6)] @ [46] @ digits 6 m @ [101]"
    by (simp only: mant_text_def)
qed

lemma length_6_split: "length xs = 6 \<Longrightarrow> \<exists>a b c d e f. xs = [a, b, c, d, e, f]"
  by (auto simp: numeral_eq_Suc length_Suc_conv)

lemma digit_neq_minus: "d < 10 \<Longrightarrow> digit d \<noteq> 45"
proof
  assume d: "d < 10" and z: "digit d = 45"
  have "unat (digit d) = 48 + d"
    by (simp only: digit_def unat_of_nat) (use d in simp)
  with z show False by simp
qed

lemma exp_text_read:
  assumes "j \<le> 84"
  shows "(if hd (exp_text j) = 45 then - int (undigits (tl (exp_text j))) else int (undigits (tl (exp_text j))))
    = int j - 45"
proof -
  have a: "ascii ''+'' = [43]" "ascii ''-'' = [45]" by (simp_all add: ascii_def)
  have "j - 45 < 10 ^ 2" "45 - j < 10 ^ 2" using assms by simp_all
  then show ?thesis
    by (auto simp: exp_text_def a undigits_digits)
qed

text \<open>The text of an unsigned value, split where the reader splits it.\<close>

lemma parse_unsigned:
  assumes "m < 10 ^ 7" and "j \<le> 84" and "t = mant_text m @ exp_text j"
  shows "parse_e (if neg then 45 # t else t) = (neg, m, int j - 45)"
proof -
  note mt = mant_text_digits [OF assms(1)]
  obtain d1 d2 d3 d4 d5 d6 where d: "digits 6 m = [d1, d2, d3, d4, d5, d6]"
    using length_6_split [OF length_digits [of 6 m]] by blast
  let ?d0 = "digit (m div 10 ^ 6)"
  have t: "t = [?d0, 46, d1, d2, d3, d4, d5, d6, 101] @ exp_text j"
    using assms(3) by (simp only: mt(1) d) simp
  obtain s es where es: "exp_text j = s # es"
    by (cases "exp_text j") (auto simp: exp_text_def ascii_def split: if_splits)
  then have e: "t ! 9 = hd (exp_text j)" "drop 10 t = tl (exp_text j)"
    by (simp_all add: t)
  have m0: "m div 10 ^ 6 < 10" using assms(1) by (simp add: div_less_iff_less_mult)
  have ht: "hd t \<noteq> 45"
    using digit_neq_minus [OF m0] by (simp only: t append_Cons list.sel not_False_eq_True)
  have md: "[t ! 0] @ take 6 (drop 2 t) = digits (Suc 6) m"
    unfolding mt(2) [symmetric] d by (simp only: t) simp
  have "m < 10 ^ Suc 6" using assms(1) by simp
  then have un: "undigits (digits (Suc 6) m) = m" by (rule undigits_digits)
  have ts: "tl (45 # t) = t" "hd (45 # t) = 45" by simp_all
  show ?thesis
    unfolding parse_e_def Let_def
    by (cases neg) (simp_all only: if_True if_False ts ht md un e exp_text_read [OF assms(2)] simp_thms)
qed

lemma pow10_shift: "(10::rat) powi (int j - 51) = 10 ^ j / 10 ^ 51"
proof -
  have "(10::rat) powi (int j - 51) = 10 powi (int j - int 51)" by simp
  also have "\<dots> = 10 powi int j / 10 powi int 51" by (rule power_int_diff) simp
  finally show ?thesis by (simp only: power_int_of_nat)
qed

text \<open>
  The text of a finite value reads back to within half a unit of its seventh digit, with its sign.
\<close>

lemma fmt_e_accuracy:
  assumes "f32_finite x" and "0 < f32_scaled x" and "parse_e (fmt_e x) = (neg, m, e)"
  shows "neg = f32_neg x" and "10 ^ 6 \<le> m" and "m < 10 ^ 7"
    and "\<bar>text_value (neg, m, e) - f32_value x\<bar> \<le> 10 powi (e - 6) / 2"
proof -
  let ?n = "f32_scaled x"
  obtain m' j where r: "round_e ?n = (m', j)" by force
  note sp = round_e_spec [OF assms(2) f32_scaled_bound [OF assms(1)] r]
  have "ascii ''-'' = [45]" by (simp add: ascii_def)
  then have "fmt_e x = (if f32_neg x then 45 # (mant_text m' @ exp_text j) else mant_text m' @ exp_text j)"
    using assms(1,2) r by (simp add: fmt_e_def)
  with assms(3) parse_unsigned [OF sp(2,3) refl] have eq: "neg = f32_neg x" "m = m'" "e = int j - 45"
    by simp_all
  then show "neg = f32_neg x" "10 ^ 6 \<le> m" "m < 10 ^ 7"
    using sp by simp_all
  define A B :: rat where AB: "A = of_nat m * (2 ^ 149 * 10 ^ j)" "B = of_nat ?n * 10 ^ 51"
  have "(of_int (2 * \<bar>int m' * (2 ^ 149 * 10 ^ j) - int ?n * 10 ^ 51\<bar>) :: rat) \<le> of_int (2 ^ 149 * 10 ^ j)"
    using sp(4) by (simp only: of_int_le_iff)
  then have "2 * \<bar>A - B\<bar> \<le> 2 ^ 149 * 10 ^ j"
    using eq(2) by (simp only: of_int_mult of_int_numeral of_int_abs of_int_diff of_int_of_nat_eq of_int_power AB)
  then have "\<bar>A - B\<bar> / (2 ^ 149 * 10 ^ 51) \<le> (2 ^ 149 * 10 ^ j / 2) / (2 ^ 149 * 10 ^ 51)"
    by (intro divide_right_mono) simp_all
  also have "(2 ^ 149 * 10 ^ j / 2) / (2 ^ 149 * 10 ^ 51) = (10 ^ j / 10 ^ 51) / (2::rat)"
    by (simp only: mult_divide_mult_cancel_left_if divide_divide_eq_left mult.commute) simp
  also have "\<bar>A - B\<bar> / (2 ^ 149 * 10 ^ 51) = \<bar>A / (2 ^ 149 * 10 ^ 51) - B / (2 ^ 149 * 10 ^ 51)\<bar>"
    by (simp add: diff_divide_distrib [symmetric] abs_divide)
  finally have d: "\<bar>A / (2 ^ 149 * 10 ^ 51) - B / (2 ^ 149 * 10 ^ 51)\<bar> \<le> (10 ^ j / 10 ^ 51) / 2" .
  have "A / (2 ^ 149 * 10 ^ 51) = of_nat m * (10 ^ j / 10 ^ 51)" and "B / (2 ^ 149 * 10 ^ 51) = of_nat ?n / 2 ^ 149"
    by (simp_all add: AB)
  with d have "\<bar>of_nat m * (10 ^ j / 10 ^ 51) - of_nat ?n / 2 ^ 149\<bar> \<le> (10 ^ j / 10 ^ 51) / (2::rat)"
    by simp
  moreover have "\<bar>text_value (neg, m, e) - f32_value x\<bar> = \<bar>of_nat m * (10 ^ j / 10 ^ 51) - of_nat ?n / 2 ^ 149\<bar>"
    by (cases "f32_neg x") (simp_all add: text_value_def f32_value_def eq pow10_shift abs_minus_commute)
  ultimately show "\<bar>text_value (neg, m, e) - f32_value x\<bar> \<le> 10 powi (e - 6) / 2"
    using eq(3) pow10_shift [of j] by simp
qed

lemma fmt_e_nonzero: "0 \<notin> set (fmt_e x)"
proof -
  have m: "0 \<notin> set (mant_text m)" if "m < 10 ^ 7" for m
    using that digit_nonzero [of "m div 10 ^ 6"] digits_nonzero
    by (auto simp: mant_text_def div_less_iff_less_mult)
  have e: "0 \<notin> set (exp_text j)" for j
    using digits_nonzero by (auto simp: exp_text_def)
  have r: "m < 10 ^ 7" if "f32_finite x" "f32_scaled x \<noteq> 0" "round_e (f32_scaled x) = (m, j)" for m j
    using round_e_spec(2) [OF _ f32_scaled_bound [OF that(1)] that(3)] that(2) by blast
  show ?thesis
  proof (cases "f32_finite x \<and> f32_scaled x \<noteq> 0")
    case True
    obtain m' j where "round_e (f32_scaled x) = (m', j)" by force
    with True r m e show ?thesis by (auto simp: fmt_e_def)
  next
    case False
    with m [of 0] e show ?thesis by (auto simp: fmt_e_def)
  qed
qed

end
