(* ===== verification/Payload.thy ===== *)
theory Payload
  imports FormatE
begin

text \<open>
  \<open>ze_coap_payload.h\<close> and \<open>encode\<close> of \<open>ze_streaming_manager.c\<close>: the bytes of a data packet. The
  encoder is the C one, writes into a zeroed block at computed offsets, each of which is undefined
  past the end of the block; \<open>data_layout\<close> is the layout the header file describes and
  \<open>decode_payload\<close> a reader for it.
\<close>

section \<open>Constants and sizes\<close>

definition CHARLEN :: nat where "CHARLEN = 20"
definition DATAPOINT :: int where "DATAPOINT = 1"
definition SENDREPORT :: int where "SENDREPORT = 2"
definition RECREPORT :: int where "RECREPORT = 3"
definition DATAPOINT_RETRANSMITTED :: int where "DATAPOINT_RETRANSMITTED = 4"

text \<open>
  The sizes of \<open>ze_payload_header_t\<close> (two bytes and a \<open>short\<close>), of an \<open>int\<close>, and of the sensor
  vectors (three or one character arrays of \<open>CHARLEN\<close>).
\<close>

definition HEADER_SIZE :: nat where "HEADER_SIZE = 4"
definition INT_SIZE :: nat where "INT_SIZE = 4"
definition vector_size :: "nat \<Rightarrow> nat" where "vector_size nf = nf * CHARLEN"

lemmas payload_sizes = CHARLEN_def HEADER_SIZE_def INT_SIZE_def vector_size_def

section \<open>The encoder\<close>

definition read_at :: "'a list \<Rightarrow> nat \<Rightarrow> 'a outcome" where
  "read_at xs k = (if k < length xs then Inr (xs ! k) else Inl OutOfBounds)"

text \<open>\<open>sprintf(p+offset, "%e", v); offset += CHARLEN\<close> for each value \<open>v\<close> of a sample.\<close>

fun write_values :: "f32 list \<Rightarrow> byte list \<Rightarrow> nat \<Rightarrow> (byte list \<times> nat) outcome" where
  "write_values [] p offset = Inr (p, offset)"
| "write_values (v # vs) p offset =
     bindR (poke offset (fmt_e v @ [0]) p) (\<lambda>p. write_values vs p (offset + CHARLEN))"

text \<open>The loop over the samples \<open>ks\<close> of the bundle.\<close>

fun write_samples :: "(sensor_event \<Rightarrow> f32 list) \<Rightarrow> sensor_event list \<Rightarrow> int list \<Rightarrow> nat list
    \<Rightarrow> byte list \<Rightarrow> nat \<Rightarrow> byte list outcome" where
  "write_samples vals event rtpts [] p offset = Inr p"
| "write_samples vals event rtpts (k # ks) p offset =
     bindR (read_at rtpts k) (\<lambda>ts.
     bindR (poke offset (be_bytes INT_SIZE ts) p) (\<lambda>p.
     bindR (read_at event k) (\<lambda>ev.
     bindR (write_values (vals ev) p (offset + INT_SIZE)) (\<lambda>(p, offset).
     write_samples vals event rtpts ks p offset))))"

text \<open>
  One branch of \<open>encode\<close>: \<open>ok\<close> is the branch's own \<open>malloc\<close>, \<open>nf\<close> the number of values of a
  sample and \<open>vals\<close> those values.
\<close>

definition encode_branch :: "bool \<Rightarrow> nat \<Rightarrow> (sensor_event \<Rightarrow> f32 list) \<Rightarrow> sm_packet
    \<Rightarrow> sensor_event list \<Rightarrow> int list \<Rightarrow> nat \<Rightarrow> sm_packet option outcome" where
  "encode_branch ok nf vals c event rtpts num =
     (let totlength = HEADER_SIZE + num * (INT_SIZE + vector_size nf) in
      if \<not> ok then Inr None
      else bindR (read_at event 0) (\<lambda>ev0.
           bindR (poke 0 ([word_of_int DATAPOINT, word_of_int (ev_type ev0)] @ be_bytes 2 (int totlength))
                    (replicate totlength 0)) (\<lambda>p.
           bindR (write_samples vals event rtpts [0..<num] p HEADER_SIZE) (\<lambda>p.
           Inr (Some (c\<lparr>pk_data := Some p, pk_length := int totlength\<rparr>))))))"

definition accel_vals :: "sensor_event \<Rightarrow> f32 list" where
  "accel_vals ev = (case ev_acceleration ev of (x, y, z) \<Rightarrow> [x, y, z])"

definition prox_vals :: "sensor_event \<Rightarrow> f32 list" where
  "prox_vals ev = [ev_distance ev]"

definition light_vals :: "sensor_event \<Rightarrow> f32 list" where
  "light_vals ev = [ev_light ev]"

text \<open>\<open>azimuth\<close>, \<open>pitch\<close> and \<open>roll\<close> are the components of \<open>vector\<close>.\<close>

definition orient_vals :: "sensor_event \<Rightarrow> f32 list" where
  "orient_vals ev = (case ev_vector ev of (azimuth, pitch, roll) \<Rightarrow> [azimuth, pitch, roll])"

definition gyro_vals :: "sensor_event \<Rightarrow> f32 list" where
  "gyro_vals ev = (case ev_vector ev of (x, y, z) \<Rightarrow> [x, y, z])"

definition encode_accel :: "bool \<Rightarrow> sm_packet \<Rightarrow> sensor_event list \<Rightarrow> int list \<Rightarrow> nat \<Rightarrow> sm_packet option outcome" where
  "encode_accel ok = encode_branch ok 3 accel_vals"

definition encode_prox :: "bool \<Rightarrow> sm_packet \<Rightarrow> sensor_event list \<Rightarrow> int list \<Rightarrow> nat \<Rightarrow> sm_packet option outcome" where
  "encode_prox ok = encode_branch ok 1 prox_vals"

definition encode_light :: "bool \<Rightarrow> sm_packet \<Rightarrow> sensor_event list \<Rightarrow> int list \<Rightarrow> nat \<Rightarrow> sm_packet option outcome" where
  "encode_light ok = encode_branch ok 1 light_vals"

definition encode_orient :: "bool \<Rightarrow> sm_packet \<Rightarrow> sensor_event list \<Rightarrow> int list \<Rightarrow> nat \<Rightarrow> sm_packet option outcome" where
  "encode_orient ok = encode_branch ok 3 orient_vals"

definition encode_gyro :: "bool \<Rightarrow> sm_packet \<Rightarrow> sensor_event list \<Rightarrow> int list \<Rightarrow> nat \<Rightarrow> sm_packet option outcome" where
  "encode_gyro ok = encode_branch ok 3 gyro_vals"

text \<open>
  \<open>encode\<close>: \<open>ok1\<close> and \<open>ok2\<close> are its two allocations; \<open>Inr None\<close> is the \<open>NULL\<close> it returns when
  one fails. The branches are tested one after the other, but the type of the first event never changes,
  so at most one is taken; for other types the packet goes out with no data.
\<close>

definition encode :: "bool \<Rightarrow> bool \<Rightarrow> sensor_event list \<Rightarrow> int list \<Rightarrow> nat \<Rightarrow> sm_packet option outcome" where
  "encode ok1 ok2 event rtpts num =
     (if \<not> ok1 then Inr None
      else bindR (read_at rtpts 0) (\<lambda>ts0.
           bindR (read_at event 0) (\<lambda>ev0.
           let c = \<lparr>pk_ntpts = ev_timestamp ev0, pk_rtpts = ts0, pk_conf = COAP_MESSAGE_NON,
                    pk_data = None, pk_length = 0\<rparr> in
           if ev_type ev0 = ASENSOR_TYPE_ACCELEROMETER then encode_accel ok2 c event rtpts num
           else if ev_type ev0 = ASENSOR_TYPE_PROXIMITY then encode_prox ok2 c event rtpts num
           else if ev_type ev0 = ASENSOR_TYPE_LIGHT then encode_light ok2 c event rtpts num
           else if ev_type ev0 = ZESENSE_SENSOR_TYPE_ORIENTATION then encode_orient ok2 c event rtpts num
           else if ev_type ev0 = ASENSOR_TYPE_GYROSCOPE then encode_gyro ok2 c event rtpts num
           else Inr (Some c))))"

section \<open>The layout\<close>

text \<open>The text of a value, padded with zero bytes to its array of 20 characters.\<close>

definition value_field :: "f32 \<Rightarrow> byte list" where
  "value_field v = fmt_e v @ replicate (CHARLEN - length (fmt_e v)) 0"

definition sample_field :: "(sensor_event \<Rightarrow> f32 list) \<Rightarrow> sensor_event \<Rightarrow> int \<Rightarrow> byte list" where
  "sample_field vals ev ts = be_bytes 4 ts @ concat (map value_field (vals ev))"

definition data_layout :: "(sensor_event \<Rightarrow> f32 list) \<Rightarrow> nat \<Rightarrow> sensor_event list \<Rightarrow> int list \<Rightarrow> nat \<Rightarrow> byte list" where
  "data_layout vals nf event rtpts num =
     [1, word_of_int (ev_type (event ! 0))] @ be_bytes 2 (int (4 + num * (4 + nf * 20)))
     @ concat (map (\<lambda>k. sample_field vals (event ! k) (rtpts ! k)) [0..<num])"

text \<open>Which values a packet of each sensor type carries.\<close>

definition sensor_vals :: "int \<Rightarrow> (nat \<times> (sensor_event \<Rightarrow> f32 list)) option" where
  "sensor_vals t =
     (if t = ASENSOR_TYPE_ACCELEROMETER then Some (3, accel_vals)
      else if t = ASENSOR_TYPE_PROXIMITY then Some (1, prox_vals)
      else if t = ASENSOR_TYPE_LIGHT then Some (1, light_vals)
      else if t = ZESENSE_SENSOR_TYPE_ORIENTATION then Some (3, orient_vals)
      else if t = ASENSOR_TYPE_GYROSCOPE then Some (3, gyro_vals)
      else None)"

lemma length_value_field [simp]: "length (value_field v) = 20"
  using length_fmt_e [of v] by (simp add: value_field_def CHARLEN_def)

lemma length_concat_value_fields [simp]: "length (concat (map value_field vs)) = 20 * length vs"
  by (induction vs) auto

lemma length_sample_field: "length (sample_field vals ev ts) = 4 + 20 * length (vals ev)"
  by (simp add: sample_field_def)

lemma sensor_vals_length: "sensor_vals t = Some (nf, vals) \<Longrightarrow> length (vals ev) = nf"
  by (auto simp: sensor_vals_def accel_vals_def prox_vals_def light_vals_def orient_vals_def gyro_vals_def
      split: if_splits prod.splits)

lemma poke_zeros:
  assumes "length pre = off" and "length bs \<le> z"
  shows "poke off bs (pre @ replicate z 0) = Inr (pre @ bs @ replicate (z - length bs) 0)"
  using assms poke_append [of pre off bs "replicate z 0"] by simp

lemma poke_value:
  assumes "length pre = off" and "20 \<le> z"
  shows "poke off (fmt_e v @ [0]) (pre @ replicate z 0) = Inr (pre @ value_field v @ replicate (z - 20) 0)"
proof -
  have len: "length (fmt_e v) \<le> 13" by (rule length_fmt_e)
  have "poke off (fmt_e v @ [0]) (pre @ replicate z 0)
      = Inr (pre @ (fmt_e v @ [0]) @ replicate (z - length (fmt_e v @ [0])) 0)"
    using assms len by (intro poke_zeros) auto
  moreover have "Suc (z - length (fmt_e v @ [0])) = (20 - length (fmt_e v)) + (z - 20)"
    using assms(2) len by simp
  then have "[0] @ replicate (z - length (fmt_e v @ [0])) 0
      = replicate (20 - length (fmt_e v)) 0 @ replicate (z - 20) (0 :: byte)"
    by (metis append_Cons append_Nil replicate_Suc replicate_add)
  ultimately show ?thesis
    by (simp only: value_field_def CHARLEN_def append_assoc)
qed

lemma write_values_layout:
  assumes "length pre = off" and "20 * length vs \<le> z"
  shows "write_values vs (pre @ replicate z 0) off
    = Inr (pre @ concat (map value_field vs) @ replicate (z - 20 * length vs) 0, off + 20 * length vs)"
  using assms
proof (induction vs arbitrary: pre off z)
  case Nil
  then show ?case by simp
next
  case (Cons v vs)
  then have "20 \<le> z" by simp
  with Cons.prems(1) have "poke off (fmt_e v @ [0]) (pre @ replicate z 0)
      = Inr ((pre @ value_field v) @ replicate (z - 20) 0)"
    by (simp add: poke_value)
  moreover have "write_values vs ((pre @ value_field v) @ replicate (z - 20) 0) (off + 20)
      = Inr ((pre @ value_field v) @ concat (map value_field vs) @ replicate (z - 20 - 20 * length vs) 0,
             off + 20 + 20 * length vs)"
    using Cons.prems by (intro Cons.IH) auto
  ultimately show ?case
    by (simp add: CHARLEN_def)
qed

lemma write_samples_layout:
  assumes "length pre = off" and "\<And>ev. length (vals ev) = nf"
    and "\<forall>k\<in>set ks. k < length event \<and> k < length rtpts"
    and "z = length ks * (4 + nf * 20)"
  shows "write_samples vals event rtpts ks (pre @ replicate z 0) off
    = Inr (pre @ concat (map (\<lambda>k. sample_field vals (event ! k) (rtpts ! k)) ks))"
  using assms(1,3,4)
proof (induction ks arbitrary: pre off z)
  case Nil
  then show ?case by simp
next
  case (Cons k ks)
  let ?ts = "be_bytes 4 (rtpts ! k)" and ?vs = "vals (event ! k)"
  define z' where "z' = length ks * (4 + nf * 20)"
  have z: "z = 4 + (20 * nf + z')"
    using Cons.prems(3) by (simp add: z'_def)
  have "poke off ?ts (pre @ replicate z 0) = Inr ((pre @ ?ts) @ replicate (20 * nf + z') 0)"
    using Cons.prems(1) z by (subst poke_zeros) auto
  moreover have "write_values ?vs ((pre @ ?ts) @ replicate (20 * nf + z') 0) (off + 4)
      = Inr ((pre @ sample_field vals (event ! k) (rtpts ! k)) @ replicate z' 0, off + 4 + 20 * nf)"
    using Cons.prems(1) assms(2) by (subst write_values_layout) (auto simp: sample_field_def)
  moreover have "write_samples vals event rtpts ks
      ((pre @ sample_field vals (event ! k) (rtpts ! k)) @ replicate z' 0) (off + 4 + 20 * nf)
      = Inr ((pre @ sample_field vals (event ! k) (rtpts ! k))
          @ concat (map (\<lambda>k. sample_field vals (event ! k) (rtpts ! k)) ks))"
    using Cons.prems assms(2) z'_def by (intro Cons.IH) (auto simp: length_sample_field)
  ultimately show ?case
    using Cons.prems(2) by (simp add: read_at_def INT_SIZE_def)
qed

lemma encode_branch_layout:
  assumes "\<And>ev. length (vals ev) = nf" and "0 < num" and "num \<le> length event" and "num \<le> length rtpts"
  shows "encode_branch True nf vals c event rtpts num
    = Inr (Some (c\<lparr>pk_data := Some (data_layout vals nf event rtpts num),
                   pk_length := int (4 + num * (4 + nf * 20))\<rparr>))"
proof -
  define z where "z = length [0..<num] * (4 + nf * 20)"
  define hd :: "byte list" where
    "hd = [word_of_int DATAPOINT, word_of_int (ev_type (event ! 0))] @ be_bytes 2 (int (4 + num * (4 + nf * 20)))"
  have hd4: "length hd = 4" by (simp add: hd_def)
  have "poke 0 hd ([] @ replicate (4 + z) 0) = Inr ([] @ hd @ replicate (4 + z - length hd) 0)"
    by (rule poke_zeros) (simp_all add: hd4)
  then have "poke 0 hd (replicate (4 + num * (4 + nf * 20)) 0) = Inr (hd @ replicate z 0)"
    by (simp add: hd4 z_def)
  moreover have "write_samples vals event rtpts [0..<num] (hd @ replicate z 0) 4
      = Inr (hd @ concat (map (\<lambda>k. sample_field vals (event ! k) (rtpts ! k)) [0..<num]))"
    using assms by (intro write_samples_layout) (auto simp: hd4 z_def)
  moreover have "read_at event 0 = Inr (event ! 0)"
    using assms(2,3) by (auto simp: read_at_def)
  ultimately show ?thesis
    by (simp add: encode_branch_def Let_def payload_sizes hd_def data_layout_def DATAPOINT_def)
qed

lemma encode_branch_nomem:
  "encode_branch False nf vals c event rtpts num = Inr None"
  by (simp add: encode_branch_def Let_def)

text \<open>What \<open>encode\<close> returns, on every branch.\<close>

lemma encode_eq:
  assumes "0 < num" and "num \<le> length event" and "num \<le> length rtpts"
  shows "encode ok1 ok2 event rtpts num =
    (let c = \<lparr>pk_ntpts = ev_timestamp (event ! 0), pk_rtpts = rtpts ! 0, pk_conf = COAP_MESSAGE_NON,
              pk_data = None, pk_length = 0\<rparr>
     in case sensor_vals (ev_type (event ! 0)) of
          None \<Rightarrow> Inr (if ok1 then Some c else None)
        | Some (nf, vals) \<Rightarrow>
            Inr (if ok1 \<and> ok2 then Some (c\<lparr>pk_data := Some (data_layout vals nf event rtpts num),
                   pk_length := int (4 + num * (4 + nf * 20))\<rparr>) else None))"
proof -
  have r: "read_at rtpts 0 = Inr (rtpts ! 0)" "read_at event 0 = Inr (event ! 0)"
    using assms by (auto simp: read_at_def)
  have l: "length (accel_vals ev) = 3" "length (prox_vals ev) = 1" "length (light_vals ev) = 1"
    "length (orient_vals ev) = 3" "length (gyro_vals ev) = 3" for ev
    by (simp_all add: accel_vals_def prox_vals_def light_vals_def orient_vals_def gyro_vals_def split: prod.splits)
  note lay = encode_branch_layout [OF l(1) assms] encode_branch_layout [OF l(2) assms]
    encode_branch_layout [OF l(3) assms] encode_branch_layout [OF l(4) assms] encode_branch_layout [OF l(5) assms]
  show ?thesis
    by (cases ok1; cases ok2)
      (simp_all add: encode_def r Let_def sensor_vals_def encode_accel_def encode_prox_def
        encode_light_def encode_orient_def encode_gyro_def lay [unfolded One_nat_def] encode_branch_nomem)
qed

section \<open>Reading a data packet\<close>

text \<open>
  A receiver's view: the packet type, the sensor type, the length field, and for each sample its time
  stamp and the texts of its values, up to the first zero byte of each array.
\<close>

definition field_text :: "byte list \<Rightarrow> byte list" where
  "field_text bs = takeWhile (\<lambda>b. b \<noteq> 0) bs"

fun read_values :: "nat \<Rightarrow> byte list \<Rightarrow> byte list list" where
  "read_values 0 bs = []"
| "read_values (Suc n) bs = field_text (take 20 bs) # read_values n (drop 20 bs)"

fun read_samples :: "nat \<Rightarrow> nat \<Rightarrow> byte list \<Rightarrow> (int \<times> byte list list) list" where
  "read_samples nf 0 bs = []"
| "read_samples nf (Suc n) bs =
     (i32 (be_val (take 4 bs)), read_values nf (drop 4 bs)) # read_samples nf n (drop (4 + nf * 20) bs)"

definition decode_payload :: "nat \<Rightarrow> byte list \<Rightarrow> int \<times> int \<times> int \<times> (int \<times> byte list list) list" where
  "decode_payload nf bs =
     (uint (bs ! 0), uint (bs ! 1), be_val (take 2 (drop 2 bs)),
      read_samples nf ((length bs - 4) div (4 + nf * 20)) (drop 4 bs))"

lemma field_text_value_field [simp]: "field_text (value_field v) = fmt_e v"
proof -
  have "\<forall>b\<in>set (fmt_e v). b \<noteq> 0" using fmt_e_nonzero [of v] by metis
  then show ?thesis
    by (simp add: field_text_def value_field_def takeWhile_append2)
qed

lemma read_values_layout: "read_values (length vs) (concat (map value_field vs) @ rest) = map fmt_e vs"
  by (induction vs) simp_all

lemma i32_be_val: "in_i32 x \<Longrightarrow> i32 (be_val (be_bytes 4 x)) = x"
proof -
  assume x: "in_i32 x"
  have "i32 (x mod 4294967296) = i32 x"
    unfolding i32_def by (simp add: mod_simps)
  then show ?thesis
    using x by (simp add: be_val_be_bytes i32_id)
qed

lemma read_samples_layout:
  assumes "\<And>ev. length (vals ev) = nf" and "\<forall>k\<in>set ks. in_i32 (rtpts ! k)"
  shows "read_samples nf (length ks) (concat (map (\<lambda>k. sample_field vals (event ! k) (rtpts ! k)) ks))
    = map (\<lambda>k. (rtpts ! k, map fmt_e (vals (event ! k)))) ks"
  using assms(2)
proof (induction ks)
  case Nil
  then show ?case by simp
next
  case (Cons k ks)
  have len: "length (concat (map value_field (vals (event ! k)))) = nf * 20"
    using assms(1) by simp
  show ?case
    using Cons read_values_layout [of "vals (event ! k)"] assms(1)
    by (simp add: sample_field_def i32_be_val len)
qed

text \<open>Reading a data packet back.\<close>

lemma decode_layout:
  assumes "sensor_vals (ev_type (event ! 0)) = Some (nf, vals)" and "num \<le> 1000" and "\<forall>k<num. in_i32 (rtpts ! k)"
  shows "length (data_layout vals nf event rtpts num) = 4 + num * (4 + nf * 20)
    \<and> decode_payload nf (data_layout vals nf event rtpts num) = (DATAPOINT, ev_type (event ! 0),
        int (4 + num * (4 + nf * 20)), map (\<lambda>k. (rtpts ! k, map fmt_e (vals (event ! k)))) [0..<num])"
proof -
  let ?bs = "data_layout vals nf event rtpts num"
  let ?body = "concat (map (\<lambda>k. sample_field vals (event ! k) (rtpts ! k)) [0..<num])"
  have vl: "length (vals ev) = nf" for ev
    by (rule sensor_vals_length [OF assms(1)])
  have nf: "nf \<le> 3" and ty: "0 \<le> ev_type (event ! 0)" "ev_type (event ! 0) < 256"
    using assms(1) by (auto simp: sensor_vals_def sensor_codes split: if_splits)
  have body: "length ?body = num * (4 + nf * 20)"
    by (simp add: length_concat comp_def length_sample_field vl sum_list_triv)
  then have len: "length ?bs = 4 + num * (4 + nf * 20)"
    by (simp add: data_layout_def)
  have T: "num * (4 + nf * 20) \<le> 1000 * (4 + 3 * 20)"
    using assms(2) nf by (intro mult_le_mono) auto
  have "length ?bs < 65536"
    unfolding len by (rule le_less_trans [OF add_left_mono [OF T]]) simp
  then have l16: "int (length ?bs) < 65536" by linarith
  have hdr: "?bs ! 0 = 1" "?bs ! Suc 0 = word_of_int (ev_type (event ! 0))"
    "take 2 (drop 2 ?bs) = be_bytes 2 (int (4 + num * (4 + nf * 20)))" "drop 4 ?bs = ?body"
    by (simp_all add: data_layout_def)
  have "(length ?bs - 4) div (4 + nf * 20) = length [0..<num]"
    by (simp add: len)
  then have "decode_payload nf ?bs = (DATAPOINT, ev_type (event ! 0), int (length ?bs),
      map (\<lambda>k. (rtpts ! k, map fmt_e (vals (event ! k)))) [0..<num])"
    using read_samples_layout [of vals nf "[0..<num]" rtpts event] vl assms(3) l16 ty
    by (simp add: decode_payload_def hdr len be_val_be_bytes uint_byte_of_int DATAPOINT_def)
  then show ?thesis by (simp add: len)
qed

section \<open>Properties\<close>

text \<open>
  C8. The encoder produces packets a receiver can read back. For a bundle of samples of one of the five
  streamed sensor types, with both allocations granted, \<open>encode\<close> writes inside its block (no write past the end),
  the packet's length is the number of bytes, and reading the bytes gives the packet type, the sensor type, that
  same length, and for each sample its RTP time stamp and the printed text of each of its values.
\<close>

theorem encode_roundtrip:
  assumes "sensor_vals (ev_type (event ! 0)) = Some (nf, vals)"
    and "0 < num" and "num \<le> length event" and "num \<le> length rtpts" and "num \<le> 1000"
    and "\<forall>k<num. in_i32 (rtpts ! k)"
  shows "\<exists>p bs. encode True True event rtpts num = Inr (Some p) \<and> pk_data p = Some bs
    \<and> pk_length p = int (length bs) \<and> pk_rtpts p = rtpts ! 0 \<and> pk_ntpts p = ev_timestamp (event ! 0)
    \<and> decode_payload nf bs = (DATAPOINT, ev_type (event ! 0), int (length bs),
        map (\<lambda>k. (rtpts ! k, map fmt_e (vals (event ! k)))) [0..<num])"
  using decode_layout [of event nf vals num rtpts] encode_eq [OF assms(2,3,4), of True True] assms(1,5,6)
  by (simp add: Let_def)

definition sample_event :: sensor_event where
  "sample_event = zero_event\<lparr>ev_type := 5, ev_timestamp := 77, ev_light := 0x3f800000\<rparr>"

theorem encode_roundtrip_witness:
  "\<exists>p bs. encode True True [sample_event] [450] 1 = Inr (Some p) \<and> pk_data p = Some bs
     \<and> decode_payload 1 bs = (1, 5, int (length bs), [(450, [fmt_e 0x3f800000])])"
proof -
  have h: "sensor_vals (ev_type ([sample_event] ! 0)) = Some (1, light_vals)"
    by (simp add: sensor_vals_def sample_event_def sensor_codes)
  show ?thesis
    using encode_roundtrip [OF h, of 1 "[450]"]
    by (auto simp: in_i32_def sample_event_def light_vals_def DATAPOINT_def)
qed

lemma take_drop_prefix: "m + n \<le> k \<Longrightarrow> take k q = take k p \<Longrightarrow> take n (drop m q) = take n (drop m p)"
  by (metis take_drop take_take min.absorb1 add.commute)

lemma written_fields:
  "off + CHARLEN * length vs \<le> length p \<Longrightarrow>
    \<exists>q. write_values vs p off = Inr (q, off + CHARLEN * length vs) \<and> length q = length p
      \<and> take off q = take off p \<and> drop (off + CHARLEN * length vs) q = drop (off + CHARLEN * length vs) p
      \<and> (\<forall>i<length vs. take (length (fmt_e (vs ! i)) + 1) (drop (off + CHARLEN * i) q) = fmt_e (vs ! i) @ [0])"
proof (induction vs arbitrary: p off)
  case (Cons v vs)
  let ?t = "fmt_e v @ [0]"
  let ?p = "take off p @ ?t @ drop (off + length ?t) p"
  have len: "length ?t \<le> CHARLEN" using length_fmt_e [of v] by (simp add: CHARLEN_def)
  have room: "off + length ?t \<le> length p" "off \<le> length p" using Cons.prems len by simp_all
  then have p: "poke off ?t p = Inr ?p" "length ?p = length p" by (simp_all add: poke_def)
  have "off + CHARLEN + CHARLEN * length vs \<le> length ?p" using Cons.prems p(2) by (simp only: list.size) simp
  from Cons.IH [OF this] obtain q where
    q: "write_values vs ?p (off + CHARLEN) = Inr (q, off + CHARLEN + CHARLEN * length vs)" "length q = length ?p"
      "take (off + CHARLEN) q = take (off + CHARLEN) ?p"
      "drop (off + CHARLEN + CHARLEN * length vs) q = drop (off + CHARLEN + CHARLEN * length vs) ?p"
      "\<forall>i<length vs. take (length (fmt_e (vs ! i)) + 1) (drop (off + CHARLEN + CHARLEN * i) q) = fmt_e (vs ! i) @ [0]"
    by blast
  have "write_values (v # vs) p off = Inr (q, off + CHARLEN * length (v # vs))"
    using p(1) q(1) by (simp add: add.assoc)
  moreover have "take off q = take off p"
    using take_drop_prefix [of 0 off "off + CHARLEN", OF _ q(3)] room(2) by simp
  moreover have "drop (off + CHARLEN * length (v # vs)) q = drop (off + CHARLEN * length (v # vs)) p"
  proof -
    have e: "off + CHARLEN * length (v # vs) = (off + CHARLEN + CHARLEN * length vs - (off + length ?t)) + (off + length ?t)"
      using len by simp
    have "drop (off + length ?t) ?p = drop (off + length ?t) p" using room(2) by simp
    then have "drop (off + CHARLEN * length (v # vs)) ?p = drop (off + CHARLEN * length (v # vs)) p"
      unfolding e by (metis drop_drop)
    with q(4) show ?thesis by (simp add: add.assoc)
  qed
  moreover have "take (length (fmt_e ((v # vs) ! i)) + 1) (drop (off + CHARLEN * i) q) = fmt_e ((v # vs) ! i) @ [0]"
    if "i < length (v # vs)" for i
  proof (cases i)
    case 0
    have "take (length ?t) (drop off q) = take (length ?t) (drop off ?p)"
      by (rule take_drop_prefix [of off _ "off + CHARLEN", OF _ q(3)]) (use len in simp)
    with 0 room(2) show ?thesis by simp
  next
    case (Suc j)
    with q(5) that show ?thesis by (simp add: add.assoc)
  qed
  ultimately show ?case using q(2) [unfolded p(2)] by blast
qed simp

lemma field_text_append: "\<forall>b\<in>set a. b \<noteq> 0 \<Longrightarrow> field_text (a @ 0 # ys) = a"
  by (simp add: field_text_def takeWhile_append2)

text \<open>
  C30. Every value of a sample is written into its own array of 20 characters, and means what it should: writing the values at some place of
  a block with room for one array each goes through, moves the place by exactly these arrays and leaves the rest of the block as it was. The
  i-th array holds the text \<open>sprintf\<close> makes of the i-th value, at most 13 characters with the terminating zero byte inside the array; and
  read back, the text of a finite non zero value has its sign and lies within half a unit of the seventh significant digit.
\<close>

theorem value_text_fits_and_is_accurate:
  assumes "off + CHARLEN * length vs \<le> length p"
  shows "\<exists>q. write_values vs p off = Inr (q, off + CHARLEN * length vs) \<and> length q = length p
    \<and> take off q = take off p \<and> drop (off + CHARLEN * length vs) q = drop (off + CHARLEN * length vs) p
    \<and> (\<forall>i<length vs. let text = field_text (take CHARLEN (drop (off + CHARLEN * i) q)) in
         text = fmt_e (vs ! i) \<and> length text \<le> 13 \<and> q ! (off + CHARLEN * i + length text) = 0
         \<and> (f32_finite (vs ! i) \<and> f32_scaled (vs ! i) \<noteq> 0 \<longrightarrow>
              (case parse_e text of (neg, m, e) \<Rightarrow>
                 neg = f32_neg (vs ! i) \<and> 10 ^ 6 \<le> m \<and> m < 10 ^ 7
                 \<and> \<bar>text_value (neg, m, e) - f32_value (vs ! i)\<bar> \<le> 10 powi (e - 6) / 2)))"
proof -
  from written_fields [OF assms] obtain q where
    q: "write_values vs p off = Inr (q, off + CHARLEN * length vs)" "length q = length p" "take off q = take off p"
      "drop (off + CHARLEN * length vs) q = drop (off + CHARLEN * length vs) p"
      "\<forall>i<length vs. take (length (fmt_e (vs ! i)) + 1) (drop (off + CHARLEN * i) q) = fmt_e (vs ! i) @ [0]" by blast
  have "field_text (take CHARLEN (drop (off + CHARLEN * i) q)) = fmt_e (vs ! i) \<and> q ! (off + CHARLEN * i + length (fmt_e (vs ! i))) = 0"
    if i: "i < length vs" for i
  proof -
    let ?d = "drop (off + CHARLEN * i) q" and ?n = "length (fmt_e (vs ! i)) + 1"
    have t: "take ?n ?d = fmt_e (vs ! i) @ [0]" using q(5) i by blast
    have n: "?n \<le> CHARLEN" using length_fmt_e [of "vs ! i"] by (simp add: CHARLEN_def)
    then have "take CHARLEN ?d = take ?n ?d @ drop ?n (take CHARLEN ?d)"
      by (metis append_take_drop_id min.absorb1 take_take)
    with t have "take CHARLEN ?d = fmt_e (vs ! i) @ 0 # drop ?n (take CHARLEN ?d)" by simp
    moreover have "\<forall>b\<in>set (fmt_e (vs ! i)). b \<noteq> 0" using fmt_e_nonzero [of "vs ! i"] by metis
    ultimately have "field_text (take CHARLEN ?d) = fmt_e (vs ! i)" by (metis field_text_append)
    moreover have "?d ! length (fmt_e (vs ! i)) = 0"
      using arg_cong [OF t, of "\<lambda>xs. xs ! length (fmt_e (vs ! i))"] by (simp add: nth_append)
    moreover have "off + CHARLEN * i \<le> length q"
      using assms q(2) mult_le_mono2 [of i "length vs" CHARLEN] i by linarith
    ultimately show ?thesis by (simp add: nth_drop)
  qed
  then show ?thesis
    using q(1-4) length_fmt_e fmt_e_accuracy by (auto simp: Let_def split: prod.split)
qed

theorem value_text_fits_and_is_accurate_witness:
  "\<exists>q. write_values [0x3f800000, 0xbf800000] (replicate 50 7) 4 = Inr (q, 44) \<and> take 4 q = [7, 7, 7, 7]
     \<and> field_text (take CHARLEN (drop 24 q)) = fmt_e 0xbf800000
     \<and> (case parse_e (field_text (take CHARLEN (drop 24 q))) of (neg, m, e) \<Rightarrow> neg)"
proof -
  let ?vs = "[0x3f800000, 0xbf800000] :: f32 list"
  have f: "f32_finite 0xbf800000 \<and> f32_scaled 0xbf800000 \<noteq> 0" "f32_neg 0xbf800000"
    by (simp_all add: f32_finite_def f32_scaled_def f32_exp_def f32_frac_def f32_neg_def)
  have "4 + CHARLEN * length ?vs \<le> length (replicate 50 (7 :: byte))" by (simp add: CHARLEN_def)
  from value_text_fits_and_is_accurate [OF this] obtain q where
    q: "write_values ?vs (replicate 50 7) 4 = Inr (q, 4 + CHARLEN * length ?vs)" "take 4 q = take 4 (replicate 50 7)"
      "\<forall>i<length ?vs. let text = field_text (take CHARLEN (drop (4 + CHARLEN * i) q)) in
         text = fmt_e (?vs ! i) \<and> length text \<le> 13 \<and> q ! (4 + CHARLEN * i + length text) = 0
         \<and> (f32_finite (?vs ! i) \<and> f32_scaled (?vs ! i) \<noteq> 0 \<longrightarrow>
              (case parse_e text of (neg, m, e) \<Rightarrow>
                 neg = f32_neg (?vs ! i) \<and> 10 ^ 6 \<le> m \<and> m < 10 ^ 7
                 \<and> \<bar>text_value (neg, m, e) - f32_value (?vs ! i)\<bar> \<le> 10 powi (e - 6) / 2))"
    by blast
  have "1 < length ?vs" by simp
  note r = q(3) [rule_format, OF this]
  have "write_values ?vs (replicate 50 7) 4 = Inr (q, 44)" "take 4 q = [7, 7, 7, 7]"
    using q(1,2) by (simp_all add: CHARLEN_def del: write_values.simps, simp add: numeral_eq_Suc)
  with r f show ?thesis by (auto simp: Let_def CHARLEN_def simp del: write_values.simps split: prod.splits)
qed

end
