(* ===== verification/SmState.thy ===== *)
theory SmState
  imports RequestBuffer ResponseBuffer CarriersQueue Payload
begin

text \<open>
  The state of the Streaming Manager thread (\<open>stream_context_t\<close> and the locals of
  \<open>ze_coap_streaming_thread\<close> that live across its iterations) and what it asks of code outside the
  repository: \<open>malloc\<close>, \<open>rand\<close>, the clock, the Android sensor interface, the GPS manager behind
  JNI, \<open>pthread_create\<close> and the timed wait. Each such call reads the next answer of a \<open>world\<close>,
  which is any sequence of answers, and the calls with an effect outside are recorded in order.
\<close>

section \<open>Streams and sensors\<close>

definition SOURCE_BUFFER_SIZE :: nat where "SOURCE_BUFFER_SIZE = 1"
definition REPETITION_ON :: int where "REPETITION_ON = 1"
definition REPETITION_OFF :: int where "REPETITION_OFF = 2"
definition DEFAULT_FREQ :: int where "DEFAULT_FREQ = 10"
definition RTP_TSCLOCK_FREQ :: int where "RTP_TSCLOCK_FREQ = 1000"
definition QUEUE_REQ_RATIO :: nat where "QUEUE_REQ_RATIO = 5"
definition SM_ERROR :: int where "SM_ERROR = -1"

record stream =
  st_reg :: int
  st_event_buffer :: "sensor_event list"
  st_event_rtpts_buffer :: "int list"
  st_event_buffer_level :: nat
  st_freq :: int
  st_retransmit :: coap_message
  st_repeat :: int
  st_last_wts :: int
  st_last_rtpts :: int
  st_freq_div :: int
  st_samples_sent :: int

text \<open>
  \<open>ze_sensor_t\<close>; a oneshot is its ticket. The handles of the GPS manager, of the carrier thread and of the
  mutex carry no data of the model.
\<close>

record sensor =
  sn_sensor :: int
  sn_android_handle :: "nat option"
  sn_carrier_thread_started :: int
  sn_is_active :: int
  sn_event_cache :: sensor_event
  sn_cache_valid :: int
  sn_streams :: "stream list"
  sn_oneshots :: "int list"
  sn_freq :: int
  sn_last_wts :: int
  sn_last_rtpts :: int

section \<open>The world outside\<close>

text \<open>A creation of a carrier thread is recorded with the sensor and with the result of \<open>pthread_create\<close>.\<close>

datatype outside_call =
    EnableSensor nat
  | SetEventRate "nat option" int
  | DisableSensor "nat option"
  | GpsStart
  | GpsStop
  | GpsChangeFrequency
  | StartCarrierThread int int

record world =
  w_tick :: nat
  w_malloc :: "nat \<Rightarrow> bool"
  w_rand :: "nat \<Rightarrow> nat"
  w_clock :: "nat \<Rightarrow> int"
  w_handle :: "nat \<Rightarrow> nat option"
  w_rc :: "nat \<Rightarrow> int"
  w_wait :: "nat \<Rightarrow> int \<times> nat"
  w_streams :: "stream utlist"
  w_oneshots :: "int utlist"
  w_requests :: "sm_request utlist"
  w_temp :: sm_request
  w_calls :: "outside_call list"
  w_issued :: "sm_request list"
  w_taken :: "sm_response list"

definition utlists_ok :: "world \<Rightarrow> bool" where
  "utlists_ok w \<longleftrightarrow> utlist_ok (w_streams w) \<and> utlist_ok (w_oneshots w) \<and> utlist_ok (w_requests w)"

section \<open>The state of the thread\<close>

text \<open>
  \<open>adqueue\<close> is a local pointer that the two wrappers of the anti-deadlock queue take by value:
  \<open>NULL\<close>, a pointer to a list of requests, or a pointer whose node has been freed.
\<close>

datatype ad_pointer = ADNull | ADNodes "sm_request list" | ADDangling

text \<open>
  The log of samples of one sensor type: the array of \<open>NUM_SAMPLES\<close> entries (the two time
  stamps), the index of the next entry and the number of samples.
\<close>

definition NUM_SAMPLES :: nat where "NUM_SAMPLES = 5000"

record sample_log =
  lg_list :: "nat \<Rightarrow> int \<times> int"
  lg_counter :: nat
  lg_taken :: nat

definition empty_log :: sample_log where
  "empty_log = \<lparr>lg_list = (\<lambda>_. (0, 0)), lg_counter = 0, lg_taken = 0\<rparr>"

record sm_state =
  sm_sensors :: "sensor list"
  sm_carrq :: carriers_queue
  sm_events :: "sensor_event option list"
  sm_smreqbuf :: request_buf
  sm_notbuf :: response_buf
  sm_adqueue :: ad_pointer
  sm_accel_log :: sample_log
  sm_orient_log :: sample_log
  sm_light_log :: sample_log
  sm_prox_log :: sample_log
  sm_gyro_log :: sample_log
  sm_world :: world

definition ask :: "(world \<Rightarrow> nat \<Rightarrow> 'a) \<Rightarrow> sm_state \<Rightarrow> 'a \<times> sm_state" where
  "ask f s = (f (sm_world s) (w_tick (sm_world s)),
              s\<lparr>sm_world := (sm_world s)\<lparr>w_tick := w_tick (sm_world s) + 1\<rparr>\<rparr>)"

definition emit :: "outside_call \<Rightarrow> sm_state \<Rightarrow> sm_state" where
  "emit c s = s\<lparr>sm_world := (sm_world s)\<lparr>w_calls := w_calls (sm_world s) @ [c]\<rparr>\<rparr>"

text \<open>
  The history of the CoAP server, which no operation reads: the requests it has put and the responses it has taken,
  also those it takes while the thread waits for room.
\<close>

definition note_issued :: "sm_request \<Rightarrow> sm_state \<Rightarrow> sm_state" where
  "note_issued q s = s\<lparr>sm_world := (sm_world s)\<lparr>w_issued := w_issued (sm_world s) @ [q]\<rparr>\<rparr>"

definition note_taken :: "sm_response list \<Rightarrow> sm_state \<Rightarrow> sm_state" where
  "note_taken rs s = s\<lparr>sm_world := (sm_world s)\<lparr>w_taken := w_taken (sm_world s) @ rs\<rparr>\<rparr>"

lemma note_taken_none [simp]: "note_taken [] s = s"
  by (cases s) (simp add: note_taken_def)

lemma note_fields [simp]:
  "sm_sensors (note_taken rs s) = sm_sensors s" "sm_carrq (note_taken rs s) = sm_carrq s"
  "sm_events (note_taken rs s) = sm_events s" "sm_smreqbuf (note_taken rs s) = sm_smreqbuf s"
  "sm_notbuf (note_taken rs s) = sm_notbuf s" "sm_adqueue (note_taken rs s) = sm_adqueue s"
  "sm_accel_log (note_taken rs s) = sm_accel_log s" "sm_orient_log (note_taken rs s) = sm_orient_log s"
  "sm_light_log (note_taken rs s) = sm_light_log s" "sm_prox_log (note_taken rs s) = sm_prox_log s"
  "sm_gyro_log (note_taken rs s) = sm_gyro_log s"
  "sm_sensors (note_issued q s) = sm_sensors s" "sm_carrq (note_issued q s) = sm_carrq s"
  "sm_events (note_issued q s) = sm_events s" "sm_smreqbuf (note_issued q s) = sm_smreqbuf s"
  "sm_notbuf (note_issued q s) = sm_notbuf s" "sm_adqueue (note_issued q s) = sm_adqueue s"
  "sm_accel_log (note_issued q s) = sm_accel_log s" "sm_orient_log (note_issued q s) = sm_orient_log s"
  "sm_light_log (note_issued q s) = sm_light_log s" "sm_prox_log (note_issued q s) = sm_prox_log s"
  "sm_gyro_log (note_issued q s) = sm_gyro_log s"
  by (simp_all add: note_taken_def note_issued_def)

lemma note_world [simp]:
  "w_rand (sm_world (note_taken rs s)) = w_rand (sm_world s)" "w_rand (sm_world (note_issued q s)) = w_rand (sm_world s)"
  "w_clock (sm_world (note_taken rs s)) = w_clock (sm_world s)" "w_clock (sm_world (note_issued q s)) = w_clock (sm_world s)"
  "w_handle (sm_world (note_taken rs s)) = w_handle (sm_world s)" "w_handle (sm_world (note_issued q s)) = w_handle (sm_world s)"
  "w_rc (sm_world (note_taken rs s)) = w_rc (sm_world s)" "w_rc (sm_world (note_issued q s)) = w_rc (sm_world s)"
  "w_streams (sm_world (note_taken rs s)) = w_streams (sm_world s)" "w_streams (sm_world (note_issued q s)) = w_streams (sm_world s)"
  "w_oneshots (sm_world (note_taken rs s)) = w_oneshots (sm_world s)" "w_oneshots (sm_world (note_issued q s)) = w_oneshots (sm_world s)"
  "w_requests (sm_world (note_taken rs s)) = w_requests (sm_world s)" "w_requests (sm_world (note_issued q s)) = w_requests (sm_world s)"
  "w_temp (sm_world (note_taken rs s)) = w_temp (sm_world s)" "w_temp (sm_world (note_issued q s)) = w_temp (sm_world s)"
  "w_wait (sm_world (note_taken rs s)) = w_wait (sm_world s)" "w_malloc (sm_world (note_taken rs s)) = w_malloc (sm_world s)"
  "w_tick (sm_world (note_taken rs s)) = w_tick (sm_world s)" "w_calls (sm_world (note_taken rs s)) = w_calls (sm_world s)"
  "w_taken (sm_world (note_taken rs s)) = w_taken (sm_world s) @ rs" "w_issued (sm_world (note_taken rs s)) = w_issued (sm_world s)"
  "w_wait (sm_world (note_issued q s)) = w_wait (sm_world s)" "w_malloc (sm_world (note_issued q s)) = w_malloc (sm_world s)"
  "w_tick (sm_world (note_issued q s)) = w_tick (sm_world s)" "w_calls (sm_world (note_issued q s)) = w_calls (sm_world s)"
  "w_taken (sm_world (note_issued q s)) = w_taken (sm_world s)" "w_issued (sm_world (note_issued q s)) = w_issued (sm_world s) @ [q]"
  "utlists_ok (sm_world (note_taken rs s)) = utlists_ok (sm_world s)" "utlists_ok (sm_world (note_issued q s)) = utlists_ok (sm_world s)"
  by (simp_all add: note_taken_def note_issued_def utlists_ok_def)

section \<open>Access to the sensors array\<close>

definition sensor_ix :: "int \<Rightarrow> bool" where
  "sensor_ix i \<longleftrightarrow> 0 \<le> i \<and> i < int ZE_NUMSENSORS"

definition sensor_at :: "sm_state \<Rightarrow> int \<Rightarrow> sensor" where
  "sensor_at s i = sm_sensors s ! nat i"

definition get_sensor :: "sm_state \<Rightarrow> int \<Rightarrow> sensor outcome" where
  "get_sensor s i = (if sensor_ix i then Inr (sensor_at s i) else Inl OutOfBounds)"

definition upd_sensor :: "int \<Rightarrow> (sensor \<Rightarrow> sensor) \<Rightarrow> sm_state \<Rightarrow> sm_state" where
  "upd_sensor i f s = s\<lparr>sm_sensors := (sm_sensors s)[nat i := f (sensor_at s i)]\<rparr>"

lemma ask_simps [simp]:
  "sm_sensors (snd (ask f s)) = sm_sensors s"
  "sensor_at (snd (ask f s)) i = sensor_at s i"
  "w_streams (sm_world (snd (ask f s))) = w_streams (sm_world s)"
  "utlists_ok (sm_world (snd (ask f s))) = utlists_ok (sm_world s)"
  by (simp_all add: ask_def sensor_at_def utlists_ok_def)

lemma emit_simps [simp]:
  "sm_sensors (emit c s) = sm_sensors s"
  "sensor_at (emit c s) i = sensor_at s i"
  "w_streams (sm_world (emit c s)) = w_streams (sm_world s)"
  "utlists_ok (sm_world (emit c s)) = utlists_ok (sm_world s)"
  by (simp_all add: emit_def sensor_at_def utlists_ok_def)

lemma sensor_at_upd:
  assumes "length (sm_sensors s) = ZE_NUMSENSORS" and "sensor_ix i" and "sensor_ix j"
  shows "sensor_at (upd_sensor i f s) j = (if i = j then f (sensor_at s i) else sensor_at s j)"
proof -
  have "nat i < length (sm_sensors s)" "nat i = nat j \<longleftrightarrow> i = j"
    using assms by (auto simp: sensor_ix_def nat_less_iff)
  then show ?thesis
    by (auto simp: sensor_at_def upd_sensor_def)
qed

lemma upd_sensor_simps [simp]:
  "length (sm_sensors (upd_sensor i f s)) = length (sm_sensors s)"
  "sm_world (upd_sensor i f s) = sm_world s"
  "sm_carrq (upd_sensor i f s) = sm_carrq s"
  "sm_events (upd_sensor i f s) = sm_events s"
  "sm_smreqbuf (upd_sensor i f s) = sm_smreqbuf s"
  "sm_notbuf (upd_sensor i f s) = sm_notbuf s"
  "sm_adqueue (upd_sensor i f s) = sm_adqueue s"
  by (simp_all add: upd_sensor_def)

end
