(* ===== verification/Sensors.thy ===== *)
theory Sensors
  imports SmState
begin

text \<open>
  The sensor helpers of \<open>ze_streaming_manager.c\<close>: \<open>android_sensor_activate\<close>,
  \<open>android_sensor_changef\<close>, \<open>android_sensor_turnoff\<close> and the two accessors of the event cache.
  \<open>hw_frame\<close> is what all of them leave alone, the contract the stream operations rely on.
\<close>

section \<open>Operations\<close>

text \<open>\<open>(1000L/freq)*1000\<close>: the sampling period in microseconds. \<open>freq\<close> is not checked.\<close>

definition event_rate :: "int \<Rightarrow> int outcome" where
  "event_rate freq = (if freq = 0 then Inl DivByZero else Inr (c_div 1000 freq * 1000))"

definition start_carrier :: "sm_state \<Rightarrow> int \<Rightarrow> int \<times> sm_state" where
  "start_carrier s sensor =
     (let (carrerr, s0) = ask w_rc s;
          s1 = emit (StartCarrierThread sensor carrerr) s0
      in if carrerr \<noteq> 0 then (SM_ERROR, s1)
         else (0, upd_sensor sensor (\<lambda>sn. sn\<lparr>sn_carrier_thread_started := 1\<rparr>) s1))"

definition android_sensor_activate :: "sm_state \<Rightarrow> int \<Rightarrow> int \<Rightarrow> (int \<times> sm_state) outcome" where
  "android_sensor_activate s sensor freq =
     (if sensor = ZESENSE_SENSOR_TYPE_LOCATION then
        (let (started, s1) = ask w_rc (emit GpsStart s)
         in if started \<noteq> 0 then Inr (0, upd_sensor sensor (\<lambda>sn. sn\<lparr>sn_is_active := 1\<rparr>) s1)
            else Inr (SM_ERROR, s1))
      else if \<not> sensor_ix sensor then Inl OutOfBounds
      else
        (let (handle, s1) = ask w_handle s;
             s2 = upd_sensor sensor (\<lambda>sn. sn\<lparr>sn_android_handle := handle\<rparr>) s1
         in case handle of
              None \<Rightarrow> Inr (SM_ERROR, s2)
            | Some h \<Rightarrow>
                bindR (event_rate freq) (\<lambda>rate.
                let s3 = emit (SetEventRate handle rate) (emit (EnableSensor h) s2);
                    s4 = upd_sensor sensor (\<lambda>sn. sn\<lparr>sn_is_active := 1\<rparr>) s3
                in if sensor = ASENSOR_TYPE_PROXIMITY \<and> sn_carrier_thread_started (sensor_at s4 sensor) = 0
                   then Inr (start_carrier s4 sensor)
                   else if sensor = ZESENSE_SENSOR_TYPE_ORIENTATION
                          \<and> sn_carrier_thread_started (sensor_at s4 sensor) = 0
                   then Inr (start_carrier s4 sensor)
                   else Inr (0, s4))))"

definition android_sensor_changef :: "sm_state \<Rightarrow> int \<Rightarrow> int \<Rightarrow> (int \<times> sm_state) outcome" where
  "android_sensor_changef s sensor freq =
     (if sensor = ZESENSE_SENSOR_TYPE_LOCATION then
        (let (changed, s1) = ask w_rc (emit GpsChangeFrequency s)
         in Inr (if changed = 0 then SM_ERROR else 0, s1))
      else
        bindR (get_sensor s sensor) (\<lambda>sn.
        bindR (event_rate freq) (\<lambda>rate.
        let (error, s1) = ask w_rc (emit (SetEventRate (sn_android_handle sn) rate) s)
        in Inr (if error < 0 then SM_ERROR else 0, s1))))"

definition android_sensor_turnoff :: "sm_state \<Rightarrow> int \<Rightarrow> (int \<times> sm_state) outcome" where
  "android_sensor_turnoff s sensor =
     (let off = (\<lambda>t. upd_sensor sensor (\<lambda>sn. sn\<lparr>sn_is_active := 0, sn_cache_valid := 0\<rparr>) t)
      in if sensor = ZESENSE_SENSOR_TYPE_LOCATION then
           (let (stopped, s1) = ask w_rc (emit GpsStop s)
            in if stopped = 0 then Inr (SM_ERROR, s1) else Inr (0, off s1))
         else
           bindR (get_sensor s sensor) (\<lambda>sn.
           let (error, s1) = ask w_rc (emit (DisableSensor (sn_android_handle sn)) s)
           in if error < 0 then Inr (SM_ERROR, s1)
              else Inr (0, off (upd_sensor sensor (\<lambda>sn. sn\<lparr>sn_android_handle := None\<rparr>) s1))))"

text \<open>The two accessors of the cache, each one critical section.\<close>

definition read_last_event_SYN :: "sensor \<Rightarrow> sensor_event" where
  "read_last_event_SYN sn = sn_event_cache sn"

definition write_last_event_SYN :: "sensor \<Rightarrow> sensor_event \<Rightarrow> int \<times> sensor" where
  "write_last_event_SYN sn ev = (1, sn\<lparr>sn_event_cache := ev\<rparr>)"

section \<open>What they leave alone\<close>

text \<open>
  A sensor helper changes only the handle, the activity flag, the validity of the cache and the
  carrier flag of sensors, and the world.
\<close>

definition hw_sensor_frame :: "sensor \<Rightarrow> sensor \<Rightarrow> bool" where
  "hw_sensor_frame a b \<longleftrightarrow> sn_sensor b = sn_sensor a \<and> sn_streams b = sn_streams a \<and> sn_oneshots b = sn_oneshots a
     \<and> sn_freq b = sn_freq a \<and> sn_event_cache b = sn_event_cache a"

definition rest_of_state :: "sm_state \<Rightarrow> sm_state" where
  "rest_of_state s = s\<lparr>sm_sensors := [], sm_world := (sm_world s)\<lparr>w_tick := 0, w_calls := []\<rparr>\<rparr>"

definition hw_frame :: "sm_state \<Rightarrow> sm_state \<Rightarrow> bool" where
  "hw_frame s t \<longleftrightarrow> length (sm_sensors t) = length (sm_sensors s)
     \<and> (\<forall>i < length (sm_sensors s). hw_sensor_frame (sm_sensors s ! i) (sm_sensors t ! i))
     \<and> rest_of_state t = rest_of_state s \<and> utlists_ok (sm_world t) = utlists_ok (sm_world s)"

lemma hw_sensor_frame_refl [simp]: "hw_sensor_frame a a"
  by (simp add: hw_sensor_frame_def)

lemma hw_frame_refl [simp]: "hw_frame s s"
  by (simp add: hw_frame_def)

lemma hw_frame_trans: "hw_frame s t \<Longrightarrow> hw_frame t u \<Longrightarrow> hw_frame s u"
  by (auto simp: hw_frame_def hw_sensor_frame_def)

lemma hw_frame_ask: "hw_frame s t \<Longrightarrow> hw_frame s (snd (ask f t))"
  by (simp add: hw_frame_def ask_def rest_of_state_def utlists_ok_def)

lemma hw_frame_emit: "hw_frame s t \<Longrightarrow> hw_frame s (emit c t)"
  by (simp add: hw_frame_def emit_def rest_of_state_def utlists_ok_def)

lemma hw_frame_upd:
  assumes "hw_frame s t" and "\<And>sn. hw_sensor_frame sn (f sn)"
  shows "hw_frame s (upd_sensor i f t)"
proof -
  have "hw_frame t (upd_sensor i f t)"
    using assms(2)
    by (cases "nat i < length (sm_sensors t)")
      (auto simp: hw_frame_def upd_sensor_def rest_of_state_def nth_list_update sensor_at_def)
  with assms(1) show ?thesis by (rule hw_frame_trans)
qed

lemma hw_frame_upd_hw:
  assumes "hw_frame s t"
  shows "hw_frame s (upd_sensor i (\<lambda>sn. sn\<lparr>sn_is_active := a\<rparr>) t)"
    and "hw_frame s (upd_sensor i (\<lambda>sn. sn\<lparr>sn_android_handle := h\<rparr>) t)"
    and "hw_frame s (upd_sensor i (\<lambda>sn. sn\<lparr>sn_carrier_thread_started := c\<rparr>) t)"
    and "hw_frame s (upd_sensor i (\<lambda>sn. sn\<lparr>sn_is_active := a, sn_cache_valid := v\<rparr>) t)"
  by (rule hw_frame_upd [OF assms], simp add: hw_sensor_frame_def)+

lemmas hw_frameI = hw_frame_refl hw_frame_ask hw_frame_emit hw_frame_upd_hw

lemma start_carrier_frame: "hw_frame s t \<Longrightarrow> hw_frame s (snd (start_carrier t sensor))"
  by (auto simp: start_carrier_def Let_def split_def intro!: hw_frameI)

lemma activate_frame: "android_sensor_activate s sensor freq = Inr (r, t) \<Longrightarrow> hw_frame s t"
  by (auto simp: android_sensor_activate_def Let_def split_def bindR_Inr_iff split: if_splits option.splits
      intro!: hw_frameI dest!: arg_cong [where f = snd] intro: start_carrier_frame)

lemma changef_frame: "android_sensor_changef s sensor freq = Inr (r, t) \<Longrightarrow> hw_frame s t"
  by (auto simp: android_sensor_changef_def Let_def split_def bindR_Inr_iff split: if_splits
      intro!: hw_frameI)

lemma turnoff_frame: "android_sensor_turnoff s sensor = Inr (r, t) \<Longrightarrow> hw_frame s t"
  by (auto simp: android_sensor_turnoff_def Let_def split_def bindR_Inr_iff split: if_splits
      intro!: hw_frameI)

section \<open>When they return\<close>

lemma event_rate_pos: "0 < freq \<Longrightarrow> event_rate freq = Inr (1000 div freq * 1000)"
  by (simp add: event_rate_def c_div_nonneg)

lemma activate_returns:
  assumes "sensor_ix sensor" and "0 < freq"
  shows "\<exists>r t. android_sensor_activate s sensor freq = Inr (r, t)"
  using assms
  by (auto simp: android_sensor_activate_def Let_def split_def event_rate_pos split: option.split)

lemma changef_returns:
  assumes "sensor_ix sensor" and "0 < freq"
  shows "\<exists>r t. android_sensor_changef s sensor freq = Inr (r, t)"
  using assms
  by (auto simp: android_sensor_changef_def Let_def split_def event_rate_pos get_sensor_def)

lemma turnoff_returns:
  assumes "sensor_ix sensor"
  shows "\<exists>r t. android_sensor_turnoff s sensor = Inr (r, t)"
  using assms
  by (auto simp: android_sensor_turnoff_def Let_def split_def get_sensor_def)

lemma hw_frame_length: "hw_frame s t \<Longrightarrow> length (sm_sensors t) = length (sm_sensors s)"
  by (simp add: hw_frame_def)

lemma hw_frame_rest: "hw_frame s t \<Longrightarrow> rest_of_state t = rest_of_state s"
  by (simp add: hw_frame_def)

lemma rest_of_state_eqD:
  assumes "rest_of_state t = rest_of_state s"
  shows "sm_notbuf t = sm_notbuf s" and "sm_smreqbuf t = sm_smreqbuf s" and "sm_adqueue t = sm_adqueue s"
    and "sm_events t = sm_events s" and "sm_carrq t = sm_carrq s"
    and "sm_accel_log t = sm_accel_log s" and "sm_orient_log t = sm_orient_log s"
    and "sm_light_log t = sm_light_log s" and "sm_prox_log t = sm_prox_log s" and "sm_gyro_log t = sm_gyro_log s"
  using assms by (cases s; cases t; simp add: rest_of_state_def)+

lemma rest_of_state_world:
  assumes "rest_of_state t = rest_of_state s"
  shows "w_wait (sm_world t) = w_wait (sm_world s)" and "w_malloc (sm_world t) = w_malloc (sm_world s)"
    and "w_streams (sm_world t) = w_streams (sm_world s)" and "w_oneshots (sm_world t) = w_oneshots (sm_world s)"
    and "w_requests (sm_world t) = w_requests (sm_world s)"
proof -
  have "(sm_world t)\<lparr>w_tick := 0, w_calls := []\<rparr> = (sm_world s)\<lparr>w_tick := 0, w_calls := []\<rparr>"
    using assms by (cases s; cases t; simp add: rest_of_state_def)
  then show "w_wait (sm_world t) = w_wait (sm_world s)" and "w_malloc (sm_world t) = w_malloc (sm_world s)"
    and "w_streams (sm_world t) = w_streams (sm_world s)" and "w_oneshots (sm_world t) = w_oneshots (sm_world s)"
    and "w_requests (sm_world t) = w_requests (sm_world s)"
    by (cases "sm_world s"; cases "sm_world t"; simp)+
qed

lemma hw_frame_sensor_at:
  assumes "hw_frame s t" and "length (sm_sensors s) = ZE_NUMSENSORS" and "sensor_ix i"
  shows "sn_streams (sensor_at t i) = sn_streams (sensor_at s i)"
    and "sn_oneshots (sensor_at t i) = sn_oneshots (sensor_at s i)"
    and "sn_freq (sensor_at t i) = sn_freq (sensor_at s i)"
    and "sn_event_cache (sensor_at t i) = sn_event_cache (sensor_at s i)"
    and "sn_sensor (sensor_at t i) = sn_sensor (sensor_at s i)"
proof -
  have "nat i < length (sm_sensors s)"
    using assms(2,3) by (simp add: sensor_ix_def nat_less_iff)
  then have "hw_sensor_frame (sensor_at s i) (sensor_at t i)"
    using assms(1) by (simp add: hw_frame_def sensor_at_def)
  then show "sn_streams (sensor_at t i) = sn_streams (sensor_at s i)"
    and "sn_oneshots (sensor_at t i) = sn_oneshots (sensor_at s i)"
    and "sn_freq (sensor_at t i) = sn_freq (sensor_at s i)"
    and "sn_event_cache (sensor_at t i) = sn_event_cache (sensor_at s i)"
    and "sn_sensor (sensor_at t i) = sn_sensor (sensor_at s i)"
    by (simp_all add: hw_sensor_frame_def)
qed

end
