(* ===== verification/Streams.thy ===== *)
theory Streams
  imports Sensors "HOL-Library.Multiset"
begin

text \<open>
  The stream helpers of \<open>ze_streaming_manager.c\<close>: \<open>sm_new_stream\<close>, \<open>sm_new_oneshot\<close>,
  \<open>sm_find_stream\<close>, \<open>sm_find_oneshot\<close>, \<open>sm_start_stream\<close> and \<open>sm_stop_stream\<close>, with the
  invariant of the streams of a sensor. \<open>ticket_table\<close> is the contract the CoAP server relies on: what
  starting and stopping a stream do to the tickets the Streaming Manager holds.
\<close>

section \<open>Finding and creating\<close>

text \<open>A pointer into the list of streams is its index, \<open>NULL\<close> is \<open>None\<close>.\<close>

fun find_reg :: "stream list \<Rightarrow> int \<Rightarrow> nat option" where
  "find_reg [] reg = None"
| "find_reg (temp # sts) reg = (if st_reg temp = reg then Some 0 else map_option Suc (find_reg sts reg))"

definition sm_find_stream :: "sm_state \<Rightarrow> int \<Rightarrow> int \<Rightarrow> nat option" where
  "sm_find_stream s sensor_id reg = find_reg (sn_streams (sensor_at s sensor_id)) reg"

fun find_one :: "int list \<Rightarrow> int \<Rightarrow> nat option" where
  "find_one [] one = None"
| "find_one (temp # os) one = (if temp = one then Some 0 else map_option Suc (find_one os one))"

definition sm_find_oneshot :: "sm_state \<Rightarrow> int \<Rightarrow> int \<Rightarrow> nat option" where
  "sm_find_oneshot s sensor_id one = find_one (sn_oneshots (sensor_at s sensor_id)) one"

text \<open>
  The zeroed memory of a new stream. A zero in the \<open>retransmit\<close> field is whichever message type
  has that code; \<open>sm_start_stream\<close> sets it before anything reads it.
\<close>

definition blank_stream :: stream where
  "blank_stream = \<lparr>st_reg = 0, st_event_buffer = replicate SOURCE_BUFFER_SIZE zero_event,
     st_event_rtpts_buffer = replicate SOURCE_BUFFER_SIZE 0, st_event_buffer_level = 0, st_freq = 0,
     st_retransmit = COAP_MESSAGE_OTHER 0, st_repeat = 0, st_last_wts = 0, st_last_rtpts = 0,
     st_freq_div = 0, st_samples_sent = 0\<rparr>"

definition sm_new_stream :: "sm_state \<Rightarrow> stream option \<times> sm_state" where
  "sm_new_stream s =
     (let (ok, s1) = ask w_malloc s in (if ok then Some blank_stream else None, s1))"

definition sm_new_oneshot :: "sm_state \<Rightarrow> int \<Rightarrow> int option \<times> sm_state" where
  "sm_new_oneshot s one =
     (let (ok, s1) = ask w_malloc s in (if ok then Some one else None, s1))"

section \<open>Starting and stopping\<close>

text \<open>Replace the stream with the ticket of \<open>new\<close>, or append: the last part of \<open>sm_start_stream\<close>.\<close>

definition register_stream :: "stream utlist \<Rightarrow> stream \<Rightarrow> stream list \<Rightarrow> bool \<times> stream list" where
  "register_stream U new sts =
     (case find_reg sts (st_reg new) of
        Some sub \<Rightarrow> (False, ll_append U (ll_delete U sts sub) new)
      | None \<Rightarrow> (True, ll_append U sts new))"

text \<open>
  The result is whether the returned pointer is not \<open>NULL\<close>: it is \<open>NULL\<close> without memory and
  when a stream has been replaced.
\<close>

definition sm_start_stream :: "sm_state \<Rightarrow> int \<Rightarrow> int \<Rightarrow> int \<Rightarrow> (bool \<times> sm_state) outcome" where
  "sm_start_stream s sensor_id reg freq =
     (case sm_new_stream s of
        (None, s1) \<Rightarrow> Inr (False, s1)
      | (Some new, s1) \<Rightarrow>
          let (r, s2) = ask w_rand s1;
              newstream = new\<lparr>st_reg := reg, st_freq := freq,
                 st_last_rtpts := int (r mod 100) + 400, st_last_wts := 0, st_samples_sent := 0,
                 st_retransmit := COAP_MESSAGE_CON, st_repeat := REPETITION_OFF\<rparr>
          in bindR (get_sensor s2 sensor_id) (\<lambda>sn.
             bindR (if sn_is_active sn = 0
                    then android_sensor_activate (upd_sensor sensor_id (\<lambda>sn. sn\<lparr>sn_freq := freq\<rparr>) s2) sensor_id freq
                    else if freq > sn_freq sn
                    then android_sensor_changef (upd_sensor sensor_id (\<lambda>sn. sn\<lparr>sn_freq := freq\<rparr>) s2) sensor_id freq
                    else Inr (0, s2)) (\<lambda>(_, s3).
             let (isnew, sts) = register_stream (w_streams (sm_world s3)) newstream
                                  (sn_streams (sensor_at s3 sensor_id))
             in Inr (isnew, upd_sensor sensor_id (\<lambda>sn. sn\<lparr>sn_streams := sts\<rparr>) s3))))"

text \<open>The loop over the streams that are left.\<close>

fun max_freq :: "int \<Rightarrow> stream list \<Rightarrow> int" where
  "max_freq f [] = f"
| "max_freq f (temp # sts) = max_freq (if st_freq temp > f then st_freq temp else f) sts"

definition sm_stop_stream :: "sm_state \<Rightarrow> int \<Rightarrow> int \<Rightarrow> (int \<times> sm_state) outcome" where
  "sm_stop_stream s sensor_id reg =
     bindR (get_sensor s sensor_id) (\<lambda>sn.
     case sm_find_stream s sensor_id reg of
       None \<Rightarrow> Inr (SM_ERROR, s)
     | Some del \<Rightarrow>
         let sts = ll_delete (w_streams (sm_world s)) (sn_streams sn) del;
             s1 = upd_sensor sensor_id (\<lambda>sn. sn\<lparr>sn_streams := sts\<rparr>) s
         in if sts = [] \<and> sn_oneshots sn = []
            then bindR (android_sensor_turnoff s1 sensor_id) (\<lambda>(_, s2).
                 Inr (0, upd_sensor sensor_id (\<lambda>sn. sn\<lparr>sn_freq := 0\<rparr>) s2))
            else case sts of
                   [] \<Rightarrow> Inl NullDeref
                 | temp # _ \<Rightarrow>
                     (let f = max_freq (st_freq temp) sts
                      in bindR (android_sensor_changef (upd_sensor sensor_id (\<lambda>sn. sn\<lparr>sn_freq := f\<rparr>) s1) sensor_id f)
                           (\<lambda>(_, s2). Inr (0, s2))))"

section \<open>Lookup, registration and removal on the list\<close>

lemma find_reg_None: "find_reg sts reg = None \<longleftrightarrow> reg \<notin> st_reg ` set sts"
  by (induction sts) auto

lemma find_reg_Some: "find_reg sts reg = Some i \<Longrightarrow> i < length sts \<and> st_reg (sts ! i) = reg"
  by (induction sts arbitrary: i) (auto split: if_splits)

text \<open>Deleting what was found leaves the streams with another ticket, where tickets are distinct.\<close>

lemma delete_found:
  assumes "distinct (map st_reg sts)" and "find_reg sts reg = Some i"
  shows "take i sts @ drop (Suc i) sts = filter (\<lambda>st. st_reg st \<noteq> reg) sts"
  using assms
proof (induction sts arbitrary: i)
  case Nil
  then show ?case by simp
next
  case (Cons a sts)
  show ?case
  proof (cases "st_reg a = reg")
    case True
    with Cons.prems have "filter (\<lambda>st. st_reg st \<noteq> reg) sts = sts"
      by (auto simp: filter_id_conv) (metis imageI)
    with True Cons.prems show ?thesis by simp
  next
    case False
    with Cons show ?thesis by (auto)
  qed
qed

lemma register_stream_eq:
  assumes "utlist_ok U" and "distinct (map st_reg sts)"
  shows "register_stream U new sts =
    (st_reg new \<notin> st_reg ` set sts, filter (\<lambda>st. st_reg st \<noteq> st_reg new) sts @ [new])"
proof (cases "find_reg sts (st_reg new)")
  case None
  then have "filter (\<lambda>st. st_reg st \<noteq> st_reg new) sts = sts"
    by (auto simp: find_reg_None filter_id_conv image_iff)
  with None assms(1) show ?thesis
    by (simp add: register_stream_def utlist_append find_reg_None [symmetric])
next
  case (Some i)
  then have "st_reg new \<in> st_reg ` set sts"
    using find_reg_None [of sts "st_reg new"] by auto
  with Some assms find_reg_Some [OF Some] show ?thesis
    by (simp add: register_stream_def utlist_append utlist_delete delete_found)
qed

definition release_stream :: "stream utlist \<Rightarrow> int \<Rightarrow> stream list \<Rightarrow> stream list option" where
  "release_stream U reg sts = map_option (ll_delete U sts) (find_reg sts reg)"

lemma release_stream_eq:
  assumes "utlist_ok U" and "distinct (map st_reg sts)"
  shows "release_stream U reg sts =
    (if reg \<in> st_reg ` set sts then Some (filter (\<lambda>st. st_reg st \<noteq> reg) sts) else None)"
proof (cases "find_reg sts reg")
  case None
  then show ?thesis by (simp add: release_stream_def find_reg_None)
next
  case (Some i)
  then have "reg \<in> st_reg ` set sts"
    using find_reg_None [of sts reg] by auto
  with Some assms find_reg_Some [OF Some] show ?thesis
    by (simp add: release_stream_def utlist_delete delete_found)
qed

lemma max_freq_eq: "max_freq f sts = Max (insert f (st_freq ` set sts))"
proof (induction sts arbitrary: f)
  case Nil
  then show ?case by simp
next
  case (Cons a sts)
  have "Max (insert f (insert (st_freq a) (st_freq ` set sts)))
      = Max (insert (max (st_freq a) f) (st_freq ` set sts))"
    by (cases "sts = []") (simp_all add: max.assoc max.commute max.left_commute)
  with Cons [of "max (st_freq a) f"] show ?case
    by (simp add: max_def split: if_splits)
qed

section \<open>The contract on tickets\<close>

text \<open>
  A table of tickets: registering says whether the ticket is new, releasing whether it was there, and
  each ticket is held at most once.
\<close>

locale ticket_table =
  fixes wf :: "'t \<Rightarrow> bool"
    and tickets :: "'t \<Rightarrow> int list"
    and ticket :: "'v \<Rightarrow> int"
    and register :: "'v \<Rightarrow> 't \<Rightarrow> bool \<times> 't"
    and release :: "int \<Rightarrow> 't \<Rightarrow> 't option"
  assumes wf_distinct: "wf t \<Longrightarrow> distinct (tickets t)"
    and register_wf: "wf t \<Longrightarrow> register v t = (b, t') \<Longrightarrow> wf t'"
    and register_new: "wf t \<Longrightarrow> register v t = (b, t') \<Longrightarrow> b \<longleftrightarrow> ticket v \<notin> set (tickets t)"
    and register_set: "wf t \<Longrightarrow> register v t = (b, t') \<Longrightarrow> set (tickets t') = insert (ticket v) (set (tickets t))"
    and release_wf: "wf t \<Longrightarrow> release k t = Some t' \<Longrightarrow> wf t'"
    and release_iff: "wf t \<Longrightarrow> release k t = None \<longleftrightarrow> k \<notin> set (tickets t)"
    and release_set: "wf t \<Longrightarrow> release k t = Some t' \<Longrightarrow> set (tickets t') = set (tickets t) - {k}"
begin

lemma count_one: "wf t \<Longrightarrow> count (mset (tickets t)) k = (if k \<in> set (tickets t) then 1 else 0)"
  using wf_distinct [of t] by (simp add: distinct_count_atmost_1)

text \<open>Registering either adds the ticket or gives one back; releasing gives one back.\<close>

lemma register_count:
  assumes "wf t" and "register v t = (b, t')"
  shows "count (mset (tickets t')) k + (if \<not> b \<and> k = ticket v then 1 else 0)
    = count (mset (tickets t)) k + (if k = ticket v then 1 else 0)"
  using register_set [OF assms] register_new [OF assms] register_wf [OF assms] assms(1)
  by (auto simp: count_one simp del: count_mset)

lemma release_count:
  assumes "wf t" and "release r t = Some t'"
  shows "count (mset (tickets t')) k + (if k = r then 1 else 0) = count (mset (tickets t)) k"
  using release_set [OF assms] release_wf [OF assms] release_iff [OF assms(1), of r] assms
  by (auto simp: count_one simp del: count_mset)

end

abbreviation regs :: "stream list \<Rightarrow> int list" where
  "regs sts \<equiv> map st_reg sts"

lemma distinct_filter_regs: "distinct (regs sts) \<Longrightarrow> distinct (regs (filter P sts))"
  by (induction sts) auto

interpretation tickets: ticket_table "\<lambda>sts. distinct (regs sts)" regs st_reg
  "register_stream plain_utlist" "release_stream plain_utlist"
  by unfold_locales
    (auto simp: register_stream_eq release_stream_eq distinct_filter_regs split: if_splits)

section \<open>The invariant of the streams\<close>

text \<open>
  The streams of a sensor carry distinct tickets, a positive frequency not above the sensor's,
  repetition is off and no sample waits in a buffer; streams live only on an active sensor.
\<close>

definition stream_ok :: "stream \<Rightarrow> bool" where
  "stream_ok st \<longleftrightarrow> 0 < st_freq st \<and> st_repeat st = REPETITION_OFF \<and> st_event_buffer_level st = 0
     \<and> length (st_event_buffer st) = SOURCE_BUFFER_SIZE \<and> length (st_event_rtpts_buffer st) = SOURCE_BUFFER_SIZE"

definition sensor_ok :: "sensor \<Rightarrow> bool" where
  "sensor_ok sn \<longleftrightarrow> distinct (regs (sn_streams sn)) \<and> (\<forall>st\<in>set (sn_streams sn). stream_ok st)"

definition freq_ok :: "sensor \<Rightarrow> bool" where
  "freq_ok sn \<longleftrightarrow> (\<forall>st\<in>set (sn_streams sn). st_freq st \<le> sn_freq sn)"

definition sensors_ok :: "sm_state \<Rightarrow> bool" where
  "sensors_ok s \<longleftrightarrow> length (sm_sensors s) = ZE_NUMSENSORS \<and> (\<forall>sn\<in>set (sm_sensors s). sensor_ok sn)
     \<and> utlists_ok (sm_world s)"

lemma sensors_ok_length: "sensors_ok s \<Longrightarrow> length (sm_sensors s) = ZE_NUMSENSORS"
  by (simp add: sensors_ok_def)

lemma sensor_at_mem: "length (sm_sensors s) = ZE_NUMSENSORS \<Longrightarrow> sensor_ix i \<Longrightarrow> sensor_at s i \<in> set (sm_sensors s)"
  by (simp add: sensor_at_def sensor_ix_def nat_less_iff)

lemma sensors_ok_at: "sensors_ok s \<Longrightarrow> sensor_ix i \<Longrightarrow> sensor_ok (sensor_at s i)"
  using sensor_at_mem [of s i] by (simp add: sensors_ok_def)

lemma sensor_ok_frame: "hw_sensor_frame a b \<Longrightarrow> sensor_ok b = sensor_ok a"
  by (simp add: hw_sensor_frame_def sensor_ok_def)

lemma sensors_ok_frame: "hw_frame s t \<Longrightarrow> sensors_ok t = sensors_ok s"
  by (fastforce simp: hw_frame_def sensors_ok_def all_set_conv_all_nth sensor_ok_frame)

lemma sensors_ok_upd:
  assumes "sensors_ok s" and "sensor_ok (f (sensor_at s i))"
  shows "sensors_ok (upd_sensor i f s)"
  using assms set_update_subset_insert [of "sm_sensors s" "nat i" "f (sensor_at s i)"]
  by (auto simp: sensors_ok_def upd_sensor_def)

text \<open>The streams of all the sensors: what the sensor helpers never change.\<close>

definition all_streams :: "sm_state \<Rightarrow> stream list list" where
  "all_streams s = map sn_streams (sm_sensors s)"

lemma all_streams_frame: "hw_frame s t \<Longrightarrow> all_streams t = all_streams s"
  by (auto simp: hw_frame_def hw_sensor_frame_def all_streams_def intro: nth_equalityI)

lemma all_streams_upd:
  "all_streams (upd_sensor i f s) = (all_streams s)[nat i := sn_streams (f (sensor_at s i))]"
  by (simp add: all_streams_def upd_sensor_def map_update)

lemma all_streams_freq: "all_streams (upd_sensor i (\<lambda>sn. sn\<lparr>sn_freq := f\<rparr>) s) = all_streams s"
proof -
  have "(all_streams s)[nat i := sn_streams (sensor_at s i)] = all_streams s"
    by (cases "nat i < length (sm_sensors s)")
      (simp_all add: all_streams_def sensor_at_def list_update_beyond flip: map_update)
  then show ?thesis by (simp add: all_streams_upd)
qed

lemma all_streams_nth:
  "length (sm_sensors s) = ZE_NUMSENSORS \<Longrightarrow> sensor_ix i \<Longrightarrow> all_streams s ! nat i = sn_streams (sensor_at s i)"
  by (simp add: all_streams_def sensor_at_def sensor_ix_def nat_less_iff)

section \<open>What starting a stream does\<close>

text \<open>The stream \<open>sm_start_stream\<close> makes, from the answer of \<open>rand\<close>.\<close>

definition started_stream :: "nat \<Rightarrow> int \<Rightarrow> int \<Rightarrow> stream" where
  "started_stream r reg freq = blank_stream\<lparr>st_reg := reg, st_freq := freq,
     st_last_rtpts := int (r mod 100) + 400, st_last_wts := 0, st_samples_sent := 0,
     st_retransmit := COAP_MESSAGE_CON, st_repeat := REPETITION_OFF\<rparr>"

lemma started_stream_ok: "0 < freq \<Longrightarrow> stream_ok (started_stream r reg freq)"
  by (simp add: stream_ok_def started_stream_def blank_stream_def)

lemma started_stream_simps [simp]:
  "st_reg (started_stream r reg freq) = reg" "st_freq (started_stream r reg freq) = freq"
  "st_retransmit (started_stream r reg freq) = COAP_MESSAGE_CON" "st_samples_sent (started_stream r reg freq) = 0"
  "st_last_rtpts (started_stream r reg freq) = int (r mod 100) + 400"
  by (simp_all add: started_stream_def)

definition stream_without :: "int \<Rightarrow> stream list \<Rightarrow> stream list" where
  "stream_without reg sts = filter (\<lambda>st. st_reg st \<noteq> reg) sts"

lemma stream_without_ok: "sensor_ok sn \<Longrightarrow> sensor_ok (sn\<lparr>sn_streams := stream_without reg (sn_streams sn)\<rparr>)"
  by (auto simp: sensor_ok_def stream_without_def distinct_filter_regs)

lemma stream_without_snoc_ok:
  "sensor_ok sn \<Longrightarrow> stream_ok new \<Longrightarrow>
    sensor_ok (sn\<lparr>sn_streams := stream_without (st_reg new) (sn_streams sn) @ [new]\<rparr>)"
  by (auto simp: sensor_ok_def stream_without_def distinct_filter_regs)

lemma sensor_ok_freq [simp]: "sensor_ok (sn\<lparr>sn_freq := f\<rparr>) = sensor_ok sn"
  by (simp add: sensor_ok_def)

lemma get_sensor_ask [simp]: "get_sensor (snd (ask f s)) i = get_sensor s i"
  by (simp add: get_sensor_def)

text \<open>
  The state just before the registration: the sensor's frequency is settled, the streams are those from before.
\<close>

lemma start_prepare:
  assumes ok: "sensors_ok s" and ix: "sensor_ix i" and f: "0 < freq"
    and old: "sensors_ok s0" "sensor_at s0 i = sensor_at s i" "all_streams s0 = all_streams s"
      "rest_of_state s0 = rest_of_state s"
  defines "sn \<equiv> sensor_at s i"
  shows "\<exists>r s3. (if sn_is_active sn = 0
        then android_sensor_activate (upd_sensor i (\<lambda>sn. sn\<lparr>sn_freq := freq\<rparr>) s0) i freq
        else if freq > sn_freq sn
        then android_sensor_changef (upd_sensor i (\<lambda>sn. sn\<lparr>sn_freq := freq\<rparr>) s0) i freq
        else Inr (0, s0)) = Inr (r, s3)
      \<and> sensors_ok s3 \<and> all_streams s3 = all_streams s \<and> rest_of_state s3 = rest_of_state s
      \<and> sn_freq (sensor_at s3 i) = (if sn_is_active sn = 0 then freq else max freq (sn_freq sn))
      \<and> sn_oneshots (sensor_at s3 i) = sn_oneshots sn \<and> sn_sensor (sensor_at s3 i) = sn_sensor sn"
proof -
  let ?s0 = "upd_sensor i (\<lambda>sn. sn\<lparr>sn_freq := freq\<rparr>) s0"
  have len: "length (sm_sensors s0) = ZE_NUMSENSORS" "length (sm_sensors ?s0) = ZE_NUMSENSORS"
    using old(1) by (simp_all add: sensors_ok_length)
  have at: "sensor_at ?s0 i = sn\<lparr>sn_freq := freq\<rparr>"
    using sensor_at_upd [OF len(1) ix ix] old(2) by (simp add: sn_def)
  have ok0: "sensors_ok ?s0"
    using old(1) sensors_ok_at [OF old(1) ix] by (intro sensors_ok_upd) simp_all
  have all0: "all_streams ?s0 = all_streams s"
    using old(3) by (simp add: all_streams_freq)
  have rest0: "rest_of_state ?s0 = rest_of_state s"
    using old(4) by (simp add: upd_sensor_def rest_of_state_def)
  have fr: "sensors_ok t \<and> all_streams t = all_streams s \<and> rest_of_state t = rest_of_state s
      \<and> sn_freq (sensor_at t i) = freq \<and> sn_oneshots (sensor_at t i) = sn_oneshots sn
      \<and> sn_sensor (sensor_at t i) = sn_sensor sn" if "hw_frame ?s0 t" for t
    using hw_frame_sensor_at [OF that len(2) ix] sensors_ok_frame [OF that] all_streams_frame [OF that]
      hw_frame_rest [OF that] at ok0 all0 rest0 by simp
  consider (off) "sn_is_active sn = 0" | (faster) "sn_is_active sn \<noteq> 0" "freq > sn_freq sn"
    | (slower) "sn_is_active sn \<noteq> 0" "\<not> freq > sn_freq sn" by blast
  then show ?thesis
  proof cases
    case off
    obtain r t where "android_sensor_activate ?s0 i freq = Inr (r, t)"
      using activate_returns [OF ix f] by blast
    with off fr [OF activate_frame] show ?thesis by fastforce
  next
    case faster
    obtain r t where "android_sensor_changef ?s0 i freq = Inr (r, t)"
      using changef_returns [OF ix f] by blast
    with faster fr [OF changef_frame] show ?thesis by fastforce
  next
    case slower
    with old show ?thesis by (auto simp: sn_def max_def)
  qed
qed

lemma rest_of_state_ask [simp]: "rest_of_state (snd (ask f s)) = rest_of_state s"
  by (simp add: ask_def rest_of_state_def)

lemma sensors_ok_ask [simp]: "sensors_ok (snd (ask f s)) = sensors_ok s"
  by (simp add: sensors_ok_def)

lemma all_streams_ask [simp]: "all_streams (snd (ask f s)) = all_streams s"
  by (simp add: all_streams_def)

lemma rest_of_state_upd [simp]: "rest_of_state (upd_sensor i f s) = rest_of_state s"
  by (simp add: upd_sensor_def rest_of_state_def)

lemma start_stream_nomem:
  "\<not> fst (ask w_malloc s) \<Longrightarrow> sm_start_stream s i reg freq = Inr (False, snd (ask w_malloc s))"
  by (simp add: sm_start_stream_def sm_new_stream_def Let_def split_def)

lemma start_stream_unfold:
  assumes "fst (ask w_malloc s)"
  defines "s1 \<equiv> snd (ask w_malloc s)"
  shows "sm_start_stream s i reg freq =
    bindR (get_sensor s i) (\<lambda>sn.
    bindR (if sn_is_active sn = 0
           then android_sensor_activate (upd_sensor i (\<lambda>sn. sn\<lparr>sn_freq := freq\<rparr>) (snd (ask w_rand s1))) i freq
           else if freq > sn_freq sn
           then android_sensor_changef (upd_sensor i (\<lambda>sn. sn\<lparr>sn_freq := freq\<rparr>) (snd (ask w_rand s1))) i freq
           else Inr (0, snd (ask w_rand s1))) (\<lambda>x.
    let y = register_stream (w_streams (sm_world (snd x))) (started_stream (fst (ask w_rand s1)) reg freq)
              (sn_streams (sensor_at (snd x) i))
    in Inr (fst y, upd_sensor i (\<lambda>sn. sn\<lparr>sn_streams := snd y\<rparr>) (snd x))))"
  unfolding s1_def using assms(1)
  by (simp add: sm_start_stream_def sm_new_stream_def started_stream_def Let_def split_def)

lemma start_stream_effect:
  assumes ok: "sensors_ok s" and ix: "sensor_ix i" and f: "0 < freq" and mem: "fst (ask w_malloc s)"
  defines "sn \<equiv> sensor_at s i"
  shows "\<exists>s' r. sm_start_stream s i reg freq = Inr (reg \<notin> set (regs (sn_streams sn)), s')
    \<and> sensors_ok s' \<and> rest_of_state s' = rest_of_state s
    \<and> all_streams s' = (all_streams s)[nat i := stream_without reg (sn_streams sn) @ [started_stream r reg freq]]
    \<and> sn_freq (sensor_at s' i) = (if sn_is_active sn = 0 then freq else max freq (sn_freq sn))
    \<and> sn_oneshots (sensor_at s' i) = sn_oneshots sn"
proof -
  define s1 where "s1 = snd (ask w_malloc s)"
  define r where "r = fst (ask w_rand s1)"
  define s2 where "s2 = snd (ask w_rand s1)"
  have s2: "sensors_ok s2" "sensor_at s2 i = sensor_at s i" "all_streams s2 = all_streams s"
    "rest_of_state s2 = rest_of_state s" "get_sensor s i = Inr sn"
    using ok ix by (simp_all add: s1_def s2_def get_sensor_def sn_def)
  note gs = s2(5)
  obtain q s3 where s3: "(if sn_is_active sn = 0
        then android_sensor_activate (upd_sensor i (\<lambda>sn. sn\<lparr>sn_freq := freq\<rparr>) s2) i freq
        else if freq > sn_freq sn
        then android_sensor_changef (upd_sensor i (\<lambda>sn. sn\<lparr>sn_freq := freq\<rparr>) s2) i freq
        else Inr (0, s2)) = Inr (q, s3)"
    "sensors_ok s3" "all_streams s3 = all_streams s" "rest_of_state s3 = rest_of_state s"
    "sn_freq (sensor_at s3 i) = (if sn_is_active sn = 0 then freq else max freq (sn_freq sn))"
    "sn_oneshots (sensor_at s3 i) = sn_oneshots sn"
    using start_prepare [OF ok ix f s2(1-4)] unfolding sn_def by blast
  have len3: "length (sm_sensors s3) = ZE_NUMSENSORS" "length (sm_sensors s) = ZE_NUMSENSORS"
    using s3(2) ok by (simp_all add: sensors_ok_length)
  have sts: "sn_streams (sensor_at s3 i) = sn_streams sn"
    using all_streams_nth [OF len3(1) ix] all_streams_nth [OF len3(2) ix] s3(3) by (simp add: sn_def)
  have sok: "sensor_ok sn" "utlist_ok (w_streams (sm_world s3))"
    using sensors_ok_at [OF ok ix] s3(2) by (simp_all add: sn_def sensors_ok_def utlists_ok_def)
  let ?new = "started_stream r reg freq"
  have reg: "register_stream (w_streams (sm_world s3)) ?new (sn_streams (sensor_at s3 i))
      = (reg \<notin> set (regs (sn_streams sn)), stream_without reg (sn_streams sn) @ [?new])"
    using register_stream_eq [OF sok(2), of "sn_streams sn" ?new] sok(1) sts
    by (simp add: sensor_ok_def stream_without_def)
  define s' where "s' = upd_sensor i (\<lambda>sn'. sn'\<lparr>sn_streams := stream_without reg (sn_streams sn) @ [?new]\<rparr>) s3"
  have "sm_start_stream s i reg freq = Inr (reg \<notin> set (regs (sn_streams sn)), s')"
    unfolding start_stream_unfold [OF mem] s1_def [symmetric] s2_def [symmetric] r_def [symmetric] gs bindR.simps
      s3(1) Let_def snd_conv reg fst_conv s'_def ..
  moreover have "sensors_ok s'"
    unfolding s'_def
    using s3(2) stream_without_snoc_ok [OF sensors_ok_at [OF s3(2) ix] started_stream_ok [OF f, of r reg]] sts
    by (intro sensors_ok_upd) simp_all
  moreover have "sensor_at s' i = (sensor_at s3 i)\<lparr>sn_streams := stream_without reg (sn_streams sn) @ [?new]\<rparr>"
    unfolding s'_def by (simp add: sensor_at_upd [OF len3(1) ix ix])
  ultimately show ?thesis
    using s3 by (intro exI [of _ s'] exI [of _ r]) (simp add: s'_def all_streams_upd)
qed


section \<open>What stopping a stream does\<close>

lemma stop_stream_unknown:
  "sensor_ix i \<Longrightarrow> reg \<notin> set (regs (sn_streams (sensor_at s i))) \<Longrightarrow> sm_stop_stream s i reg = Inr (SM_ERROR, s)"
  by (simp add: sm_stop_stream_def get_sensor_def sm_find_stream_def find_reg_None [THEN iffD2])

lemma stop_stream_known:
  assumes ok: "sensors_ok s" and ix: "sensor_ix i" and reg: "reg \<in> set (regs (sn_streams (sensor_at s i)))"
  defines "rest \<equiv> stream_without reg (sn_streams (sensor_at s i))"
  defines "s1 \<equiv> upd_sensor i (\<lambda>sn. sn\<lparr>sn_streams := rest\<rparr>) s"
  shows "sm_stop_stream s i reg =
    (if rest = [] \<and> sn_oneshots (sensor_at s i) = []
     then bindR (android_sensor_turnoff s1 i) (\<lambda>x. Inr (0, upd_sensor i (\<lambda>sn. sn\<lparr>sn_freq := 0\<rparr>) (snd x)))
     else if rest = [] then Inl NullDeref
     else bindR (android_sensor_changef (upd_sensor i (\<lambda>sn. sn\<lparr>sn_freq := Max (st_freq ` set rest)\<rparr>) s1) i
                  (Max (st_freq ` set rest))) (\<lambda>x. Inr (0, snd x)))"
proof -
  let ?sts = "sn_streams (sensor_at s i)"
  have U: "utlist_ok (w_streams (sm_world s))" and d: "distinct (regs ?sts)"
    using ok sensors_ok_at [OF ok ix] by (simp_all add: sensors_ok_def utlists_ok_def sensor_ok_def)
  from reg obtain k where k: "find_reg ?sts reg = Some k"
    using find_reg_None [of ?sts reg] by (cases "find_reg ?sts reg") auto
  have rest: "ll_delete (w_streams (sm_world s)) ?sts k = rest"
    using find_reg_Some [OF k] delete_found [OF d k] by (simp add: utlist_delete [OF U] rest_def stream_without_def)
  show ?thesis
  proof (cases rest)
    case Nil
    with k ix rest show ?thesis
      by (simp add: sm_stop_stream_def get_sensor_def sm_find_stream_def s1_def Let_def split_def)
  next
    case (Cons a list)
    then have "max_freq (st_freq a) rest = Max (st_freq ` set rest)"
      by (simp add: max_freq_eq insert_absorb)
    with k ix rest Cons show ?thesis
      by (simp add: sm_stop_stream_def get_sensor_def sm_find_stream_def s1_def Let_def split_def
          del: max_freq.simps list.set)
  qed
qed

lemma stop_stream_effect:
  assumes ok: "sensors_ok s" and ix: "sensor_ix i" and reg: "reg \<in> set (regs (sn_streams (sensor_at s i)))"
  defines "sn \<equiv> sensor_at s i"
  defines "rest \<equiv> stream_without reg (sn_streams sn)"
  assumes no: "rest \<noteq> [] \<or> sn_oneshots sn = []"
  shows "\<exists>s'. sm_stop_stream s i reg = Inr (0, s') \<and> sensors_ok s' \<and> rest_of_state s' = rest_of_state s
    \<and> all_streams s' = (all_streams s)[nat i := rest]
    \<and> sn_freq (sensor_at s' i) = (if rest = [] then 0 else Max (st_freq ` set rest))
    \<and> sn_oneshots (sensor_at s' i) = sn_oneshots sn"
proof -
  define s1 where "s1 = upd_sensor i (\<lambda>sn. sn\<lparr>sn_streams := rest\<rparr>) s"
  have len: "length (sm_sensors s) = ZE_NUMSENSORS" "length (sm_sensors s1) = ZE_NUMSENSORS"
    using ok by (simp_all add: s1_def sensors_ok_length)
  have s1: "sensors_ok s1" "all_streams s1 = (all_streams s)[nat i := rest]"
    "sensor_at s1 i = sn\<lparr>sn_streams := rest\<rparr>" "rest_of_state s1 = rest_of_state s"
    using ok sensors_ok_at [OF ok ix] stream_without_ok [of "sensor_at s i" reg] len
    unfolding s1_def rest_def sn_def
    by (auto intro!: sensors_ok_upd simp: all_streams_upd sensor_at_upd ix)
  have ne_pos: "0 < Max (st_freq ` set rest)" if "rest \<noteq> []"
  proof -
    have "Max (st_freq ` set rest) \<in> st_freq ` set rest" using that by simp
    then show ?thesis
      using sensors_ok_at [OF ok ix] by (auto simp: sensor_ok_def rest_def sn_def stream_without_def stream_ok_def)
  qed
  show ?thesis
  proof (cases "rest = []")
    case True
    obtain r t where t: "android_sensor_turnoff s1 i = Inr (r, t)"
      using turnoff_returns [OF ix] by blast
    note fr = turnoff_frame [OF t]
    let ?s' = "upd_sensor i (\<lambda>sn. sn\<lparr>sn_freq := 0\<rparr>) t"
    have okt: "sensors_ok t" using s1(1) sensors_ok_frame [OF fr] by simp
    have "sm_stop_stream s i reg = Inr (0, ?s')"
      using stop_stream_known [OF ok ix reg] t True no
      unfolding s1_def [symmetric] rest_def [symmetric] sn_def [symmetric] by simp
    moreover have "sensors_ok ?s'"
      using okt sensors_ok_at [OF okt ix] by (intro sensors_ok_upd) simp_all
    moreover have "sensor_at ?s' i = (sensor_at t i)\<lparr>sn_freq := 0\<rparr>"
      by (simp add: sensor_at_upd ix sensors_ok_length [OF okt])
    ultimately show ?thesis
      using s1 True all_streams_frame [OF fr] hw_frame_rest [OF fr] hw_frame_sensor_at [OF fr len(2) ix]
      by (intro exI [of _ ?s']) (simp add: all_streams_freq)
  next
    case False
    let ?m = "Max (st_freq ` set rest)"
    let ?s2 = "upd_sensor i (\<lambda>sn. sn\<lparr>sn_freq := ?m\<rparr>) s1"
    obtain r t where t: "android_sensor_changef ?s2 i ?m = Inr (r, t)"
      using changef_returns [OF ix ne_pos [OF False]] by blast
    note fr = changef_frame [OF t]
    have ok2: "sensors_ok ?s2"
      using s1(1) sensors_ok_at [OF s1(1) ix] by (intro sensors_ok_upd) simp_all
    have at2: "sensor_at ?s2 i = (sensor_at s1 i)\<lparr>sn_freq := ?m\<rparr>"
      by (simp add: sensor_at_upd ix len)
    have "sm_stop_stream s i reg = Inr (0, t)"
      using stop_stream_known [OF ok ix reg] t False
      unfolding s1_def [symmetric] rest_def [symmetric] sn_def [symmetric] by simp
    then show ?thesis
      using s1 ok2 at2 False all_streams_frame [OF fr] hw_frame_rest [OF fr] sensors_ok_frame [OF fr]
        hw_frame_sensor_at [OF fr sensors_ok_length [OF ok2] ix]
      by (intro exI [of _ t]) (simp add: all_streams_freq)
  qed
qed

section \<open>Properties\<close>

text \<open>A concrete state: no streams, no requests, every answer of the world a benign one.\<close>

definition quiet_world :: world where
  "quiet_world = \<lparr>w_tick = 0, w_malloc = (\<lambda>_. True), w_rand = (\<lambda>_. 0), w_clock = (\<lambda>_. 0),
     w_handle = (\<lambda>_. Some 0), w_rc = (\<lambda>_. 0), w_wait = (\<lambda>_. (0, 1)), w_streams = plain_utlist,
     w_oneshots = plain_utlist, w_requests = plain_utlist,
     w_temp = \<lparr>rq_rtype = 0, rq_sensor = 0, rq_ticket = 0, rq_freq = 0\<rparr>, w_calls = [],
     w_issued = [], w_taken = []\<rparr>"

definition blank_sensor :: "int \<Rightarrow> sensor" where
  "blank_sensor i = \<lparr>sn_sensor = i, sn_android_handle = None, sn_carrier_thread_started = 0, sn_is_active = 0,
     sn_event_cache = zero_event, sn_cache_valid = 0, sn_streams = [], sn_oneshots = [], sn_freq = 0,
     sn_last_wts = 0, sn_last_rtpts = 0\<rparr>"

definition quiet_state :: sm_state where
  "quiet_state = \<lparr>sm_sensors = map blank_sensor [0..14], sm_carrq = the (init_carriers_queue True 0), sm_events = [],
     sm_smreqbuf = the (init_sm_buf True), sm_notbuf = the (init_coap_buf True), sm_adqueue = ADNull,
     sm_accel_log = empty_log, sm_orient_log = empty_log, sm_light_log = empty_log, sm_prox_log = empty_log,
     sm_gyro_log = empty_log, sm_world = quiet_world\<rparr>"

lemma quiet_state_ok: "sensors_ok quiet_state"
  by (simp add: sensors_ok_def quiet_state_def ZE_NUMSENSORS_def sensor_ok_def blank_sensor_def
      utlists_ok_def quiet_world_def plain_utlist_ok)


text \<open>Sensor 1 with the streams 7 (10 Hz) and 8 (20 Hz) and a oneshot.\<close>

definition busy_state :: "int list \<Rightarrow> sm_state" where
  "busy_state os = upd_sensor 1 (\<lambda>sn. sn\<lparr>sn_streams := [started_stream 0 7 10, started_stream 0 8 20],
     sn_oneshots := os, sn_freq := 20, sn_is_active := 1\<rparr>) quiet_state"

definition last_state :: "int list \<Rightarrow> sm_state" where
  "last_state os = upd_sensor 1 (\<lambda>sn. sn\<lparr>sn_streams := [started_stream 0 7 10],
     sn_oneshots := os, sn_freq := 10, sn_is_active := 1\<rparr>) quiet_state"

lemma sensor_ix_1 [simp]: "sensor_ix 1" "sensor_ix 2"
  by (simp_all add: sensor_ix_def ZE_NUMSENSORS_def)

lemma busy_state_ok: "sensors_ok (busy_state os)"
  unfolding busy_state_def by (rule sensors_ok_upd [OF quiet_state_ok]) (simp add: sensor_ok_def started_stream_ok)

lemma last_state_ok: "sensors_ok (last_state os)"
  unfolding last_state_def by (rule sensors_ok_upd [OF quiet_state_ok]) (simp add: sensor_ok_def started_stream_ok)

lemma busy_state_at:
  "sn_streams (sensor_at (busy_state os) 1) = [started_stream 0 7 10, started_stream 0 8 20]"
  "sn_oneshots (sensor_at (busy_state os) 1) = os"
  "sn_freq (sensor_at (busy_state os) 1) = 20" "sn_is_active (sensor_at (busy_state os) 1) = 1"
  using sensors_ok_length [OF quiet_state_ok] by (simp_all add: busy_state_def sensor_at_upd)

lemma busy_state_malloc: "fst (ask w_malloc (busy_state os))"
  by (simp add: ask_def busy_state_def quiet_state_def quiet_world_def)

lemma last_state_at:
  "sn_streams (sensor_at (last_state os) 1) = [started_stream 0 7 10]"
  "sn_oneshots (sensor_at (last_state os) 1) = os" "sn_is_active (sensor_at (last_state os) 1) = 1"
  using sensors_ok_length [OF quiet_state_ok] by (simp_all add: last_state_def sensor_at_upd)

text \<open>
  C11. Starting a stream on a sensor whose streams are well formed returns, whatever the
  sensor interface answers, and keeps all sensors well formed. With memory, the sensor ends up with its former
  streams without the one of that ticket, and the new stream last; the pointer is \<open>NULL\<close> exactly when a
  stream with that ticket has been replaced; the frequency of the sensor becomes the requested one when
  the sensor was off and otherwise only rises. Without memory it is \<open>NULL\<close> and no stream changes.
\<close>

theorem start_stream_spec:
  assumes "sensors_ok s" and "sensor_ix i" and "0 < freq"
  shows "\<exists>b s'. sm_start_stream s i reg freq = Inr (b, s') \<and> sensors_ok s' \<and> rest_of_state s' = rest_of_state s
    \<and> (if fst (ask w_malloc s)
       then (b \<longleftrightarrow> reg \<notin> st_reg ` set (sn_streams (sensor_at s i)))
         \<and> (\<exists>r. all_streams s' = (all_streams s)
              [nat i := stream_without reg (sn_streams (sensor_at s i)) @ [started_stream r reg freq]])
         \<and> sn_freq (sensor_at s' i) = (if sn_is_active (sensor_at s i) = 0 then freq
             else max freq (sn_freq (sensor_at s i)))
       else \<not> b \<and> all_streams s' = all_streams s)"
proof (cases "fst (ask w_malloc s)")
  case True
  from start_stream_effect [OF assms True, of reg] show ?thesis
    unfolding if_P [OF True] set_map by blast
next
  case False
  then show ?thesis
    using start_stream_nomem [OF False, of i reg freq] assms(1)
    by (intro exI [of _ False] exI [of _ "snd (ask w_malloc s)"]) simp
qed

theorem start_stream_spec_witness:
  "\<exists>b s'. sm_start_stream (busy_state []) 1 7 50 = Inr (b, s') \<and> \<not> b \<and> sn_freq (sensor_at s' 1) = 50"
  using start_stream_spec [OF busy_state_ok [of "[]"] sensor_ix_1(1), where freq = 50 and reg = 7]
  by (auto simp: busy_state_at busy_state_malloc)

text \<open>
  C10. Stopping a stream, every case: an unknown ticket gives \<open>SM_ERROR\<close> and changes nothing; stopping the
  last stream of a sensor on which a oneshot is still pending goes through a null pointer (the new frequency
  is read from the first stream of the list, which is empty by then); in every other case the known stream is
  removed, and only it, with result 0, and the frequency of the sensor becomes the highest of the streams that
  are left, and 0 when none is left.
\<close>

theorem stop_stream_spec:
  assumes "sensors_ok s" and "sensor_ix i"
  shows "if reg \<notin> st_reg ` set (sn_streams (sensor_at s i)) then sm_stop_stream s i reg = Inr (SM_ERROR, s)
    else if stream_without reg (sn_streams (sensor_at s i)) = [] \<and> sn_oneshots (sensor_at s i) \<noteq> []
    then sm_stop_stream s i reg = Inl NullDeref
    else \<exists>s'. sm_stop_stream s i reg = Inr (0, s') \<and> sensors_ok s' \<and> rest_of_state s' = rest_of_state s
      \<and> all_streams s' = (all_streams s)[nat i := stream_without reg (sn_streams (sensor_at s i))]
      \<and> sn_freq (sensor_at s' i) = (if stream_without reg (sn_streams (sensor_at s i)) = [] then 0
          else Max (st_freq ` set (stream_without reg (sn_streams (sensor_at s i)))))
      \<and> sn_oneshots (sensor_at s' i) = sn_oneshots (sensor_at s i)"
  using stop_stream_unknown [OF assms(2), of reg s] stop_stream_known [OF assms, of reg]
    stop_stream_effect [OF assms, of reg]
  by (simp split: if_splits)

theorem stop_stream_spec_witness:
  "(\<exists>s'. sm_stop_stream (busy_state []) 1 8 = Inr (0, s') \<and> sn_freq (sensor_at s' 1) = 10)
    \<and> sm_stop_stream (busy_state []) 1 5 = Inr (SM_ERROR, busy_state [])"
  using stop_stream_spec [OF busy_state_ok [of "[]"] sensor_ix_1(1), where reg = 8]
    stop_stream_spec [OF busy_state_ok [of "[]"] sensor_ix_1(1), where reg = 5]
  by (auto simp: busy_state_at stream_without_def)

lemma only_stream_iff:
  assumes "distinct (regs sts)"
  shows "reg \<in> set (regs sts) \<and> stream_without reg sts = [] \<longleftrightarrow> regs sts = [reg]"
proof (cases sts)
  case (Cons a as)
  with assms show ?thesis
    by (cases as) (auto simp: stream_without_def filter_empty_conv)
qed simp

text \<open>
  \<open>sm_stop_stream\<close> reads through a null pointer exactly when the stream it stops is the last of its
  sensor and a oneshot is still pending there: the reconsideration of the frequency takes the first stream
  of an empty list.
\<close>

theorem stop_stream_null_iff:
  assumes "sensors_ok s" and "sensor_ix i"
  shows "sm_stop_stream s i reg = Inl NullDeref
    \<longleftrightarrow> map st_reg (sn_streams (sensor_at s i)) = [reg] \<and> sn_oneshots (sensor_at s i) \<noteq> []"
proof -
  let ?sts = "sn_streams (sensor_at s i)"
  have d: "distinct (regs ?sts)" using sensors_ok_at [OF assms] by (simp add: sensor_ok_def)
  have one: "reg \<in> set (regs ?sts) \<and> stream_without reg ?sts = [] \<longleftrightarrow> regs ?sts = [reg]"
    using d by (rule only_stream_iff)
  show ?thesis
  proof (cases "reg \<in> set (regs ?sts)")
    case True
    note known = True
    show ?thesis
    proof (cases "stream_without reg ?sts = [] \<and> sn_oneshots (sensor_at s i) \<noteq> []")
      case True
      then have "sm_stop_stream s i reg = Inl NullDeref"
        unfolding stop_stream_known [OF assms known] by simp
      with one known True show ?thesis by simp
    next
      case False
      then obtain s' where "sm_stop_stream s i reg = Inr (0, s')"
        using stop_stream_effect [OF assms known] by blast
      with one known False show ?thesis by simp
    qed
  next
    case False
    then show ?thesis
      using stop_stream_unknown [OF assms(2) False] one by auto
  qed
qed

theorem stop_stream_null_iff_witness:
  "sm_stop_stream (last_state [9]) 1 7 = Inl NullDeref \<and> sm_stop_stream (last_state []) 1 7 \<noteq> Inl NullDeref"
  using stop_stream_null_iff [OF last_state_ok [of "[9]"] sensor_ix_1(1), where reg = 7]
    stop_stream_null_iff [OF last_state_ok [of "[]"] sensor_ix_1(1), where reg = 7]
  by (simp add: last_state_at)

text \<open>
  No stream asks for more than its sensor delivers: starting a stream on a sensor that is active, or has no stream,
  and stopping one keep every stream's frequency at or below the sensor's.
\<close>

theorem frequency_covers_streams:
  assumes "sensors_ok s" and "sensor_ix i" and "0 < freq" and "freq_ok (sensor_at s i)"
    and "sn_is_active (sensor_at s i) \<noteq> 0 \<or> sn_streams (sensor_at s i) = []"
  shows "(sm_start_stream s i reg freq = Inr (b, s') \<longrightarrow> freq_ok (sensor_at s' i))
    \<and> (sm_stop_stream s i reg = Inr (e, s') \<longrightarrow> freq_ok (sensor_at s' i))"
proof -
  have at: "sn_streams (sensor_at t i) = all_streams t ! nat i" if "sensors_ok t" for t
    using all_streams_nth [OF sensors_ok_length [OF that] assms(2)] by simp
  have lt: "nat i < length (all_streams s)"
    using assms(2) sensors_ok_length [OF assms(1)] by (simp add: all_streams_def sensor_ix_def nat_less_iff)
  have "freq_ok (sensor_at s' i)" if st: "sm_start_stream s i reg freq = Inr (b, s')"
  proof (cases "fst (ask w_malloc s)")
    case True
    obtain r where "sensors_ok s'"
      and "all_streams s' = (all_streams s)[nat i := stream_without reg (sn_streams (sensor_at s i)) @ [started_stream r reg freq]]"
      and "sn_freq (sensor_at s' i) = (if sn_is_active (sensor_at s i) = 0 then freq else max freq (sn_freq (sensor_at s i)))"
      using start_stream_effect [OF assms(1-3) True, of reg] st by auto
    with at [of s'] lt assms(4,5) show ?thesis
      by (auto simp: freq_ok_def stream_without_def)
  qed (use st start_stream_nomem [of s i reg freq] assms(4) in auto)
  moreover have "freq_ok (sensor_at s' i)" if st: "sm_stop_stream s i reg = Inr (e, s')"
  proof (cases "reg \<in> set (regs (sn_streams (sensor_at s i)))")
    case True
    let ?rest = "stream_without reg (sn_streams (sensor_at s i))"
    have "?rest \<noteq> [] \<or> sn_oneshots (sensor_at s i) = []"
      using stop_stream_known [OF assms(1,2) True] st by (auto split: if_splits)
    from stop_stream_effect [OF assms(1,2) True this] st
    have "sensors_ok s'" "all_streams s' = (all_streams s)[nat i := ?rest]"
      "sn_freq (sensor_at s' i) = (if ?rest = [] then 0 else Max (st_freq ` set ?rest))"
      by auto
    with at [of s'] lt show ?thesis by (auto simp: freq_ok_def)
  qed (use st stop_stream_unknown [OF assms(2), of reg s] assms(4) in simp)
  ultimately show ?thesis by blast
qed

theorem frequency_covers_streams_witness:
  "\<exists>s'. sm_stop_stream (busy_state []) 1 8 = Inr (0, s') \<and> freq_ok (sensor_at s' 1)"
proof -
  have fr: "freq_ok (sensor_at (busy_state []) 1)"
    by (simp add: busy_state_at freq_ok_def)
  obtain s' where st: "sm_stop_stream (busy_state []) 1 8 = Inr (0, s')"
    using stop_stream_effect [OF busy_state_ok [of "[]"] sensor_ix_1(1), where reg = 8]
    by (auto simp: busy_state_at stream_without_def)
  with frequency_covers_streams [OF busy_state_ok [of "[]"] sensor_ix_1(1), where freq = 10 and reg = 8
      and e = 0 and s' = s'] fr
  show ?thesis by (auto simp: busy_state_at)
qed

end
