(* ===== verification/Helpers.thy ===== *)
theory Helpers
  imports Streams
begin

text \<open>
  The anti-deadlock wrappers of \<open>ze_streaming_manager.c\<close>, \<open>put_response_helper\<close> and
  \<open>get_request_helper\<close>. Both take the head of the internal queue of deferred requests by value: the model
  keeps the caller's pointer in the state and the wrapper's copy as a local. The loop of
  \<open>put_response_helper\<close> goes on for as long as the wait times out, so it has fuel.
\<close>

section \<open>Waiting for room\<close>

text \<open>What the CoAP server does during one timed wait: it takes \<open>k\<close> responses.\<close>

fun take_responses :: "nat \<Rightarrow> response_buf \<Rightarrow> response_buf" where
  "take_responses 0 b = b"
| "take_responses (Suc k) b = take_responses k (snd (get_response_buf_item zero_response b))"

definition wait_of :: "int \<times> nat \<Rightarrow> response_buf \<Rightarrow> int \<times> response_buf" where
  "wait_of a b = (fst a, take_responses (snd a) b)"

definition put_response :: "sm_state \<Rightarrow> int \<Rightarrow> int \<Rightarrow> sm_packet option \<Rightarrow> int \<times> sm_state" where
  "put_response s rtype ticket pk =
     (let (a, s1) = (if COAP_RBUF_SIZE \<le> counter (sm_notbuf s) then ask w_wait s else ((0, 0), s));
          (result, b) = put_response_buf_item (wait_of a) (sm_notbuf s1) rtype ticket pk
      in (result, (note_taken (take (snd a) (responses (sm_notbuf s1))) s1)\<lparr>sm_notbuf := b\<rparr>))"

definition get_request :: "sm_state \<Rightarrow> sm_request \<times> sm_state" where
  "get_request s =
     (let (req, b) = get_request_buf_item (w_temp (sm_world s)) (sm_smreqbuf s)
      in (req, s\<lparr>sm_smreqbuf := b\<rparr>))"

section \<open>The wrappers\<close>

text \<open>\<open>LL_APPEND\<close> through a copy of the pointer.\<close>

fun ad_append :: "sm_request utlist \<Rightarrow> ad_pointer \<Rightarrow> sm_request \<Rightarrow> ad_pointer outcome" where
  "ad_append U ADNull req = Inr (ADNodes (ll_append U [] req))"
| "ad_append U (ADNodes reqs) req = Inr (ADNodes (ll_append U reqs req))"
| "ad_append U ADDangling req = Inl UseAfterFree"

fun deadlock_loop :: "nat \<Rightarrow> ad_pointer \<Rightarrow> int \<Rightarrow> int \<Rightarrow> sm_packet option \<Rightarrow> int \<Rightarrow> sm_state
    \<Rightarrow> (int \<times> ad_pointer \<times> sm_state) outcome" where
  "deadlock_loop 0 adqueue rtype ticket pk result s =
     (if result = ETIMEDOUT then Inl StillWaiting else Inr (1, adqueue, s))"
| "deadlock_loop (Suc n) adqueue rtype ticket pk result s =
     (if result \<noteq> ETIMEDOUT then Inr (1, adqueue, s)
      else
        let (ok, s1) = ask w_malloc s
        in if \<not> ok then Inr (-1, adqueue, s1)
           else
             let (req, s2) = get_request s1
             in bindR (ad_append (w_requests (sm_world s2)) adqueue req) (\<lambda>adqueue'.
                let (result', s3) = put_response s2 rtype ticket pk
                in deadlock_loop n adqueue' rtype ticket pk result' s3))"

text \<open>
  When the caller's pointer is \<open>NULL\<close> the nodes hang from the local copy only; otherwise
  the caller sees the nodes appended behind its own.
\<close>

definition put_response_helper :: "nat \<Rightarrow> sm_state \<Rightarrow> int \<Rightarrow> int \<Rightarrow> sm_packet option \<Rightarrow> (int \<times> sm_state) outcome" where
  "put_response_helper fuel s rtype ticket pk =
     (let (result, s1) = put_response s rtype ticket pk
      in bindR (deadlock_loop fuel (sm_adqueue s1) rtype ticket pk result s1) (\<lambda>(r, adqueue, s2).
         Inr (r, if sm_adqueue s2 = ADNull then s2 else s2\<lparr>sm_adqueue := adqueue\<rparr>)))"

text \<open>The head is freed, and the caller's pointer still points at it.\<close>

definition get_request_helper :: "sm_state \<Rightarrow> (sm_request \<times> sm_state) outcome" where
  "get_request_helper s =
     (case sm_adqueue s of
        ADNull \<Rightarrow> Inr (get_request s)
      | ADNodes (req # _) \<Rightarrow> Inr (req, s\<lparr>sm_adqueue := ADDangling\<rparr>)
      | ADNodes [] \<Rightarrow> Inl UseAfterFree
      | ADDangling \<Rightarrow> Inl UseAfterFree)"

section \<open>What the buffers hold afterwards\<close>

lemma take_responses_wf: "resbuf_wf b \<Longrightarrow> resbuf_wf (take_responses k b)"
  by (induction k arbitrary: b) (simp_all add: get_response_wf)

lemma take_responses_list:
  "resbuf_wf b \<Longrightarrow> responses (take_responses k b) = drop k (responses b)"
proof (induction k arbitrary: b)
  case (Suc k)
  show ?case
  proof (cases "counter b = 0")
    case True
    then have "responses b = []" by simp
    moreover have "take_responses (Suc k) b = take_responses k b"
      using True by (simp add: get_response_empty)
    ultimately show ?thesis using Suc by simp
  next
    case False
    obtain q b' where g: "get_response_buf_item zero_response b = (q, b')" by force
    with False Suc.prems have "responses b = q # responses b'" "resbuf_wf b'"
      using responses_remove [OF Suc.prems g] by simp_all
    with Suc.IH [of b'] g show ?thesis by simp
  qed
qed simp

text \<open>
  A good answer of a timed wait on a valid condition and mutex: 0 only when the CoAP server took
  something (no spurious wakeup), else \<open>ETIMEDOUT\<close>.
\<close>

definition wait_ok :: "int \<times> nat \<Rightarrow> bool" where
  "wait_ok a \<longleftrightarrow> fst a = 0 \<and> 0 < snd a \<or> fst a = ETIMEDOUT"

definition world_ok :: "world \<Rightarrow> bool" where
  "world_ok w \<longleftrightarrow> (\<forall>n. wait_ok (w_wait w n))"

definition buffers_ok :: "sm_state \<Rightarrow> bool" where
  "buffers_ok s \<longleftrightarrow> resbuf_wf (sm_notbuf s) \<and> reqbuf_wf (sm_smreqbuf s) \<and> world_ok (sm_world s)
     \<and> utlists_ok (sm_world s)"

lemma world_ok_note [simp]:
  "world_ok (sm_world (note_taken rs s)) = world_ok (sm_world s)" "world_ok (sm_world (note_issued q s)) = world_ok (sm_world s)"
  by (simp_all add: world_ok_def)

lemma world_ok_ask [simp]: "world_ok (sm_world (snd (ask f s))) = world_ok (sm_world s)"
  by (simp add: ask_def world_ok_def)

lemma ask_fields [simp]:
  "sm_notbuf (snd (ask f s)) = sm_notbuf s" "sm_smreqbuf (snd (ask f s)) = sm_smreqbuf s"
  "sm_adqueue (snd (ask f s)) = sm_adqueue s" "sm_events (snd (ask f s)) = sm_events s"
  "sm_carrq (snd (ask f s)) = sm_carrq s"
  by (simp_all add: ask_def)

text \<open>One put: the response is stored behind what the server left, or nothing is stored.\<close>

lemma put_response_room_eq:
  "counter (sm_notbuf s) < COAP_RBUF_SIZE \<Longrightarrow> put_response s rt t pk =
     (0, s\<lparr>sm_notbuf := ring_insert COAP_RBUF_SIZE \<lparr>rs_rtype = rt, rs_ticket = t, rs_pk = pk\<rparr> (sm_notbuf s)\<rparr>)"
  by (simp add: put_response_def put_response_room)

lemma put_response_effect:
  assumes "buffers_ok s" and "put_response s rt t pk = (r, s')"
  shows "buffers_ok s' \<and> sm_sensors s' = sm_sensors s \<and> sm_adqueue s' = sm_adqueue s
    \<and> sm_smreqbuf s' = sm_smreqbuf s \<and> (r = 0 \<or> r = ETIMEDOUT)
    \<and> (\<exists>k. responses (sm_notbuf s') = drop k (responses (sm_notbuf s)) @
          (if r = 0 then [\<lparr>rs_rtype = rt, rs_ticket = t, rs_pk = pk\<rparr>] else []))"
proof (cases "counter (sm_notbuf s) < COAP_RBUF_SIZE")
  case True
  with assms show ?thesis
    by (auto simp: put_response_room_eq buffers_ok_def ring_laws intro: exI [of _ 0])
next
  case False
  define a where "a = fst (ask w_wait s)"
  define b where "b = take_responses (snd a) (sm_notbuf s)"
  have wf: "resbuf_wf (sm_notbuf s)" and wok: "wait_ok a"
    using assms(1) by (simp_all add: buffers_ok_def world_ok_def a_def ask_def)
  have b: "resbuf_wf b" "responses b = drop (snd a) (responses (sm_notbuf s))"
    using wf by (simp_all add: b_def take_responses_wf take_responses_list)
  have full: "counter (sm_notbuf s) = COAP_RBUF_SIZE"
    using False wf ring_wf_counter [OF wf] by simp
  have cb: "counter b = COAP_RBUF_SIZE - snd a"
    using arg_cong [OF b(2), of length] full by simp
  show ?thesis
  proof (cases "fst a = 0")
    case True
    then have "counter b < COAP_RBUF_SIZE"
      using wok cb COAP_RBUF_SIZE_pos by (simp add: wait_ok_def ETIMEDOUT_def)
    with True False assms b show ?thesis
      by (auto simp: put_response_def put_response_full_ok wait_of_def a_def [symmetric] b_def [symmetric]
          split_def buffers_ok_def ring_laws Let_def)
  next
    case nz: False
    then have "fst a = ETIMEDOUT" using wok by (simp add: wait_ok_def)
    with nz False assms b show ?thesis
      by (auto simp: put_response_def put_response_full_fail wait_of_def a_def [symmetric] b_def [symmetric]
          split_def buffers_ok_def Let_def)
  qed
qed


lemma get_request_effect:
  assumes "buffers_ok s" and "get_request s = (q, s')"
  shows "buffers_ok s' \<and> sm_sensors s' = sm_sensors s \<and> sm_adqueue s' = sm_adqueue s
    \<and> sm_notbuf s' = sm_notbuf s \<and> sm_world s' = sm_world s
    \<and> requests (sm_smreqbuf s') = drop 1 (requests (sm_smreqbuf s))
    \<and> (if requests (sm_smreqbuf s) = [] then rq_rtype q = SM_REQ_INVALID
       else q = hd (requests (sm_smreqbuf s)))"
proof (cases "counter (sm_smreqbuf s) = 0")
  case True
  then have "requests (sm_smreqbuf s) = []" by simp
  with True assms show ?thesis
    by (auto simp: get_request_def get_request_empty)
next
  case False
  obtain p b where g: "get_request_buf_item (w_temp (sm_world s)) (sm_smreqbuf s) = (p, b)" by force
  with False assms(1) have "requests (sm_smreqbuf s) = p # requests b" "reqbuf_wf b"
    using requests_remove [OF _ g] by (simp_all add: buffers_ok_def)
  with g assms show ?thesis
    by (auto simp: get_request_def buffers_ok_def)
qed

lemma deadlock_loop_done:
  "r \<noteq> ETIMEDOUT \<Longrightarrow> deadlock_loop n ad rt t pk r s = Inr (1, ad, s)"
  by (cases n) simp_all

text \<open>
  What the loop does: it only takes requests out of the request buffer and responses pass through
  the response buffer in order, the one to put behind all others when the loop ends with 1.
\<close>

lemma deadlock_loop_effect:
  assumes "buffers_ok s" and "deadlock_loop n ad rt t pk r s = Inr (q, ad', s')"
    and "r = 0 \<or> r = ETIMEDOUT"
  shows "buffers_ok s' \<and> sm_sensors s' = sm_sensors s \<and> sm_adqueue s' = sm_adqueue s
    \<and> (q = 1 \<or> q = -1)
    \<and> (\<exists>m. requests (sm_smreqbuf s') = drop m (requests (sm_smreqbuf s)) \<and> (r = ETIMEDOUT \<and> q = 1 \<longrightarrow> 0 < m))
    \<and> (\<exists>k. responses (sm_notbuf s') = drop k (responses (sm_notbuf s)) @
          (if r = ETIMEDOUT \<and> q = 1 then [\<lparr>rs_rtype = rt, rs_ticket = t, rs_pk = pk\<rparr>] else []))"
  using assms
proof (induction n arbitrary: ad r s)
  case 0
  then show ?case by (auto split: if_splits intro: exI [of _ 0])
next
  case (Suc n)
  show ?case
  proof (cases "r = ETIMEDOUT \<and> fst (ask w_malloc s)")
    case False
    with Suc.prems show ?thesis
      by (auto simp: Let_def split_def buffers_ok_def intro: exI [of _ 0] split: if_splits)
  next
    case True
    define s1 where "s1 = snd (ask w_malloc s)"
    obtain req s2 where g: "get_request s1 = (req, s2)" by force
    obtain r' s3 where p: "put_response s2 rt t pk = (r', s3)" by force
    have b1: "buffers_ok s1" using Suc.prems(1) by (simp add: s1_def buffers_ok_def)
    note ge = get_request_effect [OF b1 g]
    have b2: "buffers_ok s2" using ge by simp
    note pe = put_response_effect [OF b2 p]
    have b3: "buffers_ok s3" and r': "r' = 0 \<or> r' = ETIMEDOUT" using pe by auto
    from True Suc.prems(2) g p obtain ad1 where
      run: "deadlock_loop n ad1 rt t pk r' s3 = Inr (q, ad', s')"
      by (auto simp: s1_def [symmetric] Let_def split_def bindR_Inr_iff)
    obtain j where j: "responses (sm_notbuf s3) = drop j (responses (sm_notbuf s)) @
        (if r' = 0 then [\<lparr>rs_rtype = rt, rs_ticket = t, rs_pk = pk\<rparr>] else [])"
      using pe ge by (auto simp: s1_def)
    show ?thesis
    proof (cases "r' = ETIMEDOUT")
      case False
      then have "q = 1" "s' = s3" "r' = 0"
        using run r' by (simp_all add: deadlock_loop_done)
      with b3 pe ge j True show ?thesis
        by (auto simp: s1_def intro!: exI [of _ "1::nat"])
    next
      case tm: True
      note ih = Suc.IH [OF b3 run r']
      obtain m where m: "requests (sm_smreqbuf s') = drop m (requests (sm_smreqbuf s3))" using ih by blast
      obtain k where k: "responses (sm_notbuf s') = drop k (responses (sm_notbuf s3)) @
          (if q = 1 then [\<lparr>rs_rtype = rt, rs_ticket = t, rs_pk = pk\<rparr>] else [])"
        using ih tm by auto
      have "requests (sm_smreqbuf s') = drop (m + 1) (requests (sm_smreqbuf s))"
        using m ge pe by (simp add: s1_def)
      moreover have "responses (sm_notbuf s') = drop (k + j) (responses (sm_notbuf s)) @
          (if q = 1 then [\<lparr>rs_rtype = rt, rs_ticket = t, rs_pk = pk\<rparr>] else [])"
        using k j tm by (simp add: ETIMEDOUT_def)
      moreover have "0 < m + 1" by simp
      moreover have "buffers_ok s'" "sm_sensors s' = sm_sensors s" "sm_adqueue s' = sm_adqueue s" "q = 1 \<or> q = -1"
        using ih pe ge by (simp_all add: s1_def)
      ultimately show ?thesis using True by auto
    qed
  qed
qed


abbreviation response :: "int \<Rightarrow> int \<Rightarrow> sm_packet option \<Rightarrow> sm_response" where
  "response rt t pk \<equiv> \<lparr>rs_rtype = rt, rs_ticket = t, rs_pk = pk\<rparr>"

lemma put_response_timeout:
  assumes "COAP_RBUF_SIZE \<le> counter (sm_notbuf s)" and "fst (fst (ask w_wait s)) = ETIMEDOUT"
  shows "fst (put_response s rt t pk) = ETIMEDOUT"
  using assms by (simp add: put_response_def split_def Let_def wait_of_def put_response_buf_item_def ETIMEDOUT_def)

lemma helper_effect:
  assumes "buffers_ok s" and "sm_adqueue s = ADNull" and "put_response_helper fuel s rt t pk = Inr (q, s')"
  shows "buffers_ok s' \<and> sm_sensors s' = sm_sensors s \<and> sm_adqueue s' = ADNull \<and> (q = 1 \<or> q = -1)
    \<and> (\<exists>m. requests (sm_smreqbuf s') = drop m (requests (sm_smreqbuf s))
          \<and> (COAP_RBUF_SIZE \<le> counter (sm_notbuf s) \<and> fst (fst (ask w_wait s)) = ETIMEDOUT \<and> q = 1 \<longrightarrow> 0 < m))
    \<and> (\<exists>k. responses (sm_notbuf s') = drop k (responses (sm_notbuf s)) @ (if q = 1 then [response rt t pk] else []))"
proof -
  obtain r s1 where p: "put_response s rt t pk = (r, s1)" by force
  note pe = put_response_effect [OF assms(1) p]
  have r: "r = 0 \<or> r = ETIMEDOUT" and b1: "buffers_ok s1" and ad1: "sm_adqueue s1 = ADNull"
    using pe assms(2) by auto
  obtain ad s2 where run: "deadlock_loop fuel ADNull rt t pk r s1 = Inr (q, ad, s2)"
    and s': "s' = (if sm_adqueue s2 = ADNull then s2 else s2\<lparr>sm_adqueue := ad\<rparr>)"
    using assms(3) p ad1 by (auto simp: put_response_helper_def bindR_Inr_iff)
  obtain j where j: "responses (sm_notbuf s1) = drop j (responses (sm_notbuf s)) @ (if r = 0 then [response rt t pk] else [])"
    using pe by blast
  show ?thesis
  proof (cases "r = ETIMEDOUT")
    case True
    note de = deadlock_loop_effect [OF b1 run r]
    have "s' = s2" using s' de ad1 by simp
    moreover obtain m where "requests (sm_smreqbuf s2) = drop m (requests (sm_smreqbuf s1))" "q = 1 \<longrightarrow> 0 < m"
      using de True by blast
    moreover obtain k where "responses (sm_notbuf s2) = drop k (responses (sm_notbuf s1)) @
        (if q = 1 then [response rt t pk] else [])"
      using de True by auto
    moreover have "responses (sm_notbuf s1) = drop j (responses (sm_notbuf s))"
      using j True by (simp add: ETIMEDOUT_def)
    moreover have "sm_smreqbuf s1 = sm_smreqbuf s" "sm_sensors s1 = sm_sensors s"
      using pe by simp_all
    moreover have "buffers_ok s2" "sm_sensors s2 = sm_sensors s1" "sm_adqueue s2 = ADNull" "q = 1 \<or> q = -1"
      using de ad1 by simp_all
    ultimately have "requests (sm_smreqbuf s') = drop m (requests (sm_smreqbuf s)) \<and> (q = 1 \<longrightarrow> 0 < m)"
      "responses (sm_notbuf s') = drop (k + j) (responses (sm_notbuf s)) @ (if q = 1 then [response rt t pk] else [])"
      "buffers_ok s'" "sm_sensors s' = sm_sensors s" "sm_adqueue s' = ADNull" "q = 1 \<or> q = -1"
      by simp_all
    then show ?thesis by blast
  next
    case False
    then have "q = 1" "s2 = s1" using run by (simp_all add: deadlock_loop_done)
    moreover have "\<not> (COAP_RBUF_SIZE \<le> counter (sm_notbuf s) \<and> fst (fst (ask w_wait s)) = ETIMEDOUT)"
      using put_response_timeout [of s rt t pk] p False by auto
    ultimately show ?thesis
      using s' ad1 pe j False r by (auto intro: exI [of _ 0])
  qed
qed

lemma helper_room:
  assumes "counter (sm_notbuf s) < COAP_RBUF_SIZE"
  shows "put_response_helper fuel s rt t pk =
    Inr (1, s\<lparr>sm_notbuf := ring_insert COAP_RBUF_SIZE (response rt t pk) (sm_notbuf s)\<rparr>)"
  using put_response_room_eq [OF assms, of rt t pk]
  by (cases s) (simp add: put_response_helper_def deadlock_loop_done ETIMEDOUT_def)

text \<open>The wrappers do not touch the events.\<close>

lemma put_response_keeps:
  "sm_events (snd (put_response s rt t pk)) = sm_events s \<and> sm_carrq (snd (put_response s rt t pk)) = sm_carrq s"
  by (simp add: put_response_def split_def Let_def)

lemma get_request_keeps:
  "sm_events (snd (get_request s)) = sm_events s \<and> sm_carrq (snd (get_request s)) = sm_carrq s"
  by (simp add: get_request_def split_def Let_def)

lemma deadlock_loop_keeps:
  "deadlock_loop n ad rt t pk r s = Inr (q, ad', s') \<Longrightarrow> sm_events s' = sm_events s \<and> sm_carrq s' = sm_carrq s"
proof (induction n arbitrary: ad r s)
  case (Suc n)
  then show ?case
    using put_response_keeps get_request_keeps
    by (fastforce simp: Let_def split_def bindR_Inr_iff split: if_splits)
qed (simp split: if_splits)

lemma helper_keeps:
  "put_response_helper fuel s rt t pk = Inr (q, s') \<Longrightarrow> sm_events s' = sm_events s \<and> sm_carrq s' = sm_carrq s"
  using put_response_keeps [of s rt t pk]
  by (auto simp: put_response_helper_def split_def Let_def bindR_Inr_iff split: if_splits dest!: deadlock_loop_keeps)

text \<open>The only way not to return is to run out of fuel, when the caller's queue is \<open>NULL\<close>.\<close>

lemma deadlock_loop_fault:
  "ad \<noteq> ADDangling \<Longrightarrow> deadlock_loop n ad rt t pk r s = Inl e \<Longrightarrow> e = StillWaiting"
proof (induction n arbitrary: ad r s)
  case (Suc n)
  show ?case
  proof (cases ad)
    case ADNull
    with Suc show ?thesis by (auto simp: Let_def split_def split: if_splits)
  next
    case (ADNodes reqs)
    with Suc show ?thesis by (auto simp: Let_def split_def split: if_splits)
  qed (use Suc.prems in simp)
qed (simp split: if_splits)

lemma helper_fault:
  assumes "buffers_ok s" and "sm_adqueue s = ADNull" and "put_response_helper fuel s rt t pk = Inl e"
  shows "e = StillWaiting"
proof -
  obtain r s1 where p: "put_response s rt t pk = (r, s1)" by force
  have "sm_adqueue s1 = ADNull" using put_response_effect [OF assms(1) p] assms(2) by simp
  with p assms(3) show ?thesis
    using deadlock_loop_fault [of ADNull]
    by (auto simp: put_response_helper_def bindR_Inl_iff)
qed

text \<open>Every round takes two answers of the world: one \<open>malloc\<close> and one wait.\<close>

lemma deadlock_loop_returns:
  assumes "ad \<noteq> ADDangling" and "j < n"
    and "fst (w_wait (sm_world s) (w_tick (sm_world s) + 1 + 2 * j)) \<noteq> ETIMEDOUT"
  shows "deadlock_loop n ad rt t pk r s \<noteq> Inl StillWaiting"
  using assms
proof (induction n arbitrary: ad r s j)
  case (Suc n)
  show ?case
  proof (cases "r = ETIMEDOUT \<and> fst (ask w_malloc s)")
    case True
    define s2 where "s2 = snd (get_request (snd (ask w_malloc s)))"
    obtain r' s3 where p: "put_response s2 rt t pk = (r', s3)" by force
    have w2: "sm_world s2 = (sm_world s)\<lparr>w_tick := w_tick (sm_world s) + 1\<rparr>"
      by (simp add: s2_def get_request_def split_def Let_def ask_def)
    obtain ad1 where ad1: "ad_append (w_requests (sm_world s2)) ad (fst (get_request (snd (ask w_malloc s)))) = Inr ad1"
      "ad1 \<noteq> ADDangling"
      using Suc.prems(1) by (cases ad) auto
    have step: "deadlock_loop (Suc n) ad rt t pk r s = deadlock_loop n ad1 rt t pk r' s3"
      using True ad1 p by (simp add: Let_def split_def s2_def)
    show ?thesis
    proof (cases "r' = ETIMEDOUT")
      case False
      then show ?thesis using step by (simp add: deadlock_loop_done)
    next
      case tm: True
      then have full: "COAP_RBUF_SIZE \<le> counter (sm_notbuf s2)"
        using p put_response_room_eq [of s2 rt t pk] by (fastforce simp: ETIMEDOUT_def)
      have w3: "w_wait (sm_world s3) = w_wait (sm_world s)" "w_tick (sm_world s3) = w_tick (sm_world s) + 2"
        using p full w2 by (auto simp: put_response_def ask_def split_def Let_def)
      have now: "fst (w_wait (sm_world s) (w_tick (sm_world s) + 1)) = ETIMEDOUT"
        using p full tm w2
        by (auto simp: put_response_def ask_def split_def Let_def put_response_buf_item_def wait_of_def
            ETIMEDOUT_def split: if_splits)
      then obtain i where i: "j = Suc i"
        using Suc.prems(3) by (cases j) auto
      have "deadlock_loop n ad1 rt t pk r' s3 \<noteq> Inl StillWaiting"
        by (rule Suc.IH [OF ad1(2), of i]) (use i Suc.prems(2,3) w3 in \<open>auto simp: algebra_simps\<close>)
      with step show ?thesis by simp
    qed
  next
    case False
    then show ?thesis by (auto simp: Let_def split_def)
  qed
qed simp


section \<open>What a put adds to the history\<close>

text \<open>All responses put so far: those the server has taken, and those that wait for it.\<close>

definition history :: "sm_state \<Rightarrow> sm_response list" where
  "history s = w_taken (sm_world s) @ responses (sm_notbuf s)"

lemma put_response_history:
  assumes "buffers_ok s" and "put_response s rt t pk = (r, s')"
  shows "history s' = history s @ (if r = 0 then [response rt t pk] else []) \<and> w_issued (sm_world s') = w_issued (sm_world s)
    \<and> (\<exists>ts. w_taken (sm_world s') = w_taken (sm_world s) @ ts)"
proof (cases "counter (sm_notbuf s) < COAP_RBUF_SIZE")
  case True
  with assms show ?thesis by (auto simp: put_response_room_eq buffers_ok_def ring_laws history_def)
next
  case False
  define a where "a = fst (ask w_wait s)"
  define b where "b = take_responses (snd a) (sm_notbuf s)"
  have wf: "resbuf_wf (sm_notbuf s)" and wok: "wait_ok a"
    using assms(1) by (simp_all add: buffers_ok_def world_ok_def a_def ask_def)
  have b: "resbuf_wf b" "responses b = drop (snd a) (responses (sm_notbuf s))"
    using wf by (simp_all add: b_def take_responses_wf take_responses_list)
  have "counter (sm_notbuf s) = COAP_RBUF_SIZE" using False wf ring_wf_counter [OF wf] by simp
  then have cb: "counter b = COAP_RBUF_SIZE - snd a" using arg_cong [OF b(2), of length] by simp
  have w: "w_taken (sm_world (snd (ask w_wait s))) = w_taken (sm_world s)" "w_issued (sm_world (snd (ask w_wait s))) = w_issued (sm_world s)"
    by (simp_all add: ask_def)
  show ?thesis
  proof (cases "fst a = 0")
    case True
    then have "counter b < COAP_RBUF_SIZE" using wok cb COAP_RBUF_SIZE_pos by (simp add: wait_ok_def ETIMEDOUT_def)
    with True False assms b show ?thesis
      by (auto simp: put_response_def put_response_full_ok wait_of_def a_def [symmetric] b_def [symmetric]
          split_def ring_laws Let_def history_def w)
  next
    case nz: False
    then have "fst a = ETIMEDOUT" using wok by (simp add: wait_ok_def)
    with nz False assms b show ?thesis
      by (auto simp: put_response_def put_response_full_fail wait_of_def a_def [symmetric] b_def [symmetric]
          split_def Let_def history_def w)
  qed
qed

lemma deadlock_loop_history:
  assumes "buffers_ok s" and "deadlock_loop n ad rt t pk r s = Inr (q, ad', s')" and "r = 0 \<or> r = ETIMEDOUT"
  shows "history s' = history s @ (if r = ETIMEDOUT \<and> q = 1 then [response rt t pk] else [])
    \<and> w_issued (sm_world s') = w_issued (sm_world s) \<and> (\<exists>ts. w_taken (sm_world s') = w_taken (sm_world s) @ ts)"
  using assms
proof (induction n arbitrary: ad r s)
  case 0
  then show ?case by (auto split: if_splits)
next
  case (Suc n)
  show ?case
  proof (cases "r = ETIMEDOUT \<and> fst (ask w_malloc s)")
    case False
    with Suc.prems show ?thesis by (auto simp: Let_def split_def history_def ask_def split: if_splits)
  next
    case True
    define s1 where "s1 = snd (ask w_malloc s)"
    obtain req s2 where g: "get_request s1 = (req, s2)" by force
    obtain r' s3 where p: "put_response s2 rt t pk = (r', s3)" by force
    have b1: "buffers_ok s1" using Suc.prems(1) by (simp add: s1_def buffers_ok_def)
    note ge = get_request_effect [OF b1 g]
    have b2: "buffers_ok s2" using ge by simp
    note pe = put_response_effect [OF b2 p] put_response_history [OF b2 p]
    have b3: "buffers_ok s3" and r': "r' = 0 \<or> r' = ETIMEDOUT" using pe by auto
    have h: "history s2 = history s" "w_issued (sm_world s2) = w_issued (sm_world s)" "w_taken (sm_world s2) = w_taken (sm_world s)"
      using ge by (simp_all add: history_def s1_def ask_def)
    from True Suc.prems(2) g p obtain ad1 where run: "deadlock_loop n ad1 rt t pk r' s3 = Inr (q, ad', s')"
      by (auto simp: s1_def [symmetric] Let_def split_def bindR_Inr_iff)
    show ?thesis
    proof (cases "r' = ETIMEDOUT")
      case False
      then have "q = 1" "s' = s3" "r' = 0" using run r' by (simp_all add: deadlock_loop_done)
      with True pe h show ?thesis by simp
    next
      case tm: True
      from Suc.IH [OF b3 run r'] tm True pe h show ?thesis by (auto simp: ETIMEDOUT_def)
    qed
  qed
qed

lemma helper_history:
  assumes "buffers_ok s" and "sm_adqueue s = ADNull" and "put_response_helper fuel s rt t pk = Inr (q, s')"
  shows "history s' = history s @ (if q = 1 then [response rt t pk] else []) \<and> w_issued (sm_world s') = w_issued (sm_world s)
    \<and> (\<exists>ts. w_taken (sm_world s') = w_taken (sm_world s) @ ts)"
proof -
  obtain r s1 where p: "put_response s rt t pk = (r, s1)" by force
  note pe = put_response_effect [OF assms(1) p] put_response_history [OF assms(1) p]
  have r: "r = 0 \<or> r = ETIMEDOUT" and b1: "buffers_ok s1" and ad1: "sm_adqueue s1 = ADNull" using pe assms(2) by auto
  obtain ad s2 where run: "deadlock_loop fuel ADNull rt t pk r s1 = Inr (q, ad, s2)"
    and s': "s' = (if sm_adqueue s2 = ADNull then s2 else s2\<lparr>sm_adqueue := ad\<rparr>)"
    using assms(3) p ad1 by (auto simp: put_response_helper_def bindR_Inr_iff)
  have "s' = s2" using s' deadlock_loop_effect [OF b1 run r] ad1 by simp
  moreover have "q = 1" if "r = 0" using run that by (simp add: deadlock_loop_done ETIMEDOUT_def)
  ultimately show ?thesis using deadlock_loop_history [OF b1 run r] pe r by (auto simp: ETIMEDOUT_def)
qed

section \<open>Properties\<close>

text \<open>
  A Streaming Manager about to answer into a full response buffer while a START request is pending; the first
  wait times out, the second one sees the server take a response.
\<close>

definition start_request :: sm_request where
  "start_request = \<lparr>rq_rtype = SM_REQ_START, rq_sensor = 1, rq_ticket = 7, rq_freq = 10\<rparr>"

definition stuck_state :: sm_state where
  "stuck_state = quiet_state\<lparr>
     sm_notbuf := \<lparr>rbuf = replicate COAP_RBUF_SIZE zero_response, gethere = 0, puthere = 0, counter = COAP_RBUF_SIZE\<rparr>,
     sm_smreqbuf := \<lparr>rbuf = start_request # replicate 19 zero_request, gethere = 0, puthere = 1, counter = 1\<rparr>,
     sm_world := quiet_world\<lparr>w_wait := (\<lambda>n. if n = 0 then (ETIMEDOUT, 0) else (0, 1))\<rparr>\<rparr>"

lemma stuck_state_fields:
  "sm_adqueue stuck_state = ADNull" "counter (sm_notbuf stuck_state) = COAP_RBUF_SIZE"
  "fst (fst (ask w_wait stuck_state)) = ETIMEDOUT" "requests (sm_smreqbuf stuck_state) = [start_request]"
  "w_tick (sm_world stuck_state) = 0" "fst (w_wait (sm_world stuck_state) 2) \<noteq> ETIMEDOUT"
  by (simp_all add: stuck_state_def quiet_state_def quiet_world_def ask_def ring_list_def ETIMEDOUT_def)

lemma stuck_state_ok: "buffers_ok stuck_state"
  by (simp add: buffers_ok_def stuck_state_def quiet_world_def world_ok_def wait_ok_def ETIMEDOUT_def
      utlists_ok_def ring_wf_def COAP_RBUF_SIZE_def SM_RBUF_SIZE_def)

lemma stuck_state_put:
  "\<exists>s'. put_response_helper 1 stuck_state STREAM_STOPPED 3 None = Inr (1, s')"
  by (simp add: put_response_helper_def put_response_def put_response_buf_item_def wait_of_def stuck_state_def
      quiet_state_def quiet_world_def ask_def COAP_RBUF_SIZE_def ETIMEDOUT_def get_request_def
      get_request_buf_item_def get_response_buf_item_def SM_RBUF_SIZE_def)

text \<open>
  C22. \<open>put_response_helper\<close> on well formed buffers with no spurious wakeup of the wait: it gives back 1 when the response is in the buffer,
  behind what the CoAP server has not taken yet, and -1 when it is not. Whatever the server takes meanwhile, nothing is lost: what it has taken and what still waits are together what they were before and the
  new response behind them, in order, and the streams are as they were.
\<close>

theorem put_response_helper_delivers:
  assumes "buffers_ok s" and "sm_adqueue s = ADNull" and "put_response_helper fuel s rt t pk = Inr (q, s')"
  shows "(q = 1 \<or> q = -1)
    \<and> w_taken (sm_world s') @ responses (sm_notbuf s')
      = w_taken (sm_world s) @ responses (sm_notbuf s) @ (if q = 1 then [response rt t pk] else [])
    \<and> (\<exists>k. responses (sm_notbuf s') = drop k (responses (sm_notbuf s)) @ (if q = 1 then [response rt t pk] else []))
    \<and> resbuf_wf (sm_notbuf s') \<and> sm_sensors s' = sm_sensors s"
  using helper_effect [OF assms] helper_history [OF assms] by (simp add: buffers_ok_def history_def)

theorem put_response_helper_delivers_witness:
  "\<exists>s' k. put_response_helper 1 stuck_state STREAM_STOPPED 3 None = Inr (1, s')
     \<and> responses (sm_notbuf s') = drop k (responses (sm_notbuf stuck_state)) @ [response STREAM_STOPPED 3 None]"
proof -
  obtain s' where "put_response_helper 1 stuck_state STREAM_STOPPED 3 None = Inr (1, s')"
    using stuck_state_put by blast
  with put_response_helper_delivers [OF stuck_state_ok stuck_state_fields(1) this] show ?thesis by auto
qed

text \<open>
  C35. \<open>put_response_helper\<close> returns as soon as one of its waits does not time out: with the \<open>j\<close>-th
  wait answered, \<open>j\<close> rounds of the loop are enough.
\<close>

theorem put_response_helper_returns:
  assumes "buffers_ok s" and "sm_adqueue s = ADNull" and "j \<le> fuel"
    and "fst (w_wait (sm_world s) (w_tick (sm_world s) + 2 * j)) \<noteq> ETIMEDOUT"
  shows "\<exists>q s'. put_response_helper fuel s rt t pk = Inr (q, s')"
proof -
  obtain r s1 where p: "put_response s rt t pk = (r, s1)" by force
  have ad: "sm_adqueue s1 \<noteq> ADDangling" using put_response_effect [OF assms(1) p] assms(2) by simp
  have "deadlock_loop fuel (sm_adqueue s1) rt t pk r s1 \<noteq> Inl StillWaiting"
  proof (cases "r = ETIMEDOUT")
    case True
    then have full: "COAP_RBUF_SIZE \<le> counter (sm_notbuf s)"
      using p put_response_room_eq [of s rt t pk] by (fastforce simp: ETIMEDOUT_def)
    have w1: "w_wait (sm_world s1) = w_wait (sm_world s)" "w_tick (sm_world s1) = w_tick (sm_world s) + 1"
      using p full by (auto simp: put_response_def ask_def split_def Let_def)
    have now: "fst (w_wait (sm_world s) (w_tick (sm_world s))) = ETIMEDOUT"
      using p full True
      by (auto simp: put_response_def ask_def split_def Let_def put_response_buf_item_def wait_of_def
          ETIMEDOUT_def split: if_splits)
    then obtain i where i: "j = Suc i" using assms(4) by (cases j) auto
    show ?thesis
      by (rule deadlock_loop_returns [OF ad, of i]) (use i assms(3,4) w1 in \<open>auto simp: algebra_simps\<close>)
  qed (simp add: deadlock_loop_done)
  then have "put_response_helper fuel s rt t pk \<noteq> Inl StillWaiting"
    using p by (auto simp: put_response_helper_def bindR_Inl_iff)
  then show ?thesis
    using helper_fault [OF assms(1,2)] by (cases "put_response_helper fuel s rt t pk") auto
qed

theorem put_response_helper_returns_witness:
  "\<exists>q s'. put_response_helper 4 stuck_state STREAM_STOPPED 3 None = Inr (q, s')"
  using put_response_helper_returns [OF stuck_state_ok stuck_state_fields(1), of 1 4] stuck_state_fields(5,6)
  by (simp add: numeral_2_eq_2)

text \<open>
  C12. The requests the deadlock resolution sets aside are lost. Whenever the first wait of a put that
  succeeds times out, a first part of the waiting requests (the oldest request at least, when any waits) has left
  the request buffer, the others still wait in their order, the internal queue is \<open>NULL\<close> again when the helper
  returns, and the next \<open>get_request_helper\<close> gives the first request that is left in the buffer (or none), none
  of those taken out.
\<close>

theorem deferred_requests_lost:
  assumes "buffers_ok s" and "sm_adqueue s = ADNull"
    and "COAP_RBUF_SIZE \<le> counter (sm_notbuf s)" and "fst (fst (ask w_wait s)) = ETIMEDOUT"
    and "put_response_helper fuel s rt t pk = Inr (1, s')"
  shows "\<exists>m > 0. requests (sm_smreqbuf s') = drop m (requests (sm_smreqbuf s)) \<and> sm_adqueue s' = ADNull
    \<and> (requests (sm_smreqbuf s) \<noteq> []
         \<longrightarrow> length (requests (sm_smreqbuf s')) < length (requests (sm_smreqbuf s)))
    \<and> (\<exists>q s''. get_request_helper s' = Inr (q, s'')
         \<and> (if m < length (requests (sm_smreqbuf s)) then q = requests (sm_smreqbuf s) ! m
            else rq_rtype q = SM_REQ_INVALID))"
proof -
  note he = helper_effect [OF assms(1,2,5)]
  obtain m where m: "requests (sm_smreqbuf s') = drop m (requests (sm_smreqbuf s))" "0 < m"
    using he assms(3,4) by blast
  have less: "requests (sm_smreqbuf s) \<noteq> []
      \<longrightarrow> length (requests (sm_smreqbuf s')) < length (requests (sm_smreqbuf s))"
    using m by (simp del: length_ring_list ring_list_empty_iff)
  obtain q s'' where g: "get_request s' = (q, s'')" by force
  have "if m < length (requests (sm_smreqbuf s)) then q = requests (sm_smreqbuf s) ! m
        else rq_rtype q = SM_REQ_INVALID"
    using get_request_effect [OF _ g] he m(1) by (auto simp: hd_drop_conv_nth simp del: length_ring_list)
  with m he g less show ?thesis
    by (intro exI [of _ m] conjI) (simp_all add: get_request_helper_def)
qed

theorem deferred_requests_lost_witness:
  "\<exists>s' q s''. put_response_helper 1 stuck_state STREAM_STOPPED 3 None = Inr (1, s')
     \<and> requests (sm_smreqbuf stuck_state) = [start_request] \<and> requests (sm_smreqbuf s') = []
     \<and> get_request_helper s' = Inr (q, s'') \<and> rq_rtype q = SM_REQ_INVALID"
proof -
  obtain s' where p: "put_response_helper 1 stuck_state STREAM_STOPPED 3 None = Inr (1, s')"
    using stuck_state_put by blast
  from deferred_requests_lost [OF stuck_state_ok stuck_state_fields(1) _ stuck_state_fields(3) p] p
  show ?thesis using stuck_state_fields(2,4) by (auto simp: Suc_le_eq)
qed

end
