(* ===== verification/StreamingThread.thy ===== *)
theory StreamingThread
  imports Helpers
begin

text \<open>
  The loop of \<open>ze_coap_streaming_thread\<close>: serving one request, then five rounds that take an event from
  the sample queue or the carriers queue in turn, log it, refresh the cache, answer the pending oneshots
  and feed the streams. The functions follow the sections of the loop body.
\<close>

section \<open>Before the loop\<close>

text \<open>
  The start of the thread, as far as it touches the state: the carriers queue, the numbers of the sensors with the two
  mutexes of the event based ones (\<open>mtx i\<close> is the result of \<open>pthread_mutex_init\<close>), and the flush of the
  sensor queue. Without a queue the program exits, without a mutex the thread returns.
\<close>

fun init_sensors :: "(int \<Rightarrow> int) \<Rightarrow> int list \<Rightarrow> sensor list \<Rightarrow> sensor list option" where
  "init_sensors mtx [] sensors = Some sensors"
| "init_sensors mtx (i # is) sensors =
     (let sensors1 = sensors[nat i := (sensors ! nat i)\<lparr>sn_sensor := i\<rparr>]
      in if i = ASENSOR_TYPE_PROXIMITY \<and> mtx i \<noteq> 0 then None
         else if i = ZESENSE_SENSOR_TYPE_ORIENTATION \<and> mtx i \<noteq> 0 then None
         else init_sensors mtx is sensors1)"

fun flush_sensor_queue :: "sensor_event option list \<Rightarrow> sensor_event option list" where
  "flush_sensor_queue [] = []"
| "flush_sensor_queue (None # es) = es"
| "flush_sensor_queue (Some ev # es) = flush_sensor_queue es"

definition thread_start :: "bool \<Rightarrow> int \<Rightarrow> (int \<Rightarrow> int) \<Rightarrow> sm_state \<Rightarrow> sm_state option outcome" where
  "thread_start ok err mtx s =
     (case init_carriers_queue ok err of
        None \<Rightarrow> Inl (Exit 1)
      | Some q \<Rightarrow>
          (case init_sensors mtx [0..int ZE_NUMSENSORS - 1] (sm_sensors s) of
             None \<Rightarrow> Inr None
           | Some sensors \<Rightarrow>
               Inr (Some (s\<lparr>sm_carrq := q, sm_sensors := sensors, sm_events := flush_sensor_queue (sm_events s),
                 sm_adqueue := ADNull, sm_accel_log := empty_log, sm_orient_log := empty_log,
                 sm_light_log := empty_log, sm_prox_log := empty_log, sm_gyro_log := empty_log\<rparr>))))"

section \<open>Serving a request\<close>

text \<open>Each \<open>encode\<close> makes at most two allocations.\<close>

definition sm_encode :: "sm_state \<Rightarrow> sensor_event list \<Rightarrow> int list \<Rightarrow> nat \<Rightarrow> (sm_packet option \<times> sm_state) outcome" where
  "sm_encode s event rtpts num =
     (let (ok1, s1) = ask w_malloc s;
          (ok2, s2) = ask w_malloc s1
      in bindR (encode ok1 ok2 event rtpts num) (\<lambda>pk. Inr (pk, s2)))"

text \<open>\<open>pk->conf = conf\<close>: the result of \<open>encode\<close> is not checked.\<close>

definition set_conf :: "sm_packet option \<Rightarrow> coap_message \<Rightarrow> sm_packet outcome" where
  "set_conf pk conf = (case pk of None \<Rightarrow> Inl NullDeref | Some c \<Rightarrow> Inr (c\<lparr>pk_conf := conf\<rparr>))"

definition send_packet :: "nat \<Rightarrow> sm_state \<Rightarrow> sensor_event list \<Rightarrow> int list \<Rightarrow> nat \<Rightarrow> coap_message \<Rightarrow> int \<Rightarrow> int
    \<Rightarrow> sm_state outcome" where
  "send_packet fuel s event rtpts num conf rtype ticket =
     bindR (sm_encode s event rtpts num) (\<lambda>(pk, s1).
     bindR (set_conf pk conf) (\<lambda>c.
     bindR (put_response_helper fuel s1 rtype ticket (Some c)) (\<lambda>(_, s2). Inr s2)))"

definition serve_start :: "nat \<Rightarrow> sm_state \<Rightarrow> sm_request \<Rightarrow> sm_state outcome" where
  "serve_start fuel s sm_req =
     bindR (sm_start_stream s (rq_sensor sm_req) (rq_ticket sm_req) (rq_freq sm_req)) (\<lambda>(started, s1).
     if \<not> started
     then bindR (put_response_helper fuel s1 STREAM_STOPPED (rq_ticket sm_req) None) (\<lambda>(_, s2). Inr s2)
     else Inr s1)"

definition serve_stop :: "nat \<Rightarrow> sm_state \<Rightarrow> sm_request \<Rightarrow> sm_state outcome" where
  "serve_stop fuel s sm_req =
     bindR (sm_stop_stream s (rq_sensor sm_req) (rq_ticket sm_req)) (\<lambda>(result, s1).
     if result \<noteq> SM_ERROR
     then bindR (put_response_helper fuel s1 STREAM_STOPPED (rq_ticket sm_req) None) (\<lambda>(_, s2). Inr s2)
     else Inr s1)"

text \<open>\<open>LL_APPEND\<close> of the new oneshot goes through a null pointer when there was no memory for it.\<close>

definition serve_oneshot :: "nat \<Rightarrow> sm_state \<Rightarrow> sm_request \<Rightarrow> sm_state outcome" where
  "serve_oneshot fuel s sm_req =
     bindR (get_sensor s (rq_sensor sm_req)) (\<lambda>sn.
     if sn_cache_valid sn = 1
     then send_packet fuel s [sn_event_cache sn] [0] 1 COAP_MESSAGE_NON ONESHOT (rq_ticket sm_req)
     else
       bindR (android_sensor_activate s (rq_sensor sm_req) DEFAULT_FREQ) (\<lambda>(_, s1).
       case sm_new_oneshot s1 (rq_ticket sm_req) of
         (None, s2) \<Rightarrow> Inl NullDeref
       | (Some osreq, s2) \<Rightarrow>
           Inr (upd_sensor (rq_sensor sm_req)
                  (\<lambda>sn. sn\<lparr>sn_oneshots := ll_append (w_oneshots (sm_world s2)) (sn_oneshots sn) osreq\<rparr>) s2)))"

definition serve_request :: "nat \<Rightarrow> sm_state \<Rightarrow> sm_state outcome" where
  "serve_request fuel s =
     bindR (get_request_helper s) (\<lambda>(sm_req, s1).
     if rq_rtype sm_req = SM_REQ_START then serve_start fuel s1 sm_req
     else if rq_rtype sm_req = SM_REQ_STOP then serve_stop fuel s1 sm_req
     else if rq_rtype sm_req = SM_REQ_ONESHOT then serve_oneshot fuel s1 sm_req
     else Inr s1)"

section \<open>Fetching an event\<close>

datatype queue_select = SAMPLES_QUEUE | CARRIERS_QUEUE

text \<open>
  The answers of \<open>ASensorEventQueue_getEvents\<close> are a script: an event, or none. The real values of
  the event based sensors only go to the cache.
\<close>

definition event_based :: "sensor_event \<Rightarrow> bool" where
  "event_based event \<longleftrightarrow> ev_type event = ASENSOR_TYPE_PROXIMITY \<or> ev_type event = ZESENSE_SENSOR_TYPE_ORIENTATION"

definition write_cache :: "sensor_event \<Rightarrow> sm_state \<Rightarrow> sm_state" where
  "write_cache event =
     upd_sensor (ev_type event) (\<lambda>sn. (snd (write_last_event_SYN sn event))\<lparr>sn_cache_valid := 1\<rparr>)"

fun fetch_sample :: "sensor_event option list \<Rightarrow> sm_state \<Rightarrow> sensor_event option \<times> sm_state" where
  "fetch_sample [] s = (None, s\<lparr>sm_events := []\<rparr>)"
| "fetch_sample (None # es) s = (None, s\<lparr>sm_events := es\<rparr>)"
| "fetch_sample (Some event # es) s =
     (if event_based event then fetch_sample es (write_cache event s)
      else (Some event, s\<lparr>sm_events := es\<rparr>))"

definition fetch_carrier :: "sm_state \<Rightarrow> sensor_event option \<times> sm_state" where
  "fetch_carrier s =
     (let (have_events, event, q) = get_carrier_event (sm_carrq s) zero_event
      in (if have_events > 0 then Some event else None, s\<lparr>sm_carrq := q\<rparr>))"

definition fetch_event :: "queue_select \<Rightarrow> sm_state \<Rightarrow> sensor_event option \<times> sm_state" where
  "fetch_event qselect s =
     (case qselect of
        SAMPLES_QUEUE \<Rightarrow> fetch_sample (sm_events s) s
      | CARRIERS_QUEUE \<Rightarrow> fetch_carrier s)"

section \<open>The log of samples\<close>

text \<open>The index is not checked against \<open>NUM_SAMPLES\<close>; this write out of bounds has a fault of its own.\<close>

definition log_sample :: "int \<Rightarrow> int \<Rightarrow> sample_log \<Rightarrow> sample_log outcome" where
  "log_sample gents collts l =
     (if lg_counter l < NUM_SAMPLES
      then Inr \<lparr>lg_list = (lg_list l)(lg_counter l := (gents, collts)),
                lg_counter = lg_counter l + 1, lg_taken = lg_taken l + 1\<rparr>
      else Inl LogOverrun)"

definition record_sample :: "sensor_event \<Rightarrow> sm_state \<Rightarrow> sm_state outcome" where
  "record_sample event s =
     (let (ntp, s1) = ask w_clock s; t = ev_timestamp event
      in if ev_type event = ASENSOR_TYPE_ACCELEROMETER then
           bindR (log_sample t ntp (sm_accel_log s1)) (\<lambda>l. Inr (s1\<lparr>sm_accel_log := l\<rparr>))
         else if ev_type event = ASENSOR_TYPE_PROXIMITY then
           bindR (log_sample t ntp (sm_prox_log s1)) (\<lambda>l. Inr (s1\<lparr>sm_prox_log := l\<rparr>))
         else if ev_type event = ASENSOR_TYPE_LIGHT then
           bindR (log_sample t ntp (sm_light_log s1)) (\<lambda>l. Inr (s1\<lparr>sm_light_log := l\<rparr>))
         else if ev_type event = ZESENSE_SENSOR_TYPE_ORIENTATION then
           bindR (log_sample t ntp (sm_orient_log s1)) (\<lambda>l. Inr (s1\<lparr>sm_orient_log := l\<rparr>))
         else if ev_type event = ASENSOR_TYPE_GYROSCOPE then
           bindR (log_sample t ntp (sm_gyro_log s1)) (\<lambda>l. Inr (s1\<lparr>sm_gyro_log := l\<rparr>))
         else Inr s)"

section \<open>Answering the oneshots\<close>

fun answer_oneshots :: "nat \<Rightarrow> sensor_event \<Rightarrow> int list \<Rightarrow> sm_state \<Rightarrow> sm_state outcome" where
  "answer_oneshots fuel event [] s = Inr s"
| "answer_oneshots fuel event (one # next) s =
     bindR (send_packet fuel s [event] [0] 1 COAP_MESSAGE_CON ONESHOT one) (\<lambda>s1.
     answer_oneshots fuel event next (upd_sensor (ev_type event) (\<lambda>sn. sn\<lparr>sn_oneshots := next\<rparr>) s1))"

definition serve_oneshots :: "nat \<Rightarrow> sensor_event \<Rightarrow> sm_state \<Rightarrow> sm_state outcome" where
  "serve_oneshots fuel event s =
     (if sn_oneshots (sensor_at s (ev_type event)) = [] then Inr s
      else
        bindR (answer_oneshots fuel event (sn_oneshots (sensor_at s (ev_type event))) s) (\<lambda>s1.
        if sn_streams (sensor_at s1 (ev_type event)) = []
        then bindR (android_sensor_turnoff s1 (ev_type event)) (\<lambda>(_, s2). Inr s2)
        else Inr s1))"

section \<open>Feeding the streams\<close>

definition write_at :: "'a list \<Rightarrow> nat \<Rightarrow> 'a \<Rightarrow> 'a list outcome" where
  "write_at xs i v = (if i < length xs then Inr (xs[i := v]) else Inl OutOfBounds)"

text \<open>The RTP time stamp of the sample after the last one of the stream.\<close>

definition next_rtpts :: "stream \<Rightarrow> int outcome" where
  "next_rtpts stream =
     (if st_freq stream = 0 then Inl DivByZero
      else Inr (i32 (st_last_rtpts stream + c_div RTP_TSCLOCK_FREQ (st_freq stream))))"

definition buffer_sample :: "sensor_event \<Rightarrow> stream \<Rightarrow> stream outcome" where
  "buffer_sample event stream =
     (if st_event_buffer_level stream < SOURCE_BUFFER_SIZE
      then
        bindR (write_at (st_event_buffer stream) (st_event_buffer_level stream) event) (\<lambda>evs.
        bindR (next_rtpts stream) (\<lambda>tsa.
        bindR (write_at (st_event_rtpts_buffer stream) (st_event_buffer_level stream) tsa) (\<lambda>tss.
        Inr (stream\<lparr>st_event_buffer := evs, st_event_rtpts_buffer := tss, st_last_rtpts := tsa,
               st_last_wts := ev_timestamp event,
               st_event_buffer_level := st_event_buffer_level stream + 1\<rparr>))))
      else Inr stream)"

definition notify_once :: "nat \<Rightarrow> sm_state \<Rightarrow> sensor_event \<Rightarrow> stream \<Rightarrow> (stream \<times> sm_state) outcome" where
  "notify_once fuel s event stream =
     bindR (buffer_sample event stream) (\<lambda>st.
     if st_event_buffer_level st = SOURCE_BUFFER_SIZE
     then
       bindR (send_packet fuel s (st_event_buffer st) (st_event_rtpts_buffer st) SOURCE_BUFFER_SIZE
                (st_retransmit st) STREAM_UPDATE (st_reg st)) (\<lambda>s1.
       Inr (st\<lparr>st_samples_sent := i32 (st_samples_sent st + int SOURCE_BUFFER_SIZE), st_event_buffer_level := 0\<rparr>, s1))
     else Inr (st, s))"

text \<open>The branch for \<open>REPETITION_ON\<close> writes the second position of the two buffers.\<close>

definition notify_repeat :: "nat \<Rightarrow> sm_state \<Rightarrow> sensor_event \<Rightarrow> stream \<Rightarrow> (stream \<times> sm_state) outcome" where
  "notify_repeat fuel s event stream =
     bindR (next_rtpts stream) (\<lambda>tsa.
     bindR (if st_event_buffer_level stream = 0
            then
              bindR (write_at (st_event_buffer stream) 0 event) (\<lambda>evs.
              bindR (write_at (st_event_rtpts_buffer stream) 0 tsa) (\<lambda>tss.
              Inr (stream\<lparr>st_event_buffer := evs, st_event_rtpts_buffer := tss, st_event_buffer_level := 1\<rparr>)))
            else Inr stream) (\<lambda>st.
     bindR (write_at (st_event_buffer st) 1 event) (\<lambda>evs.
     bindR (write_at (st_event_rtpts_buffer st) 1 tsa) (\<lambda>tss.
     bindR (send_packet fuel s evs tss SOURCE_BUFFER_SIZE (st_retransmit st) STREAM_UPDATE (st_reg st)) (\<lambda>s1.
     Inr (st\<lparr>st_last_rtpts := tsa, st_last_wts := ev_timestamp event,
             st_samples_sent := i32 (st_samples_sent st + 1),
             st_event_buffer := evs[0 := event], st_event_rtpts_buffer := tss[0 := tsa]\<rparr>, s1))))))"

definition notify_stream :: "nat \<Rightarrow> sm_state \<Rightarrow> sensor_event \<Rightarrow> stream \<Rightarrow> (stream \<times> sm_state) outcome" where
  "notify_stream fuel s event stream =
     (if st_repeat stream = REPETITION_OFF then notify_once fuel s event stream
      else notify_repeat fuel s event stream)"

text \<open>\<open>k\<close> is the position of the stream the pointer is at.\<close>

fun notify_streams :: "nat \<Rightarrow> sensor_event \<Rightarrow> nat \<Rightarrow> stream list \<Rightarrow> sm_state \<Rightarrow> sm_state outcome" where
  "notify_streams fuel event k [] s = Inr s"
| "notify_streams fuel event k (stream # next) s =
     bindR (notify_stream fuel s event stream) (\<lambda>(stream', s1).
     notify_streams fuel event (Suc k) next
       (upd_sensor (ev_type event) (\<lambda>sn. sn\<lparr>sn_streams := (sn_streams sn)[k := stream']\<rparr>) s1))"

section \<open>The loop\<close>

definition process_event :: "nat \<Rightarrow> queue_select \<Rightarrow> sensor_event \<Rightarrow> sm_state \<Rightarrow> sm_state outcome" where
  "process_event fuel qselect event s =
     bindR (record_sample event s) (\<lambda>s1.
     bindR (get_sensor s1 (ev_type event)) (\<lambda>_.
     let s2 = (if qselect = SAMPLES_QUEUE
               then upd_sensor (ev_type event) (\<lambda>sn. sn\<lparr>sn_event_cache := event, sn_cache_valid := 1\<rparr>) s1
               else s1)
     in bindR (serve_oneshots fuel event s2) (\<lambda>s3.
        notify_streams fuel event 0 (sn_streams (sensor_at s3 (ev_type event))) s3)))"

definition sample_round :: "nat \<Rightarrow> queue_select \<Rightarrow> sm_state \<Rightarrow> sm_state outcome" where
  "sample_round fuel qselect s =
     (case fetch_event qselect s of
        (Some event, s1) \<Rightarrow> process_event fuel qselect event s1
      | (None, s1) \<Rightarrow> Inr s1)"

fun other_queue :: "queue_select \<Rightarrow> queue_select" where
  "other_queue SAMPLES_QUEUE = CARRIERS_QUEUE"
| "other_queue CARRIERS_QUEUE = SAMPLES_QUEUE"

fun sample_rounds :: "nat \<Rightarrow> nat \<Rightarrow> queue_select \<Rightarrow> sm_state \<Rightarrow> sm_state outcome" where
  "sample_rounds fuel 0 qselect s = Inr s"
| "sample_rounds fuel (Suc n) qselect s =
     bindR (sample_round fuel qselect s) (\<lambda>s1. sample_rounds fuel n (other_queue qselect) s1)"

text \<open>The look at the GPS only logs a location, and the sleep changes nothing.\<close>

definition thread_iteration :: "nat \<Rightarrow> sm_state \<Rightarrow> sm_state outcome" where
  "thread_iteration fuel s =
     bindR (serve_request fuel s) (\<lambda>s1.
     sample_rounds fuel QUEUE_REQ_RATIO SAMPLES_QUEUE s1)"

end
