(* ===== verification/Stats.thy ===== *)
theory Stats
  imports StreamingThread
begin

text \<open>
  The log of samples and the statistics of \<open>ze_coap_streaming_thread\<close> behind its loop: the periods between
  the time stamps of consecutive samples of a sensor, their largest and smallest, their sum, which the
  average divides. The five sensors have the same code. The average itself, a \<open>double\<close>, is in \<open>StatsText\<close>.
\<close>

section \<open>The statistics\<close>

record period_stats =
  ps_max :: int
  ps_min :: int
  ps_incsum :: int
  ps_count :: int

text \<open>\<open>periods[k]\<close>, of 64 bits; the largest and the smallest are variables of type \<open>int\<close>.\<close>

definition period :: "sample_log \<Rightarrow> nat \<Rightarrow> int" where
  "period l k = i64 (fst (lg_list l (k + 1)) - fst (lg_list l k))"

definition extremes_step :: "nat \<Rightarrow> int \<Rightarrow> int \<times> int \<Rightarrow> int \<times> int" where
  "extremes_step k p mm =
     (let mn1 = (if k = 0 then i32 p else snd mm);
          mx = (if p > fst mm then i32 p else fst mm);
          mn = (if p < mn1 then i32 p else mn1)
      in (mx, mn))"

fun extremes :: "sample_log \<Rightarrow> nat \<Rightarrow> int \<times> int" where
  "extremes l 0 = (0, 0)"
| "extremes l (Suc k) = extremes_step k (period l k) (extremes l k)"

fun incsum :: "sample_log \<Rightarrow> nat \<Rightarrow> int" where
  "incsum l 0 = 0"
| "incsum l (Suc k) = i64 (incsum l k + period l k)"

text \<open>The loops run while \<open>k < samples_taken-1\<close>; with no sample the bound is -1.\<close>

definition sensor_stats :: "sample_log \<Rightarrow> period_stats" where
  "sensor_stats l =
     (let n = lg_taken l - 1
      in \<lparr>ps_max = fst (extremes l n), ps_min = snd (extremes l n), ps_incsum = incsum l n,
          ps_count = int (lg_taken l) - 1\<rparr>)"

text \<open>The report on the streams that are left: a running number and the samples sent.\<close>

fun stream_report :: "int \<Rightarrow> stream list \<Rightarrow> (int \<times> int) list" where
  "stream_report si [] = []"
| "stream_report si (sf # next) = (si, st_samples_sent sf) # stream_report (si + 1) next"

definition thread_stats :: "sm_state \<Rightarrow> period_stats list \<times> (int \<times> int) list list" where
  "thread_stats s =
     (map sensor_stats [sm_accel_log s, sm_orient_log s, sm_light_log s, sm_prox_log s, sm_gyro_log s],
      map (\<lambda>i. stream_report 1 (sn_streams (sensor_at s i)))
        [ASENSOR_TYPE_ACCELEROMETER, ASENSOR_TYPE_PROXIMITY, ASENSOR_TYPE_GYROSCOPE, ASENSOR_TYPE_LIGHT])"

section \<open>What they compute\<close>

lemma i64_id: "- (2 ^ 63) \<le> x \<Longrightarrow> x < 2 ^ 63 \<Longrightarrow> i64 x = x"
  by (simp add: i64_def)

definition gents :: "sample_log \<Rightarrow> nat \<Rightarrow> int" where
  "gents l k = fst (lg_list l k)"

text \<open>Time stamps that are positive, never go back, and are less than an \<open>int\<close> apart.\<close>

definition paced :: "sample_log \<Rightarrow> bool" where
  "paced l \<longleftrightarrow> 0 \<le> gents l 0 \<and> gents l (lg_taken l - 1) < 2 ^ 63
     \<and> (\<forall>k < lg_taken l - 1. gents l k \<le> gents l (k + 1) \<and> gents l (k + 1) - gents l k < 2 ^ 31)"

lemma paced_mono:
  assumes "\<forall>k < n. gents l k \<le> gents l (k + 1)" and "j \<le> k" and "k \<le> n"
  shows "gents l j \<le> gents l k"
  using assms(2,3)
proof (induction k)
  case (Suc k)
  show ?case
  proof (cases "j = Suc k")
    case False
    then have "gents l j \<le> gents l k" using Suc by simp
    also have "\<dots> \<le> gents l (Suc k)" using assms(1) Suc.prems(2) by simp
    finally show ?thesis .
  qed simp
qed simp

lemma paced_period:
  assumes "paced l" and "k < lg_taken l - 1"
  shows "period l k = gents l (k + 1) - gents l k \<and> 0 \<le> period l k \<and> period l k < 2 ^ 31"
proof -
  have "0 \<le> gents l (k + 1) - gents l k" "gents l (k + 1) - gents l k < 2 ^ 31"
    using assms by (simp_all add: paced_def)
  moreover from this have "i64 (gents l (k + 1) - gents l k) = gents l (k + 1) - gents l k"
    by (intro i64_id) simp_all
  ultimately show ?thesis by (simp add: period_def gents_def)
qed

lemma incsum_telescopes:
  assumes "paced l" and "n \<le> lg_taken l - 1"
  shows "incsum l n = gents l n - gents l 0"
  using assms(2)
proof (induction n)
  case (Suc n)
  have mono: "gents l 0 \<le> gents l (Suc n)" "gents l (Suc n) \<le> gents l (lg_taken l - 1)"
    using assms(1) Suc.prems paced_mono [of "lg_taken l - 1" l] by (auto simp: paced_def)
  have "incsum l n + period l n = gents l (Suc n) - gents l 0"
    using Suc paced_period [OF assms(1), of n] by simp
  moreover have "i64 (gents l (Suc n) - gents l 0) = gents l (Suc n) - gents l 0"
    using mono assms(1) by (intro i64_id) (simp_all add: paced_def)
  ultimately show ?case by simp
qed simp

lemma extremes_bounds:
  assumes "paced l" and "n \<le> lg_taken l - 1" and "0 < n"
  shows "fst (extremes l n) = Max (period l ` {..<n}) \<and> snd (extremes l n) = Min (period l ` {..<n})"
  using assms(2,3)
proof (induction n)
  case (Suc n)
  have p: "0 \<le> period l n" "i32 (period l n) = period l n"
    using paced_period [OF assms(1), of n] Suc.prems(1) by (simp_all add: i32_id in_i32_def)
  show ?case
  proof (cases "n = 0")
    case True
    with p show ?thesis by (simp add: extremes_step_def Let_def lessThan_Suc)
  next
    case False
    then have ih: "fst (extremes l n) = Max (period l ` {..<n})" "snd (extremes l n) = Min (period l ` {..<n})"
      using Suc by simp_all
    let ?S = "period l ` {..<n}"
    have S: "?S \<noteq> {}" "finite ?S" using False by auto
    have m: "Max (period l ` {..<Suc n}) = max (period l n) (Max ?S)"
      "Min (period l ` {..<Suc n}) = min (period l n) (Min ?S)"
      unfolding lessThan_Suc image_insert using Max_insert [OF S(2,1)] Min_insert [OF S(2,1)] by blast+
    have step: "fst (extremes l (Suc n)) = max (period l n) (fst (extremes l n))"
      "snd (extremes l (Suc n)) = min (period l n) (snd (extremes l n))"
      using p(2) False by (auto simp: extremes_step_def Let_def)
    show ?thesis unfolding step ih m by blast
  qed
qed simp

lemma stats_correct:
  assumes "paced l" and "2 \<le> lg_taken l"
  shows "sensor_stats l =
    \<lparr>ps_max = Max ((\<lambda>k. gents l (k + 1) - gents l k) ` {..<lg_taken l - 1}),
     ps_min = Min ((\<lambda>k. gents l (k + 1) - gents l k) ` {..<lg_taken l - 1}),
     ps_incsum = gents l (lg_taken l - 1) - gents l 0, ps_count = int (lg_taken l) - 1\<rparr>"
proof -
  have "period l ` {..<lg_taken l - 1} = (\<lambda>k. gents l (k + 1) - gents l k) ` {..<lg_taken l - 1}"
    using paced_period [OF assms(1)] by (intro image_cong) simp_all
  with extremes_bounds [OF assms(1), of "lg_taken l - 1"] incsum_telescopes [OF assms(1), of "lg_taken l - 1"] assms(2)
  show ?thesis by (simp add: sensor_stats_def Let_def)
qed

section \<open>Properties\<close>

text \<open>
  The statistics of a sensor with at least two samples, whose time stamps never go back and are less
  than 2^31 nanoseconds apart: the largest and smallest period are the maximum and the minimum of the differences of
  consecutive time stamps, and what the average divides by the number of periods is the time from the first sample to the last.
\<close>

theorem sensor_stats_correct:
  assumes "paced l" and "2 \<le> lg_taken l"
  shows "sensor_stats l =
    \<lparr>ps_max = Max ((\<lambda>k. gents l (k + 1) - gents l k) ` {..<lg_taken l - 1}),
     ps_min = Min ((\<lambda>k. gents l (k + 1) - gents l k) ` {..<lg_taken l - 1}),
     ps_incsum = gents l (lg_taken l - 1) - gents l 0, ps_count = int (lg_taken l) - 1\<rparr>"
  using assms by (rule stats_correct)

definition three_samples :: sample_log where
  "three_samples = \<lparr>lg_list = (\<lambda>k. if k = 0 then (100, 0) else if k = 1 then (130, 0) else (150, 0)),
     lg_counter = 3, lg_taken = 3\<rparr>"

lemma three_samples_paced: "paced three_samples"
  by (auto simp: paced_def gents_def three_samples_def less_Suc_eq numeral_2_eq_2 numeral_3_eq_3)

theorem sensor_stats_correct_witness:
  "ps_incsum (sensor_stats three_samples) = 50 \<and> ps_count (sensor_stats three_samples) = 2"
proof -
  have "2 \<le> lg_taken three_samples" by (simp add: three_samples_def)
  from sensor_stats_correct [OF three_samples_paced this] show ?thesis by (simp add: gents_def three_samples_def)
qed

text \<open>Logging one event after the other.\<close>

fun record_all :: "sensor_event list \<Rightarrow> sm_state \<Rightarrow> sm_state outcome" where
  "record_all [] s = Inr s"
| "record_all (ev # evs) s = bindR (record_sample ev s) (record_all evs)"

lemma record_all_accel:
  assumes "\<forall>ev\<in>set evs. ev_type ev = ASENSOR_TYPE_ACCELEROMETER" and "lg_counter (sm_accel_log s) \<le> NUM_SAMPLES"
  shows "if lg_counter (sm_accel_log s) + length evs \<le> NUM_SAMPLES
    then \<exists>t. record_all evs s = Inr t \<and> lg_counter (sm_accel_log t) = lg_counter (sm_accel_log s) + length evs
      \<and> lg_taken (sm_accel_log t) = lg_taken (sm_accel_log s) + length evs
    else record_all evs s = Inl LogOverrun"
  using assms
proof (induction evs arbitrary: s)
  case (Cons ev evs)
  let ?s1 = "snd (ask w_clock s)"
  have l1: "sm_accel_log ?s1 = sm_accel_log s" by (simp add: ask_def)
  show ?case
  proof (cases "lg_counter (sm_accel_log s) < NUM_SAMPLES")
    case False
    with Cons.prems show ?thesis
      by (simp add: record_sample_def log_sample_def Let_def split_def l1)
  next
    case True
    let ?l = "\<lparr>lg_list = (lg_list (sm_accel_log s))(lg_counter (sm_accel_log s) := (ev_timestamp ev, fst (ask w_clock s))),
      lg_counter = lg_counter (sm_accel_log s) + 1, lg_taken = lg_taken (sm_accel_log s) + 1\<rparr>"
    have "record_sample ev s = Inr (?s1\<lparr>sm_accel_log := ?l\<rparr>)"
      using True Cons.prems by (simp add: record_sample_def log_sample_def Let_def split_def l1)
    with Cons.IH [of "?s1\<lparr>sm_accel_log := ?l\<rparr>"] Cons.prems True show ?thesis
      by (auto split: if_splits)
  qed
qed simp

text \<open>
  C38. The thread writes outside its log at the sample after the 5000th of a sensor (the fault \<open>LogOverrun\<close>): logging accelerometer
  events from an empty log works, and counts every one, exactly as long as there are at most 5000.
\<close>

theorem sample_log_overflow:
  assumes "sm_accel_log s = empty_log" and "\<forall>ev\<in>set evs. ev_type ev = ASENSOR_TYPE_ACCELEROMETER"
  shows "(record_all evs s = Inl LogOverrun \<longleftrightarrow> 5000 < length evs)
    \<and> (length evs \<le> 5000 \<longrightarrow> (\<exists>t. record_all evs s = Inr t \<and> lg_taken (sm_accel_log t) = length evs))"
  using record_all_accel [OF assms(2), of s] assms(1) by (auto simp: empty_log_def NUM_SAMPLES_def split: if_splits)

theorem sample_log_overflow_witness:
  "record_all (replicate 5001 (zero_event\<lparr>ev_type := 1\<rparr>)) quiet_state = Inl LogOverrun"
proof -
  have "sm_accel_log quiet_state = empty_log" by (simp add: quiet_state_def)
  from sample_log_overflow [OF this, of "replicate 5001 (zero_event\<lparr>ev_type := 1\<rparr>)"] show ?thesis
    by (simp add: ASENSOR_TYPE_ACCELEROMETER_def)
qed

end
