(* ===== verification/Resources.thy ===== *)
theory Resources
  imports RequestBuffer Types
begin

text \<open>
  \<open>ze_coap_resources.c\<close>: the CoAP resources and their handlers, which turn requests of the clients into
  requests to the Streaming Manager. \<open>coap_lib\<close> stands for the functions of libcoap they call; the
  registrations of the clients are libcoap's structs, in a map from pointers. A function pointer is the
  name of the resource it belongs to.
\<close>

section \<open>libcoap as the code sees it\<close>

text \<open>
  The fields of \<open>coap_registration_t\<close> the program reads or writes. The struct is declared in the modified libcoap,
  outside the repository, so its counters have no width here.
\<close>

record registration =
  rg_subscriber :: int
  rg_token :: "byte list"
  rg_reskey :: int
  rg_invalid :: int
  rg_fail_cnt :: int
  rg_non_cnt :: int
  rg_notcnt :: int
  rg_ntptwin :: int
  rg_rtptwin :: int
  rg_datapackcount :: int
  rg_octcount :: int
  rg_last_sr_octcount :: int
  rg_last_sr_packcount :: int

type_synonym registrations = "int \<rightharpoonup> registration"

text \<open>What a handler uses of the request: the observe option, the peer, the token and the message id.\<close>

record coap_request =
  cr_observe :: bool
  cr_peer :: int
  cr_token :: "byte list"
  cr_id :: int

text \<open>
  \<open>coap_add_registration\<close>, \<open>coap_registration_checkout\<close>, \<open>coap_find_registration\<close> and
  \<open>coap_register_async\<close>; the last gives the \<open>id\<close> of the state, or \<open>None\<close> for \<open>NULL\<close>.
\<close>

record coap_lib =
  lib_add_registration :: "registrations \<Rightarrow> string \<Rightarrow> int \<Rightarrow> byte list \<Rightarrow> int \<times> registrations"
  lib_checkout :: "registrations \<Rightarrow> int \<Rightarrow> int \<times> registrations"
  lib_find_registration :: "registrations \<Rightarrow> string \<Rightarrow> int \<Rightarrow> int option"
  lib_register_async :: "registrations \<Rightarrow> coap_request \<Rightarrow> int option"

datatype res_name = Accel | Location | Proximity | Light | Orient | Gyro

record resource =
  re_uri :: string
  re_get :: res_name
  re_post :: res_name
  re_on_unregister :: res_name
  re_observable :: int

text \<open>The context with the request buffer, the counters of the module, and the resources added to it.\<close>

record coap_ctx =
  cx_regs :: registrations
  cx_smreqbuf :: request_buf
  cx_accel_rr :: int
  cx_prox_rr :: int
  cx_light_rr :: int
  cx_gyro_rr :: int
  cx_location_rr :: int
  cx_orient_rr :: int
  cx_RR_REC :: int
  cx_added :: "resource list"

section \<open>The generic handlers\<close>

text \<open>
  \<open>wait\<close> is what the Streaming Manager does to the buffer while a put waits for room.
\<close>

definition put_request :: "(request_buf \<Rightarrow> request_buf) \<Rightarrow> coap_ctx \<Rightarrow> int \<Rightarrow> int \<Rightarrow> int \<Rightarrow> int \<Rightarrow> coap_ctx" where
  "put_request wait cx rtype sensor ticket freq =
     cx\<lparr>cx_smreqbuf := snd (put_request_buf_item wait (cx_smreqbuf cx) rtype sensor ticket freq)\<rparr>"

definition generic_on_unregister :: "(request_buf \<Rightarrow> request_buf) \<Rightarrow> coap_ctx \<Rightarrow> int \<Rightarrow> int \<Rightarrow> coap_ctx outcome" where
  "generic_on_unregister wait cx reg sensor =
     (case cx_regs cx reg of
        None \<Rightarrow> Inl UseAfterFree
      | Some r \<Rightarrow> Inr (put_request wait (cx\<lparr>cx_regs := (cx_regs cx)(reg \<mapsto> r\<lparr>rg_invalid := 1\<rparr>)\<rparr>)
                     SM_REQ_STOP sensor reg 0))"

definition generic_POST_handler :: "coap_ctx \<Rightarrow> coap_ctx" where
  "generic_POST_handler cx = cx\<lparr>cx_RR_REC := i32 (cx_RR_REC cx + 1)\<rparr>"

definition accel_on_unregister :: "(request_buf \<Rightarrow> request_buf) \<Rightarrow> coap_ctx \<Rightarrow> int \<Rightarrow> coap_ctx outcome" where
  "accel_on_unregister wait cx reg = generic_on_unregister wait cx reg ASENSOR_TYPE_ACCELEROMETER"

definition location_on_unregister :: "(request_buf \<Rightarrow> request_buf) \<Rightarrow> coap_ctx \<Rightarrow> int \<Rightarrow> coap_ctx outcome" where
  "location_on_unregister wait cx reg = generic_on_unregister wait cx reg ZESENSE_SENSOR_TYPE_LOCATION"

definition proximity_on_unregister :: "(request_buf \<Rightarrow> request_buf) \<Rightarrow> coap_ctx \<Rightarrow> int \<Rightarrow> coap_ctx outcome" where
  "proximity_on_unregister wait cx reg = generic_on_unregister wait cx reg ASENSOR_TYPE_PROXIMITY"

definition light_on_unregister :: "(request_buf \<Rightarrow> request_buf) \<Rightarrow> coap_ctx \<Rightarrow> int \<Rightarrow> coap_ctx outcome" where
  "light_on_unregister wait cx reg = generic_on_unregister wait cx reg ASENSOR_TYPE_LIGHT"

definition orient_on_unregister :: "(request_buf \<Rightarrow> request_buf) \<Rightarrow> coap_ctx \<Rightarrow> int \<Rightarrow> coap_ctx outcome" where
  "orient_on_unregister wait cx reg = generic_on_unregister wait cx reg ZESENSE_SENSOR_TYPE_ORIENTATION"

definition gyro_on_unregister :: "(request_buf \<Rightarrow> request_buf) \<Rightarrow> coap_ctx \<Rightarrow> int \<Rightarrow> coap_ctx outcome" where
  "gyro_on_unregister wait cx reg = generic_on_unregister wait cx reg ASENSOR_TYPE_GYROSCOPE"

text \<open>The call through the pointer \<open>resource->on_unregister\<close>.\<close>

fun on_unregister :: "res_name \<Rightarrow> (request_buf \<Rightarrow> request_buf) \<Rightarrow> coap_ctx \<Rightarrow> int \<Rightarrow> coap_ctx outcome" where
  "on_unregister Accel = accel_on_unregister"
| "on_unregister Location = location_on_unregister"
| "on_unregister Proximity = proximity_on_unregister"
| "on_unregister Light = light_on_unregister"
| "on_unregister Orient = orient_on_unregister"
| "on_unregister Gyro = gyro_on_unregister"

definition generic_GET_handler ::
    "coap_lib \<Rightarrow> (request_buf \<Rightarrow> request_buf) \<Rightarrow> coap_ctx \<Rightarrow> resource \<Rightarrow> coap_request \<Rightarrow> int \<Rightarrow> coap_ctx outcome" where
  "generic_GET_handler L wait cx res req sensor =
     (let freq = 10
      in if cr_observe req then
           if re_observable res = 1 then
             (let (reg, regs1) = lib_add_registration L (cx_regs cx) (re_uri res) (cr_peer req) (cr_token req);
                  (ticket, regs2) = lib_checkout L regs1 reg
              in Inr (put_request wait (cx\<lparr>cx_regs := regs2\<rparr>) SM_REQ_START sensor ticket freq))
           else
             (case lib_register_async L (cx_regs cx) req of
                None \<Rightarrow> Inl NullDeref
              | Some tid \<Rightarrow> Inr (put_request wait cx SM_REQ_ONESHOT sensor tid 0))
         else
           (case lib_register_async L (cx_regs cx) req of
              None \<Rightarrow> Inl NullDeref
            | Some tid \<Rightarrow>
                let cx1 = put_request wait cx SM_REQ_ONESHOT sensor tid 0
                in case lib_find_registration L (cx_regs cx1) (re_uri res) (cr_peer req) of
                     None \<Rightarrow> Inr cx1
                   | Some reg \<Rightarrow> on_unregister (re_on_unregister res) wait cx1 reg))"

section \<open>The handlers of each resource\<close>

definition accel_GET_handler ::
    "coap_lib \<Rightarrow> (request_buf \<Rightarrow> request_buf) \<Rightarrow> coap_ctx \<Rightarrow> resource \<Rightarrow> coap_request \<Rightarrow> coap_ctx outcome" where
  "accel_GET_handler L wait cx res req = generic_GET_handler L wait cx res req ASENSOR_TYPE_ACCELEROMETER"

definition accel_POST_handler :: "coap_ctx \<Rightarrow> coap_ctx" where
  "accel_POST_handler cx = generic_POST_handler (cx\<lparr>cx_accel_rr := i32 (cx_accel_rr cx + 1)\<rparr>)"

definition location_GET_handler ::
    "coap_lib \<Rightarrow> (request_buf \<Rightarrow> request_buf) \<Rightarrow> coap_ctx \<Rightarrow> resource \<Rightarrow> coap_request \<Rightarrow> coap_ctx outcome" where
  "location_GET_handler L wait cx res req = generic_GET_handler L wait cx res req ZESENSE_SENSOR_TYPE_LOCATION"

definition location_POST_handler :: "coap_ctx \<Rightarrow> coap_ctx" where
  "location_POST_handler cx = generic_POST_handler (cx\<lparr>cx_location_rr := i32 (cx_location_rr cx + 1)\<rparr>)"

definition proximity_GET_handler ::
    "coap_lib \<Rightarrow> (request_buf \<Rightarrow> request_buf) \<Rightarrow> coap_ctx \<Rightarrow> resource \<Rightarrow> coap_request \<Rightarrow> coap_ctx outcome" where
  "proximity_GET_handler L wait cx res req = generic_GET_handler L wait cx res req ASENSOR_TYPE_PROXIMITY"

definition proximity_POST_handler :: "coap_ctx \<Rightarrow> coap_ctx" where
  "proximity_POST_handler cx = generic_POST_handler (cx\<lparr>cx_prox_rr := i32 (cx_prox_rr cx + 1)\<rparr>)"

definition light_GET_handler ::
    "coap_lib \<Rightarrow> (request_buf \<Rightarrow> request_buf) \<Rightarrow> coap_ctx \<Rightarrow> resource \<Rightarrow> coap_request \<Rightarrow> coap_ctx outcome" where
  "light_GET_handler L wait cx res req = generic_GET_handler L wait cx res req ASENSOR_TYPE_LIGHT"

definition light_POST_handler :: "coap_ctx \<Rightarrow> coap_ctx" where
  "light_POST_handler cx = generic_POST_handler (cx\<lparr>cx_light_rr := i32 (cx_light_rr cx + 1)\<rparr>)"

definition orient_GET_handler ::
    "coap_lib \<Rightarrow> (request_buf \<Rightarrow> request_buf) \<Rightarrow> coap_ctx \<Rightarrow> resource \<Rightarrow> coap_request \<Rightarrow> coap_ctx outcome" where
  "orient_GET_handler L wait cx res req = generic_GET_handler L wait cx res req ZESENSE_SENSOR_TYPE_ORIENTATION"

definition orient_POST_handler :: "coap_ctx \<Rightarrow> coap_ctx" where
  "orient_POST_handler cx = generic_POST_handler (cx\<lparr>cx_orient_rr := i32 (cx_orient_rr cx + 1)\<rparr>)"

definition gyro_GET_handler ::
    "coap_lib \<Rightarrow> (request_buf \<Rightarrow> request_buf) \<Rightarrow> coap_ctx \<Rightarrow> resource \<Rightarrow> coap_request \<Rightarrow> coap_ctx outcome" where
  "gyro_GET_handler L wait cx res req = generic_GET_handler L wait cx res req ASENSOR_TYPE_GYROSCOPE"

definition gyro_POST_handler :: "coap_ctx \<Rightarrow> coap_ctx" where
  "gyro_POST_handler cx = generic_POST_handler (cx\<lparr>cx_gyro_rr := i32 (cx_gyro_rr cx + 1)\<rparr>)"

fun GET_handler :: "res_name \<Rightarrow> coap_lib \<Rightarrow> (request_buf \<Rightarrow> request_buf) \<Rightarrow> coap_ctx \<Rightarrow> resource \<Rightarrow> coap_request
    \<Rightarrow> coap_ctx outcome" where
  "GET_handler Accel = accel_GET_handler"
| "GET_handler Location = location_GET_handler"
| "GET_handler Proximity = proximity_GET_handler"
| "GET_handler Light = light_GET_handler"
| "GET_handler Orient = orient_GET_handler"
| "GET_handler Gyro = gyro_GET_handler"

fun POST_handler :: "res_name \<Rightarrow> coap_ctx \<Rightarrow> coap_ctx" where
  "POST_handler Accel = accel_POST_handler"
| "POST_handler Location = location_POST_handler"
| "POST_handler Proximity = proximity_POST_handler"
| "POST_handler Light = light_POST_handler"
| "POST_handler Orient = orient_POST_handler"
| "POST_handler Gyro = gyro_POST_handler"

lemmas on_unregister_defs = accel_on_unregister_def location_on_unregister_def proximity_on_unregister_def
  light_on_unregister_def orient_on_unregister_def gyro_on_unregister_def

lemmas GET_handler_defs = accel_GET_handler_def location_GET_handler_def proximity_GET_handler_def
  light_GET_handler_def orient_GET_handler_def gyro_GET_handler_def

lemmas POST_handler_defs = accel_POST_handler_def location_POST_handler_def proximity_POST_handler_def
  light_POST_handler_def orient_POST_handler_def gyro_POST_handler_def generic_POST_handler_def

section \<open>The resources\<close>

text \<open>The bytes of a string literal of C that \<open>coap_resource_init\<close> is told to take as the URI.\<close>

definition c_bytes :: "string \<Rightarrow> nat \<Rightarrow> string" where
  "c_bytes s n = take n (s @ [CHR 0x00])"

definition coap_resource_init :: "string \<Rightarrow> nat \<Rightarrow> res_name \<Rightarrow> res_name \<Rightarrow> res_name \<Rightarrow> int \<Rightarrow> resource" where
  "coap_resource_init uri len get post unreg obs =
     \<lparr>re_uri = c_bytes uri len, re_get = get, re_post = post, re_on_unregister = unreg, re_observable = obs\<rparr>"

definition ze_coap_init_accel :: resource where
  "ze_coap_init_accel = coap_resource_init ''accel'' 5 Accel Accel Accel 1"

definition ze_coap_init_location :: resource where
  "ze_coap_init_location = coap_resource_init ''location'' 9 Location Location Location 1"

definition ze_coap_init_proximity :: resource where
  "ze_coap_init_proximity = coap_resource_init ''proximity'' 9 Proximity Proximity Proximity 1"

definition ze_coap_init_light :: resource where
  "ze_coap_init_light = coap_resource_init ''light'' 5 Light Light Light 1"

definition ze_coap_init_orient :: resource where
  "ze_coap_init_orient = coap_resource_init ''orientation'' 11 Orient Orient Orient 1"

definition ze_coap_init_gyro :: resource where
  "ze_coap_init_gyro = coap_resource_init ''gyroscope'' 9 Gyro Gyro Gyro 1"

definition coap_add_resource :: "coap_ctx \<Rightarrow> resource \<Rightarrow> coap_ctx" where
  "coap_add_resource cx r = cx\<lparr>cx_added := cx_added cx @ [r]\<rparr>"

definition ze_coap_init_resources :: "coap_ctx \<Rightarrow> coap_ctx" where
  "ze_coap_init_resources cx =
     (let cx0 = cx\<lparr>cx_accel_rr := 0, cx_prox_rr := 0, cx_light_rr := 0, cx_gyro_rr := 0, cx_location_rr := 0,
                cx_orient_rr := 0, cx_RR_REC := 0\<rparr>
      in foldl coap_add_resource cx0
           [ze_coap_init_accel, ze_coap_init_location, ze_coap_init_proximity, ze_coap_init_light,
            ze_coap_init_orient, ze_coap_init_gyro])"

lemmas init_defs = ze_coap_init_accel_def ze_coap_init_location_def ze_coap_init_proximity_def
  ze_coap_init_light_def ze_coap_init_orient_def ze_coap_init_gyro_def coap_resource_init_def
  coap_add_resource_def ze_coap_init_resources_def c_bytes_def

text \<open>The specification: the sensor a resource stands for.\<close>

fun sensor_of :: "res_name \<Rightarrow> int" where
  "sensor_of Accel = 1"
| "sensor_of Location = 14"
| "sensor_of Proximity = 8"
| "sensor_of Light = 5"
| "sensor_of Orient = 3"
| "sensor_of Gyro = 4"

lemma on_unregister_eq: "on_unregister n wait cx reg = generic_on_unregister wait cx reg (sensor_of n)"
  by (cases n) (simp_all add: on_unregister_defs sensor_codes)

lemma GET_handler_eq: "GET_handler n L wait cx res req = generic_GET_handler L wait cx res req (sensor_of n)"
  by (cases n) (simp_all add: GET_handler_defs sensor_codes)

lemma put_request_list:
  assumes "reqbuf_wf (cx_smreqbuf cx)" and "length (requests (cx_smreqbuf cx)) < 20"
  shows "requests (cx_smreqbuf (put_request wait cx rt s t f)) = requests (cx_smreqbuf cx) @
      [\<lparr>rq_rtype = rt, rq_sensor = s, rq_ticket = t, rq_freq = f\<rparr>]
    \<and> reqbuf_wf (cx_smreqbuf (put_request wait cx rt s t f))
    \<and> cx_regs (put_request wait cx rt s t f) = cx_regs cx"
  using assms put_request_room_list [OF assms(1), of wait rt s t f] put_request_room_wf [OF assms(1), of wait rt s t f]
  by (simp add: put_request_def SM_RBUF_SIZE_def)

section \<open>Properties\<close>

text \<open>
  C29. A GET with the observe option on one of the six resources, with room in the request buffer, puts exactly one
  request behind those there: a START for the sensor of the resource at 10 Hz, whose ticket is the
  registration of the client, checked out once for the Streaming Manager.
\<close>

theorem observe_request:
  assumes "reqbuf_wf (cx_smreqbuf cx)" and "length (requests (cx_smreqbuf cx)) < 20"
    and "cr_observe req" and "re_observable res = 1"
    and "lib_add_registration L (cx_regs cx) (re_uri res) (cr_peer req) (cr_token req) = (reg, regs1)"
    and "lib_checkout L regs1 reg = (reg, regs2)"
  shows "\<exists>cx'. GET_handler n L wait cx res req = Inr cx' \<and> cx_regs cx' = regs2
    \<and> requests (cx_smreqbuf cx') = requests (cx_smreqbuf cx) @
        [\<lparr>rq_rtype = SM_REQ_START, rq_sensor = sensor_of n, rq_ticket = reg, rq_freq = 10\<rparr>]"
  using put_request_list [of "cx\<lparr>cx_regs := regs2\<rparr>" wait SM_REQ_START "sensor_of n" reg 10] assms
  by (simp add: GET_handler_eq generic_GET_handler_def)

definition plain_lib :: "coap_lib" where
  "plain_lib = \<lparr>lib_add_registration = (\<lambda>regs uri peer tk. (100 + peer, regs)), lib_checkout = (\<lambda>regs reg. (reg, regs)),
     lib_find_registration = (\<lambda>regs uri peer. if regs (100 + peer) = None then None else Some (100 + peer)),
     lib_register_async = (\<lambda>regs req. Some (cr_id req))\<rparr>"

definition empty_ctx :: "registrations \<Rightarrow> coap_ctx" where
  "empty_ctx regs = \<lparr>cx_regs = regs, cx_smreqbuf = the (init_sm_buf True), cx_accel_rr = 0, cx_prox_rr = 0,
     cx_light_rr = 0, cx_gyro_rr = 0, cx_location_rr = 0, cx_orient_rr = 0, cx_RR_REC = 0, cx_added = []\<rparr>"

lemma empty_ctx_buf: "reqbuf_wf (cx_smreqbuf (empty_ctx regs))" "requests (cx_smreqbuf (empty_ctx regs)) = []"
  using init_sm_buf_wf [of True] by (simp_all add: empty_ctx_def init_sm_buf_def)

definition get_request_msg :: "bool \<Rightarrow> coap_request" where
  "get_request_msg obs = \<lparr>cr_observe = obs, cr_peer = 5, cr_token = [], cr_id = 77\<rparr>"

theorem observe_request_witness:
  "\<exists>cx'. GET_handler Light plain_lib id (empty_ctx Map.empty) ze_coap_init_light (get_request_msg True) = Inr cx'
     \<and> requests (cx_smreqbuf cx') = [\<lparr>rq_rtype = SM_REQ_START, rq_sensor = 5, rq_ticket = 105, rq_freq = 10\<rparr>]"
proof -
  have h: "requests (cx_smreqbuf (empty_ctx Map.empty)) = []" by (rule empty_ctx_buf)
  have l: "length (requests (cx_smreqbuf (empty_ctx Map.empty))) < 20" unfolding h by simp
  have a: "cr_observe (get_request_msg True)" "re_observable ze_coap_init_light = 1"
    "lib_add_registration plain_lib (cx_regs (empty_ctx Map.empty)) (re_uri ze_coap_init_light)
      (cr_peer (get_request_msg True)) (cr_token (get_request_msg True)) = (105, Map.empty)"
    "lib_checkout plain_lib Map.empty 105 = (105, Map.empty)"
    by (simp_all add: get_request_msg_def plain_lib_def init_defs empty_ctx_def)
  show ?thesis using observe_request [OF empty_ctx_buf(1) l a, of Light id] unfolding h by auto
qed

lemma plain_get_effect:
  assumes "reqbuf_wf (cx_smreqbuf cx)" and "length (requests (cx_smreqbuf cx)) < 19"
    and "\<not> cr_observe req" and "lib_register_async L (cx_regs cx) req = Some tid"
    and "\<And>reg. lib_find_registration L (cx_regs cx) (re_uri res) (cr_peer req) = Some reg \<Longrightarrow> cx_regs cx reg \<noteq> None"
  shows "\<exists>cx'. GET_handler n L wait cx (res\<lparr>re_on_unregister := n\<rparr>) req = Inr cx'
    \<and> (case lib_find_registration L (cx_regs cx) (re_uri res) (cr_peer req) of
         None \<Rightarrow> cx_regs cx' = cx_regs cx \<and> requests (cx_smreqbuf cx') = requests (cx_smreqbuf cx) @
           [\<lparr>rq_rtype = SM_REQ_ONESHOT, rq_sensor = sensor_of n, rq_ticket = tid, rq_freq = 0\<rparr>]
       | Some reg \<Rightarrow> map_option rg_invalid (cx_regs cx' reg) = Some 1
           \<and> requests (cx_smreqbuf cx') = requests (cx_smreqbuf cx) @
           [\<lparr>rq_rtype = SM_REQ_ONESHOT, rq_sensor = sensor_of n, rq_ticket = tid, rq_freq = 0\<rparr>,
            \<lparr>rq_rtype = SM_REQ_STOP, rq_sensor = sensor_of n, rq_ticket = reg, rq_freq = 0\<rparr>])"
proof -
  let ?cx1 = "put_request wait cx SM_REQ_ONESHOT (sensor_of n) tid 0"
  have p1: "requests (cx_smreqbuf ?cx1) = requests (cx_smreqbuf cx) @
      [\<lparr>rq_rtype = SM_REQ_ONESHOT, rq_sensor = sensor_of n, rq_ticket = tid, rq_freq = 0\<rparr>]"
    "reqbuf_wf (cx_smreqbuf ?cx1)" "cx_regs ?cx1 = cx_regs cx"
    using put_request_list [OF assms(1), of wait SM_REQ_ONESHOT "sensor_of n" tid 0] assms(2) by simp_all
  show ?thesis
  proof (cases "lib_find_registration L (cx_regs cx) (re_uri res) (cr_peer req)")
    case None
    with p1 assms show ?thesis
      by (simp add: GET_handler_eq generic_GET_handler_def Let_def)
  next
    case (Some reg)
    obtain r where r: "cx_regs cx reg = Some r" using assms(5) [OF Some] by blast
    let ?cx2 = "?cx1\<lparr>cx_regs := (cx_regs cx)(reg \<mapsto> r\<lparr>rg_invalid := 1\<rparr>)\<rparr>"
    have "length (requests (cx_smreqbuf ?cx2)) < 20"
      using arg_cong [OF p1(1), of length] assms(2) by simp
    then have p2: "requests (cx_smreqbuf (put_request wait ?cx2 SM_REQ_STOP (sensor_of n) reg 0)) =
        requests (cx_smreqbuf ?cx1) @ [\<lparr>rq_rtype = SM_REQ_STOP, rq_sensor = sensor_of n, rq_ticket = reg, rq_freq = 0\<rparr>]"
      "cx_regs (put_request wait ?cx2 SM_REQ_STOP (sensor_of n) reg 0) = cx_regs ?cx2"
      using put_request_list [of ?cx2 wait SM_REQ_STOP "sensor_of n" reg 0] p1(2) by simp_all
    have "GET_handler n L wait cx (res\<lparr>re_on_unregister := n\<rparr>) req = Inr (put_request wait ?cx2 SM_REQ_STOP (sensor_of n) reg 0)"
      using assms(3,4) Some r p1(3)
      by (simp add: GET_handler_eq generic_GET_handler_def Let_def on_unregister_eq generic_on_unregister_def)
    with p1(1) p2 Some show ?thesis by simp
  qed
qed

text \<open>
  A plain GET, with room for two requests and an asynchronous state from libcoap, puts a ONESHOT with the id of
  that state; if the client observes the resource, the STOP of its registration follows right behind it and the
  registration is marked invalid, and otherwise nothing else happens.
\<close>

theorem plain_get_request:
  assumes "reqbuf_wf (cx_smreqbuf cx)" and "length (requests (cx_smreqbuf cx)) < 19"
    and "\<not> cr_observe req" and "lib_register_async L (cx_regs cx) req = Some tid"
    and "\<And>reg. lib_find_registration L (cx_regs cx) (re_uri res) (cr_peer req) = Some reg \<Longrightarrow> cx_regs cx reg \<noteq> None"
  shows "\<exists>cx'. GET_handler n L wait cx (res\<lparr>re_on_unregister := n\<rparr>) req = Inr cx'
    \<and> (case lib_find_registration L (cx_regs cx) (re_uri res) (cr_peer req) of
         None \<Rightarrow> cx_regs cx' = cx_regs cx \<and> requests (cx_smreqbuf cx') = requests (cx_smreqbuf cx) @
           [\<lparr>rq_rtype = SM_REQ_ONESHOT, rq_sensor = sensor_of n, rq_ticket = tid, rq_freq = 0\<rparr>]
       | Some reg \<Rightarrow> map_option rg_invalid (cx_regs cx' reg) = Some 1
           \<and> requests (cx_smreqbuf cx') = requests (cx_smreqbuf cx) @
           [\<lparr>rq_rtype = SM_REQ_ONESHOT, rq_sensor = sensor_of n, rq_ticket = tid, rq_freq = 0\<rparr>,
            \<lparr>rq_rtype = SM_REQ_STOP, rq_sensor = sensor_of n, rq_ticket = reg, rq_freq = 0\<rparr>])"
  by (rule plain_get_effect [OF assms])

definition one_registration :: registration where
  "one_registration = \<lparr>rg_subscriber = 5, rg_token = [], rg_reskey = 0, rg_invalid = 0, rg_fail_cnt = 0, rg_non_cnt = 0,
     rg_notcnt = 0, rg_ntptwin = 0, rg_rtptwin = 0, rg_datapackcount = 0, rg_octcount = 0, rg_last_sr_octcount = 0,
     rg_last_sr_packcount = 0\<rparr>"

theorem plain_get_request_witness:
  "\<exists>cx'. GET_handler Light plain_lib id (empty_ctx [105 \<mapsto> one_registration]) ze_coap_init_light (get_request_msg False)
       = Inr cx'
     \<and> map rq_rtype (requests (cx_smreqbuf cx')) = [SM_REQ_ONESHOT, SM_REQ_STOP]"
proof -
  have e: "ze_coap_init_light\<lparr>re_on_unregister := Light\<rparr> = ze_coap_init_light" by (simp add: init_defs)
  let ?cx = "empty_ctx [105 \<mapsto> one_registration]" and ?q = "get_request_msg False"
  have h: "requests (cx_smreqbuf ?cx) = []" by (rule empty_ctx_buf)
  have l: "length (requests (cx_smreqbuf ?cx)) < 19" unfolding h by simp
  have f: "lib_find_registration plain_lib (cx_regs ?cx) (re_uri ze_coap_init_light) (cr_peer ?q) = Some 105"
    by (simp add: plain_lib_def empty_ctx_def get_request_msg_def)
  have a: "\<not> cr_observe ?q" "lib_register_async plain_lib (cx_regs ?cx) ?q = Some 77"
    "\<And>reg. lib_find_registration plain_lib (cx_regs ?cx) (re_uri ze_coap_init_light) (cr_peer ?q) = Some reg
      \<Longrightarrow> cx_regs ?cx reg \<noteq> None"
    using f by (simp_all add: get_request_msg_def plain_lib_def empty_ctx_def)
  show ?thesis
    using plain_get_request [where res = ze_coap_init_light and n = Light and wait = id, OF empty_ctx_buf(1) l a] unfolding e f h by auto
qed

text \<open>
  The resource tree after initialisation: six observable resources, each of which has the three handlers of its own
  sensor, and their URIs. All are the names of their sensors but one: the length given for \<open>location\<close> is one too
  many, so its URI ends in a NUL byte and differs from \<open>location\<close>.
\<close>

theorem resource_tree:
  "map (\<lambda>r. (re_uri r, sensor_of (re_get r))) (cx_added (ze_coap_init_resources (empty_ctx regs))) =
     [(''accel'', 1), (''location'' @ [CHR 0x00], 14), (''proximity'', 8), (''light'', 5), (''orientation'', 3),
      (''gyroscope'', 4)]
   \<and> list_all (\<lambda>r. re_post r = re_get r \<and> re_on_unregister r = re_get r \<and> re_observable r = 1)
       (cx_added (ze_coap_init_resources (empty_ctx regs)))
   \<and> ''location'' \<notin> re_uri ` set (cx_added (ze_coap_init_resources (empty_ctx regs)))"
  by (simp add: init_defs empty_ctx_def)

text \<open>The counters of the receiver reports, per resource.\<close>

definition rr_sum :: "coap_ctx \<Rightarrow> int" where
  "rr_sum cx = cx_accel_rr cx + cx_location_rr cx + cx_prox_rr cx + cx_light_rr cx + cx_orient_rr cx + cx_gyro_rr cx"

fun rr_of :: "res_name \<Rightarrow> coap_ctx \<Rightarrow> int" where
  "rr_of Accel = cx_accel_rr" | "rr_of Location = cx_location_rr" | "rr_of Proximity = cx_prox_rr"
| "rr_of Light = cx_light_rr" | "rr_of Orient = cx_orient_rr" | "rr_of Gyro = cx_gyro_rr"

lemma POST_count:
  "i32 (rr_sum (POST_handler n cx)) = i32 (rr_sum cx + 1) \<and> cx_RR_REC (POST_handler n cx) = i32 (cx_RR_REC cx + 1)"
proof -
  have "rr_sum (POST_handler n cx) = i32 (rr_of n cx + 1) + (rr_sum cx - rr_of n cx)"
    by (cases n) (simp_all add: POST_handler_defs rr_sum_def)
  then have "i32 (rr_sum (POST_handler n cx)) = i32 (rr_of n cx + 1 + (rr_sum cx - rr_of n cx))"
    by (simp only: i32_add_left)
  moreover have "cx_RR_REC (POST_handler n cx) = i32 (cx_RR_REC cx + 1)"
    by (cases n) (simp_all add: POST_handler_defs)
  ultimately show ?thesis by (simp add: add.commute)
qed

lemma POSTs_count:
  "i32 (rr_sum (foldl (\<lambda>cx n. POST_handler n cx) cx ns)) = i32 (rr_sum cx + int (length ns))
   \<and> i32 (cx_RR_REC (foldl (\<lambda>cx n. POST_handler n cx) cx ns)) = i32 (cx_RR_REC cx + int (length ns))"
proof (induction ns arbitrary: cx)
  case (Cons n ns)
  have s: "i32 (i32 x + y) = i32 (i32 z + y)" if "i32 x = i32 z" for x y z using that by simp
  have a: "i32 (rr_sum (POST_handler n cx) + int (length ns)) = i32 (rr_sum cx + 1 + int (length ns))"
    using POST_count [of n cx] by (metis i32_add_left)
  have b: "i32 (cx_RR_REC (POST_handler n cx) + int (length ns)) = i32 (cx_RR_REC cx + 1 + int (length ns))"
    using POST_count [of n cx] by (simp add: i32_add_left)
  show ?case using Cons [of "POST_handler n cx"] a b by (simp add: algebra_simps)
qed simp

text \<open>
  Every receiver report is counted once in its resource and once in the total: after initialisation and any sequence
  of POSTs the total is their number, and the six counters add up to it, all modulo the width of an \<open>int\<close>.
\<close>

theorem receiver_reports_counted:
  "i32 (cx_RR_REC (foldl (\<lambda>cx n. POST_handler n cx) (ze_coap_init_resources cx) ns)) = i32 (int (length ns))
   \<and> i32 (rr_sum (foldl (\<lambda>cx n. POST_handler n cx) (ze_coap_init_resources cx) ns)) = i32 (int (length ns))"
  using POSTs_count [of "ze_coap_init_resources cx" ns] by (simp add: init_defs rr_sum_def)

end
