(* ===== verification/Binary64.thy ===== *)
theory Binary64
  imports FormatE
begin

text \<open>
  Binary floating point of precision \<open>p\<close> (53 for a C \<open>double\<close>), rounded to nearest, ties to even, as exact
  integer arithmetic. A nonnegative number is a pair \<open>(m, k)\<close> of the value \<open>m / 2 ^ k\<close>; the operations the program
  uses have operands and results below \<open>2 ^ p\<close> and far above the subnormal numbers, so \<open>k\<close> is a natural number.
\<close>

section \<open>Operations\<close>

text \<open>The first \<open>k\<close> with \<open>2 ^ (p - 1) \<le> (a / b) * 2 ^ k\<close>; 1074 is the largest exponent a double has.\<close>

definition fp_shift :: "nat \<Rightarrow> nat \<Rightarrow> nat \<Rightarrow> nat" where
  "fp_shift p a b = (case find (\<lambda>k. 2 ^ (p - 1) * b \<le> a * 2 ^ k) [0..<1075] of Some k \<Rightarrow> k | None \<Rightarrow> 1074)"

text \<open>The number nearest to \<open>a / b\<close>.\<close>

definition fp_round :: "nat \<Rightarrow> nat \<Rightarrow> nat \<Rightarrow> nat \<times> nat" where
  "fp_round p a b = (let k = fp_shift p a b in (round_half_even (a * 2 ^ k) b, k))"

definition fp_mul_int :: "nat \<Rightarrow> nat \<times> nat \<Rightarrow> nat \<Rightarrow> nat \<times> nat" where
  "fp_mul_int p x n = (case x of (m, k) \<Rightarrow> fp_round p (m * n) (2 ^ k))"

text \<open>The conversion to an integer, and what it cuts off (a subtraction that is exact).\<close>

definition fp_trunc :: "nat \<times> nat \<Rightarrow> nat" where
  "fp_trunc x = (case x of (m, k) \<Rightarrow> m div 2 ^ k)"

definition fp_fraction :: "nat \<times> nat \<Rightarrow> nat \<times> nat" where
  "fp_fraction x = (case x of (m, k) \<Rightarrow> (m mod 2 ^ k, k))"

section \<open>The error of a rounding\<close>

lemma find_upt_Some: "P n \<Longrightarrow> n < N \<Longrightarrow> (\<And>j. j < n \<Longrightarrow> \<not> P j) \<Longrightarrow> find P [0..<N] = Some n"
  by (auto simp: find_Some_iff intro!: exI [of _ n])

text \<open>The shift is the one that puts the quotient between \<open>2 ^ (p - 1)\<close> and \<open>2 ^ p\<close>.\<close>

lemma fp_shift_eq:
  assumes "0 < p" and "2 ^ (p - 1) * b \<le> a * 2 ^ k" and "a * 2 ^ k < 2 ^ p * b" and "k < 1075"
  shows "fp_shift p a b = k"
proof -
  have "\<not> 2 ^ (p - 1) * b \<le> a * 2 ^ j" if "j < k" for j
  proof -
    have "a * 2 ^ j * 2 \<le> a * 2 ^ k" 
      using power_increasing [of "Suc j" k "2 :: nat"] that by simp
    also have "\<dots> < 2 ^ (p - 1) * b * 2" using assms(1,3) by (cases p) simp_all
    finally show ?thesis by simp
  qed
  then show ?thesis unfolding fp_shift_def using assms(2,4) by (simp add: find_upt_Some [of _ k])
qed

lemma fp_round_eval:
  assumes "0 < p" and "2 ^ (p - 1) * b \<le> a * 2 ^ k" and "a * 2 ^ k < 2 ^ p * b" and "k < 1075"
  shows "fp_round p a b = (round_half_even (a * 2 ^ k) b, k)"
  using fp_shift_eq [OF assms] by (simp add: fp_round_def)

lemma round_half_even_scale: "0 < c \<Longrightarrow> round_half_even (a * c) (b * c) = round_half_even a b"
proof -
  assume c: "0 < c"
  then have "2 * (a * c mod (b * c)) > b * c \<longleftrightarrow> 2 * (a mod b) > b" "2 * (a * c mod (b * c)) = b * c \<longleftrightarrow> 2 * (a mod b) = b"
    by (simp_all add: mult_mod_left [symmetric] mult.assoc [symmetric])
  with c show ?thesis by (simp add: round_half_even_def Let_def)
qed

text \<open>Dividing by a power of two more only shifts.\<close>

lemma fp_round_shift:
  assumes "0 < p" and "2 ^ (p - 1) * b \<le> a * 2 ^ k" and "a * 2 ^ k < 2 ^ p * b" and "k + i < 1075"
  shows "fp_round p a (b * 2 ^ i) = (round_half_even (a * 2 ^ k) b, k + i)"
proof -
  have "fp_round p a (b * 2 ^ i) = (round_half_even (a * 2 ^ k * 2 ^ i) (b * 2 ^ i), k + i)"
    using fp_round_eval [of p "b * 2 ^ i" a "k + i"] assms by (simp add: power_add mult.assoc [symmetric])
  then show ?thesis by (simp add: round_half_even_scale)
qed

lemma fp_shift_exists:
  fixes a b p :: nat
  assumes "0 < p" and "0 < a" and "a < 2 ^ p * b" and "2 ^ (p - 1) * b \<le> a * 2 ^ 1074"
  obtains k where "k < 1075" "2 ^ (p - 1) * b \<le> a * 2 ^ k" "a * 2 ^ k < 2 ^ p * b"
proof -
  let ?P = "\<lambda>k. 2 ^ (p - 1) * b \<le> a * 2 ^ k"
  define k where "k = (LEAST k. ?P k)"
  have k: "?P k" "k \<le> 1074"
    using LeastI [of ?P, OF assms(4)] Least_le [of ?P, OF assms(4)] by (simp_all add: k_def)
  have "a * 2 ^ k < 2 ^ p * b"
  proof (cases k)
    case 0
    with assms(3) show ?thesis by simp
  next
    case (Suc j)
    then have "\<not> ?P j" using not_less_Least [of j ?P] by (simp add: k_def)
    then have "a * 2 ^ k < 2 * 2 ^ (p - 1) * b" using Suc by simp
    with assms(1) show ?thesis by (cases p) simp_all
  qed
  with k that [of k] show ?thesis by simp
qed

text \<open>The rounded quotient is off by at most half a unit in the last place: one part in \<open>2 ^ p\<close>.\<close>

lemma fp_round_error:
  assumes "0 < p" and "0 < a" and "0 < b" and "a < 2 ^ p * b" and "2 ^ (p - 1) * b \<le> a * 2 ^ 1074"
    and "fp_round p a b = (m, k)"
  shows "2 ^ (p - 1) * b \<le> a * 2 ^ k" and "a * 2 ^ k < 2 ^ p * b" and "k < 1075"
    and "2 * \<bar>int (m * b) - int (a * 2 ^ k)\<bar> \<le> int b"
proof -
  obtain j where j: "j < 1075" "2 ^ (p - 1) * b \<le> a * 2 ^ j" "a * 2 ^ j < 2 ^ p * b"
    using fp_shift_exists [OF assms(1,2,4,5)] .
  then have "fp_shift p a b = j" using assms(1) by (intro fp_shift_eq)
  with assms(6) have "k = j" "m = round_half_even (a * 2 ^ k) b" by (auto simp: fp_round_def Let_def)
  with j round_half_even_bound [OF assms(3), of "a * 2 ^ k"]
  show "2 ^ (p - 1) * b \<le> a * 2 ^ k" and "a * 2 ^ k < 2 ^ p * b" and "k < 1075"
    and "2 * \<bar>int (m * b) - int (a * 2 ^ k)\<bar> \<le> int b" by simp_all
qed

text \<open>The value, and the relative error of at most \<open>1 / 2 ^ p\<close>.\<close>

definition fp_val :: "nat \<times> nat \<Rightarrow> real" where
  "fp_val x = (case x of (m, k) \<Rightarrow> real m / 2 ^ k)"

lemma fp_round_relative:
  assumes "0 < p" and "0 < a" and "0 < b" and "a < 2 ^ p * b" and "2 ^ (p - 1) * b \<le> a * 2 ^ 1074"
  shows "\<bar>fp_val (fp_round p a b) - real a / real b\<bar> \<le> real a / real b / 2 ^ p"
proof -
  obtain m k where r: "fp_round p a b = (m, k)" by force
  note e = fp_round_error [OF assms r]
  let ?d = "\<bar>real m * real b - real a * 2 ^ k\<bar>"
  have d: "2 * ?d \<le> real b"
    using of_int_le_iff [where 'a = real, THEN iffD2, OF e(4)] by simp
  have "2 ^ p * ?d = 2 ^ (p - 1) * (2 * ?d)" using assms(1) by (cases p) simp_all
  also have "\<dots> \<le> 2 ^ (p - 1) * real b" using d by (intro mult_left_mono) simp_all
  also have "\<dots> \<le> real a * 2 ^ k"
    using of_nat_le_iff [where 'a = real, THEN iffD2, OF e(1)] by simp
  finally have f: "2 ^ p * ?d \<le> real a * 2 ^ k" .
  have "\<bar>real m / 2 ^ k - real a / real b\<bar> = ?d / (real b * 2 ^ k)"
  proof -
    have "real m / 2 ^ k - real a / real b = (real m * real b - real a * 2 ^ k) / (real b * 2 ^ k)"
      using assms(3) by (simp add: field_simps)
    then show ?thesis by (simp add: abs_mult)
  qed
  also have "\<dots> \<le> real a / real b / 2 ^ p"
    using f assms(3) by (simp add: field_simps)
  finally show ?thesis by (simp add: r fp_val_def)
qed

lemma fp_trunc_val: "real (fp_trunc x) \<le> fp_val x" "fp_val x < real (fp_trunc x) + 1"
proof -
  obtain m k where x: "x = (m, k)" by force
  have "real (m div 2 ^ k) * 2 ^ k \<le> real m"
    using of_nat_le_iff [where 'a = real, of "m div 2 ^ k * 2 ^ k" m] by simp
  moreover have "real m < (real (m div 2 ^ k) + 1) * 2 ^ k"
  proof -
    have "m < (m div 2 ^ k + 1) * 2 ^ k" using dividend_less_div_times [of "2 ^ k" m]
      by (simp add: algebra_simps)
    from of_nat_less_iff [where 'a = real, THEN iffD2, OF this] show ?thesis by (simp add: distrib_right)
  qed
  ultimately show "real (fp_trunc x) \<le> fp_val x" "fp_val x < real (fp_trunc x) + 1"
    by (simp_all add: x fp_trunc_def fp_val_def field_simps)
qed

lemma fp_fraction_val: "fp_val (fp_fraction x) = fp_val x - real (fp_trunc x)"
proof -
  obtain m k where x: "x = (m, k)" by force
  define q r where "q = m div 2 ^ k" and "r = m mod 2 ^ k"
  then have "m = q * 2 ^ k + r" by (simp only: div_mult_mod_eq)
  then have "real m = real q * 2 ^ k + real r" by simp
  then show ?thesis by (simp add: x fp_fraction_def fp_val_def fp_trunc_def q_def [symmetric] r_def [symmetric] field_simps)
qed

lemma fp_trunc_eq:
  assumes "real n \<le> fp_val x" and "fp_val x < real n + 1"
  shows "fp_trunc x = n"
proof -
  have "real (fp_trunc x) < real n + 1" "real n < real (fp_trunc x) + 1"
    using fp_trunc_val [of x] assms by linarith+
  then show ?thesis by linarith
qed

text \<open>Rounding never crosses an integer that is a number of the format.\<close>

lemma round_half_even_mono:
  assumes "a \<le> a'" and "0 < b"
  shows "round_half_even a b \<le> round_half_even a' b"
proof (cases "a div b = a' div b")
  case True
  then have "a mod b \<le> a' mod b" 
    using assms(1) by (metis add_le_cancel_left mult_div_mod_eq)
  with True show ?thesis by (auto simp: round_half_even_def Let_def)
next
  case False
  then have "a div b < a' div b" using div_le_mono [OF assms(1), of b] by simp
  then show ?thesis by (auto simp: round_half_even_def Let_def)
qed

lemma round_half_even_exact: "0 < b \<Longrightarrow> round_half_even (c * b) b = c"
  by (simp add: round_half_even_def Let_def)

lemma fp_round_lower:
  assumes "0 < b" and "c * b \<le> a" and "fp_round p a b = (m, k)"
  shows "c * 2 ^ k \<le> m"
proof -
  have "c * 2 ^ k * b \<le> a * 2 ^ k" using assms(2) by (simp add: mult.assoc mult.left_commute)
  from round_half_even_mono [OF this assms(1)] round_half_even_exact [OF assms(1)] assms(3)
  show ?thesis by (auto simp: fp_round_def Let_def)
qed

lemma fp_round_val_ge:
  assumes "0 < b" and "c * b \<le> a"
  shows "real c \<le> fp_val (fp_round p a b)"
proof -
  obtain m k where r: "fp_round p a b = (m, k)" by force
  from of_nat_le_iff [where 'a = real, THEN iffD2, OF fp_round_lower [OF assms r]] show ?thesis
    by (simp add: r fp_val_def field_simps)
qed

end
