(* ===== verification/ReportTime.thy ===== *)
theory ReportTime
  imports Binary64
begin

text \<open>
  \<open>ze_timing.c\<close>, \<open>ze_timing.h\<close>, and the time stamp of a sender report: the nanoseconds since the last data packet turned into
  ticks of the RTP clock by a \<open>double\<close> product.
\<close>

section \<open>Operations\<close>

definition get_ntp :: "int \<Rightarrow> int \<Rightarrow> int" where
  "get_ntp tv_sec tv_nsec = i64 (tv_sec * 1000000000 + tv_nsec)"

definition RTCP_SR_BANDWIDTH_THRESHOLD :: int where "RTCP_SR_BANDWIDTH_THRESHOLD = 1000"

text \<open>\<open>(double)RTP_TSCLOCK_FREQ/1000000000LL\<close>.\<close>

definition rtp_ratio :: "nat \<times> nat" where
  "rtp_ratio = fp_round 53 1000 1000000000"

text \<open>\<open>int rtpinc = (ratio)*(ntpdiff)\<close>: the product is rounded, then cut towards zero.\<close>

definition rtp_increment :: "int \<Rightarrow> int \<Rightarrow> int" where
  "rtp_increment ntpc ntptwin =
     (let ntpdiff = i32 (ntpc - ntptwin)
      in sgn ntpdiff * int (fp_trunc (fp_mul_int 53 rtp_ratio (nat \<bar>ntpdiff\<bar>))))"

section \<open>The product cuts to the exact quotient\<close>

text \<open>The ratio is below 10^-6, by less than a quarter of a unit in the last place.\<close>

lemma rtp_ratio_eval: "rtp_ratio = (4722366482869645, 72)"
proof -
  have "rtp_ratio = (round_half_even (1000 * 2 ^ 72) 1000000000, 72)"
    unfolding rtp_ratio_def by (rule fp_round_eval) simp_all
  also have "round_half_even (1000 * 2 ^ 72) 1000000000 = 4722366482869645"
    by (simp add: round_half_even_def Let_def)
  finally show ?thesis .
qed

lemma ratio_deficit: "4722366482869645 * 1000000 = 2 ^ 72 - (213696 :: nat)"
  by simp

text \<open>A whole number of ticks: the product falls short of it by too little not to be rounded to it.\<close>

lemma whole_ticks:
  assumes "0 < q" and "q < 2 ^ 20"
  shows "real q \<le> fp_val (fp_mul_int 53 rtp_ratio (1000000 * q))"
proof -
  let ?a = "4722366482869645 * (1000000 * q)"
  have a: "?a + q * 213696 = q * 2 ^ 72" by simp
  obtain m k where r: "fp_round 53 ?a (2 ^ 72) = (m, k)" by force
  have small: "?a < 2 ^ 53 * 2 ^ 72" using assms(2) by simp
  have big: "2 ^ (53 - 1) * 2 ^ 72 \<le> ?a * 2 ^ 1074"
  proof -
    have "(2 :: nat) ^ (53 - 1) * 2 ^ 72 \<le> 1 * 2 ^ 1074" unfolding power_add [symmetric] by (simp del: power_Suc)
    also have "\<dots> \<le> ?a * 2 ^ 1074" using assms(1) by (intro mult_right_mono) simp_all
    finally show ?thesis .
  qed
  note e = fp_round_error [OF _ _ _ small big r]
  define c where "c = q * 2 ^ k"
  have ac: "?a * 2 ^ k + c * 213696 = c * 2 ^ 72"
    using arg_cong [OF a, of "\<lambda>x. x * 2 ^ k"] by (simp add: c_def algebra_simps)
  have "?a * 2 ^ k < 2 ^ 53 * 2 ^ 72" using assms(1) by (intro e) simp_all
  with ac have c: "c \<le> 2 ^ 53" by simp
  have d: "2 * \<bar>int (m * 2 ^ 72) - int (?a * 2 ^ k)\<bar> \<le> int (2 ^ 72)"
    using assms(1) by (intro e) simp_all
  have "c \<le> m"
  proof (rule ccontr)
    assume "\<not> c \<le> m"
    then have m: "m * 2 ^ 72 + 2 ^ 72 \<le> c * 2 ^ 72" by simp
    define x where "x = ?a * 2 ^ k"
    have "x + c * 213696 = c * 2 ^ 72" "2 * \<bar>int (m * 2 ^ 72) - int x\<bar> \<le> 2 ^ 72"
      using ac d by (simp_all only: x_def of_nat_power of_nat_numeral)
    with m c show False by simp
  qed
  then have "real q * 2 ^ k \<le> real m" unfolding c_def using of_nat_le_iff [where 'a = real, of "q * 2 ^ k" m] by simp
  then have "real q \<le> fp_val (fp_round 53 ?a (2 ^ 72))" unfolding r by (simp add: fp_val_def field_simps)
  then show ?thesis unfolding fp_mul_int_def rtp_ratio_eval by (simp only: prod.case)
qed

lemma some_ticks:
  assumes "0 < n" and "n \<le> 2 ^ 31"
  shows "real (n div 1000000) \<le> fp_val (fp_mul_int 53 rtp_ratio n)"
    and "fp_val (fp_mul_int 53 rtp_ratio n) < real (n div 1000000) + 1"
proof -
  let ?q = "n div 1000000" and ?a = "4722366482869645 * n"
  have v: "fp_mul_int 53 rtp_ratio n = fp_round 53 ?a (2 ^ 72)"
    by (simp add: fp_mul_int_def rtp_ratio_eval)
  have n: "n = 1000000 * ?q + n mod 1000000" by simp
  show "real ?q \<le> fp_val (fp_mul_int 53 rtp_ratio n)"
  proof (cases "n mod 1000000 = 0")
    case True
    then have "n = 1000000 * ?q" using n by simp
    with assms whole_ticks [of ?q] show ?thesis by simp
  next
    case False
    define q where "q = ?q"
    have "1000000 * q + 1 \<le> n" using False n unfolding q_def by linarith
    moreover have "q \<le> 2148" using assms(2) div_le_mono [of n "2 ^ 31" 1000000] by (simp add: q_def)
    ultimately
    have "?q * 2 ^ 72 \<le> ?a" by (simp add: q_def [symmetric])
    then show ?thesis unfolding v by (intro fp_round_val_ge) simp_all
  qed
  have small: "?a < 2 ^ 53 * 2 ^ 72" using assms(2) by simp
  have big: "2 ^ (53 - 1) * 2 ^ 72 \<le> ?a * 2 ^ 1074"
  proof -
    have "(2 :: nat) ^ (53 - 1) * 2 ^ 72 \<le> 1 * 2 ^ 1074" unfolding power_add [symmetric] by (simp del: power_Suc)
    also have "\<dots> \<le> ?a * 2 ^ 1074" using assms(1) by (intro mult_right_mono) simp_all
    finally show ?thesis .
  qed
  have "\<bar>fp_val (fp_round 53 ?a (2 ^ 72)) - real ?a / real (2 ^ 72)\<bar> \<le> real ?a / real (2 ^ 72) / 2 ^ 53"
    using assms(1) small big by (intro fp_round_relative) simp_all
  moreover have le: "real ?a / real (2 ^ 72) \<le> real n / 1000000" by (simp add: field_simps)
  moreover have "real ?a / real (2 ^ 72) / 2 ^ 53 \<le> real n / 1000000 / 2 ^ 53" using le by (rule divide_right_mono) simp
  moreover have "real n / 1000000 + real n / 1000000 / 2 ^ 53 < real ?q + 1"
  proof -
    have "n mod 1000000 \<le> 999999" by simp
    then have "real n \<le> 1000000 * real ?q + 999999" using n by linarith
    with assms(2) show ?thesis by (simp add: field_simps)
  qed
  ultimately show "fp_val (fp_mul_int 53 rtp_ratio n) < real ?q + 1"
    unfolding v by linarith
qed

lemma rtp_increment_eq: "rtp_increment ntpc ntptwin = c_div (i32 (ntpc - ntptwin)) 1000000"
proof -
  let ?d = "i32 (ntpc - ntptwin)"
  have "in_i32 ?d" by simp
  then have d: "nat \<bar>?d\<bar> \<le> 2 ^ 31" unfolding in_i32_def by simp linarith
  show ?thesis
  proof (cases "?d = 0")
    case False
    then have "0 < nat \<bar>?d\<bar>" by simp
    from fp_trunc_eq [OF some_ticks [OF this d]] show ?thesis
      by (simp add: rtp_increment_def c_div_def Let_def nat_div_distrib zdiv_int)
  qed (simp add: rtp_increment_def c_div_def)
qed

section \<open>Properties\<close>

text \<open>
  C32. The RTP time of a sender report is computed with a rounded \<open>double\<close> ratio and a rounded product, and yet is exact: it is the
  integer quotient, rounded towards zero, of the nanoseconds (cut to an \<open>int\<close>) by the 10^6 nanoseconds of a tick, for every pair of times.
\<close>

theorem rtp_increment_exact:
  "rtp_increment ntpc ntptwin = c_div (i32 (ntpc - ntptwin)) 1000000
    \<and> \<bar>1000000 * rtp_increment ntpc ntptwin - i32 (ntpc - ntptwin)\<bar> < 1000000"
proof -
  have "\<bar>1000000 * c_div d 1000000 - d\<bar> < 1000000" for d
    using pos_mod_bound [of 1000000 "\<bar>d\<bar>"] mult_div_mod_eq [of 1000000 "\<bar>d\<bar>"]
    by (auto simp: c_div_def sgn_if abs_if)
  then show ?thesis by (simp add: rtp_increment_eq)
qed

end
