(* ===== verification/CoapServer.thy ===== *)
theory CoapServer
  imports ResponseBuffer Resources Payload ReportTime
begin

text \<open>
  \<open>ze_coap_server_core.c\<close>: the CoAP server thread's handling of the responses of the Streaming
  Manager, and the sender reports. What it asks of libcoap is recorded in order in \<open>sv_calls\<close>; the constants
  and answers of libcoap are in \<open>server_lib\<close>. The retransmissions and the reception of network
  requests at the head of the loop are libcoap's.
\<close>

section \<open>Names and byte order\<close>

definition CNAME :: string where "CNAME = ''android@zesense''"
definition CNAME_LENGTH :: nat where "CNAME_LENGTH = 15"
definition ZE_PAYLOAD_SR_LENGTH :: nat where "ZE_PAYLOAD_SR_LENGTH = 20"
definition SMREQ_RATIO :: nat where "SMREQ_RATIO = 5"

text \<open>\<open>htonll\<close> through the bytes in memory of a host of byte order \<open>e\<close>.\<close>

definition htonll :: "endian \<Rightarrow> int \<Rightarrow> int" where
  "htonll e value =
     (let low = hd (mem_of e 4 1);
          s = mem_of e 8 value
      in if low = 1 then mem_val e [s ! 7, s ! 6, s ! 5, s ! 4, s ! 3, s ! 2, s ! 1, s ! 0]
         else value)"

section \<open>The sender report\<close>

definition cname_bytes :: "byte list" where
  "cname_bytes = map (\<lambda>c. word_of_nat (of_char c)) (take CNAME_LENGTH CNAME)"

definition form_sr_payload :: "endian \<Rightarrow> bool \<Rightarrow> bool \<Rightarrow> int \<Rightarrow> registration \<Rightarrow> byte list option outcome" where
  "form_sr_payload e ok1 ok2 ntpc reg =
     (if \<not> ok1 then Inr None
      else if \<not> ok2 then Inr None
      else
        let totlength = 4 + ZE_PAYLOAD_SR_LENGTH + CNAME_LENGTH;
            ntp = htonll e (ntpc mod 2 ^ 64);
            rtpinc = rtp_increment ntpc (rg_ntptwin reg)
        in bindR (poke 0 [word_of_int SENDREPORT] (replicate totlength 0)) (\<lambda>d1.
           bindR (poke 1 [0] d1) (\<lambda>d2.
           bindR (poke 2 (be_bytes 2 15) d2) (\<lambda>d3.
           bindR (poke 4 (mem_of e 8 ntp) d3) (\<lambda>d4.
           bindR (poke 12 (be_bytes 4 (rg_rtptwin reg + rtpinc)) d4) (\<lambda>d5.
           bindR (poke 16 (be_bytes 4 (rg_datapackcount reg)) d5) (\<lambda>d6.
           bindR (poke 20 (be_bytes 4 (rg_octcount reg)) d6) (\<lambda>d7.
           bindR (poke 24 cname_bytes d7) (\<lambda>d8. Inr (Some d8))))))))))"

section \<open>The state of the server\<close>

datatype coap_option = OPTION_SUBSCRIPTION | OPTION_TOKEN

text \<open>A message as the code builds it: a 2.05 response, its options in the order they are added, and its data.\<close>

record pdu =
  pdu_type :: coap_message
  pdu_id :: int
  pdu_options :: "(coap_option \<times> byte list) list"
  pdu_data :: "byte list"

datatype coap_call =
    Send_confirmed int pdu
  | Send int pdu
  | Notify_confirmed int pdu int
  | Test_send int pdu
  | Registration_release int int
  | Remove_async int

record async =
  as_peer :: int
  as_token :: "byte list"
  as_id :: int

record server =
  sv_regs :: registrations
  sv_async :: "int \<rightharpoonup> async"
  sv_notbuf :: response_buf
  sv_firstSRsent :: int
  sv_SR_SENT_counter :: int
  sv_tick :: nat
  sv_calls :: "coap_call list"

text \<open>The numbers \<open>COAP_OBS_MAX_FAIL\<close> and \<open>COAP_OBS_MAX_NON\<close>, and the answers to the n-th question.\<close>

record server_lib =
  sl_max_fail :: int
  sl_max_non :: int
  sl_endian :: endian
  sl_message_id :: "nat \<Rightarrow> int"
  sl_malloc :: "nat \<Rightarrow> bool"
  sl_clock :: "nat \<Rightarrow> int"
  sl_checkout :: "registrations \<Rightarrow> int \<Rightarrow> int \<times> registrations"
  sl_release :: "registrations \<Rightarrow> int \<Rightarrow> registrations"

definition sv_call :: "coap_call \<Rightarrow> server \<Rightarrow> server" where
  "sv_call c sv = sv\<lparr>sv_calls := sv_calls sv @ [c]\<rparr>"

definition sv_next :: "server \<Rightarrow> server" where
  "sv_next sv = sv\<lparr>sv_tick := sv_tick sv + 1\<rparr>"

definition new_pdu :: "server_lib \<Rightarrow> server \<Rightarrow> coap_message \<Rightarrow> (coap_option \<times> byte list) list \<Rightarrow> byte list \<Rightarrow> pdu \<times> server" where
  "new_pdu L sv conf options payload =
     (\<lparr>pdu_type = conf, pdu_id = sl_message_id L (sv_tick sv), pdu_options = options, pdu_data = payload\<rparr>, sv_next sv)"

text \<open>\<open>coap_add_data\<close> of \<open>length\<close> bytes; with no data the length is 0.\<close>

definition packet_data :: "sm_packet \<Rightarrow> byte list" where
  "packet_data pk = (case pk_data pk of None \<Rightarrow> [] | Some bs \<Rightarrow> take (nat (pk_length pk)) bs)"

section \<open>Serving a response\<close>

definition serve_stopped :: "server_lib \<Rightarrow> server \<Rightarrow> sm_response \<Rightarrow> server outcome" where
  "serve_stopped L sv req =
     (let reg = rs_ticket req
      in case sv_regs sv reg of
           None \<Rightarrow> Inl UseAfterFree
         | Some r \<Rightarrow> Inr (sv_call (Registration_release (rg_reskey r) reg) (sv\<lparr>sv_regs := sl_release L (sv_regs sv) reg\<rparr>)))"

definition serve_oneshot_response :: "server_lib \<Rightarrow> server \<Rightarrow> sm_response \<Rightarrow> server outcome" where
  "serve_oneshot_response L sv req =
     (case sv_async sv (rs_ticket req) of
        None \<Rightarrow> Inr sv
      | Some asy \<Rightarrow>
          (case rs_pk req of
             None \<Rightarrow> Inl NullDeref
           | Some pk \<Rightarrow>
               let (pdu, sv1) = new_pdu L sv (pk_conf pk) [(OPTION_TOKEN, as_token asy)] (packet_data pk);
                   sv2 = (case pk_conf pk of
                            COAP_MESSAGE_CON \<Rightarrow> sv_call (Send_confirmed (as_peer asy) pdu) sv1
                          | COAP_MESSAGE_NON \<Rightarrow> sv_call (Send (as_peer asy) pdu) sv1
                          | _ \<Rightarrow> sv1)
               in Inr (sv_call (Remove_async (as_id asy)) (sv2\<lparr>sv_async := (sv_async sv2)(as_id asy := None)\<rparr>))))"

text \<open>
  The sender report of a registration that has just sent a notification. Without memory the null
  pointer is only logged, and then read.
\<close>

definition send_report :: "server_lib \<Rightarrow> server \<Rightarrow> int \<Rightarrow> registration \<Rightarrow> server outcome" where
  "send_report L sv reg r =
     bindR (form_sr_payload (sl_endian L) (sl_malloc L (sv_tick sv)) (sl_malloc L (sv_tick sv + 1))
              (sl_clock L (sv_tick sv)) r) (\<lambda>srpyl.
     case srpyl of
       None \<Rightarrow> Inl NullDeref
     | Some bs \<Rightarrow>
         let (pdu, sv1) = new_pdu L (sv_next (sv_next sv)) COAP_MESSAGE_CON
               [(OPTION_SUBSCRIPTION, be_bytes 2 (rg_notcnt r)), (OPTION_TOKEN, rg_token r)] bs;
             r1 = r\<lparr>rg_last_sr_octcount := rg_octcount r, rg_last_sr_packcount := rg_datapackcount r\<rparr>;
             sv2 = sv1\<lparr>sv_regs := (sv_regs sv1)(reg \<mapsto> r1)\<rparr>;
             sv3 = (if sv_firstSRsent sv2 = 0
                    then (sv_call (Test_send (rg_subscriber r1) pdu) sv2)\<lparr>sv_firstSRsent := 1\<rparr>
                    else sv2);
             sv4 = sv_call (Send_confirmed (rg_subscriber r1) pdu) sv3
         in Inr (sv4\<lparr>sv_SR_SENT_counter := sv_SR_SENT_counter sv4 + 1\<rparr>))"

text \<open>The notification of a packet: its result is whether it was sent.\<close>

definition send_notification :: "server_lib \<Rightarrow> server \<Rightarrow> int \<Rightarrow> registration \<Rightarrow> sm_packet \<Rightarrow> bool \<times> registration \<times> server" where
  "send_notification L sv reg r pk =
     (let (pdu, sv1) = new_pdu L sv (pk_conf pk)
            [(OPTION_SUBSCRIPTION, be_bytes 2 (rg_notcnt r)), (OPTION_TOKEN, rg_token r)] (packet_data pk)
      in if rg_non_cnt r \<ge> sl_max_non L \<or> pk_conf pk = COAP_MESSAGE_CON then
           (let (ticket, regs1) = sl_checkout L (sv_regs sv1) reg
            in (True, r\<lparr>rg_non_cnt := 0\<rparr>,
                sv_call (Notify_confirmed (rg_subscriber r) (pdu\<lparr>pdu_type := COAP_MESSAGE_CON\<rparr>) ticket)
                  (sv1\<lparr>sv_regs := regs1\<rparr>)))
         else if pk_conf pk = COAP_MESSAGE_NON then
           (True, r\<lparr>rg_non_cnt := rg_non_cnt r + 1\<rparr>, sv_call (Send (rg_subscriber r) pdu) sv1)
         else (False, r, sv1))"

definition serve_update :: "server_lib \<Rightarrow> server \<Rightarrow> sm_response \<Rightarrow> server outcome" where
  "serve_update L sv req =
     (let reg = rs_ticket req
      in case sv_regs sv reg of
           None \<Rightarrow> Inl UseAfterFree
         | Some r0 \<Rightarrow>
             if rg_fail_cnt r0 \<le> sl_max_fail L then
               (case rs_pk req of
                  None \<Rightarrow> Inl NullDeref
                | Some pk \<Rightarrow>
                    let r1 = r0\<lparr>rg_ntptwin := pk_ntpts pk, rg_rtptwin := pk_rtpts pk\<rparr>;
                        (sent, r2, sv1) = send_notification L sv reg r1 pk
                    in if sent then
                         (let r3 = r2\<lparr>rg_notcnt := rg_notcnt r2 + 1, rg_datapackcount := rg_datapackcount r2 + 1,
                                     rg_octcount := rg_octcount r2 + pk_length pk\<rparr>;
                              sv2 = sv1\<lparr>sv_regs := (sv_regs sv1)(reg \<mapsto> r3)\<rparr>
                          in if rg_octcount r3 > rg_last_sr_octcount r3 + RTCP_SR_BANDWIDTH_THRESHOLD
                                \<or> rg_datapackcount r3 = 1
                             then send_report L sv2 reg r3
                             else Inr sv2)
                       else Inr (sv1\<lparr>sv_regs := (sv_regs sv1)(reg \<mapsto> r2)\<rparr>))
             else Inr sv)"

definition serve_response :: "server_lib \<Rightarrow> server \<Rightarrow> sm_response \<Rightarrow> server outcome" where
  "serve_response L sv req =
     (if rs_rtype req = STREAM_STOPPED then serve_stopped L sv req
      else if rs_rtype req = ONESHOT then serve_oneshot_response L sv req
      else if rs_rtype req = STREAM_UPDATE then serve_update L sv req
      else if rs_rtype req = INVALID_RESPONSE then Inr sv
      else Inl (Exit 1))"

text \<open>The loop over the responses, \<open>SMREQ_RATIO\<close> times per round of the thread.\<close>

fun serve_responses :: "server_lib \<Rightarrow> nat \<Rightarrow> server \<Rightarrow> server outcome" where
  "serve_responses L 0 sv = Inr sv"
| "serve_responses L (Suc n) sv =
     (let (req, b) = get_response_buf_item zero_response (sv_notbuf sv)
      in bindR (serve_response L (sv\<lparr>sv_notbuf := b\<rparr>) req) (serve_responses L n))"

definition serve_round :: "server_lib \<Rightarrow> server \<Rightarrow> server outcome" where
  "serve_round L sv = serve_responses L SMREQ_RATIO sv"


section \<open>Byte order and the report\<close>

lemma mem_of_one: "hd (mem_of LittleEndian 4 1) = 1" "hd (mem_of BigEndian 4 1) = 0"
  by (simp_all add: numeral_eq_Suc)

lemma rev8: "length s = 8 \<Longrightarrow> [s ! 7, s ! 6, s ! 5, s ! 4, s ! 3, s ! 2, s ! 1, s ! 0] = rev s"
  by (rule nth_equalityI) (auto simp: rev_nth nth_Cons' less_Suc_eq numeral_eq_Suc)

lemma htonll_bytes: "mem_of e 8 (htonll e v) = be_bytes 8 v"
proof (cases e)
  case LittleEndian
  let ?s = "mem_of LittleEndian 8 v"
  have "htonll LittleEndian v = mem_val LittleEndian (rev ?s)"
    using rev8 [of ?s] mem_of_one by (simp add: htonll_def Let_def)
  then have "mem_of LittleEndian 8 (htonll LittleEndian v) = rev ?s"
    using mem_of_mem_val [of LittleEndian "rev ?s"] by simp
  with LittleEndian show ?thesis by simp
next
  case BigEndian
  with mem_of_one show ?thesis by (simp add: htonll_def)
qed

lemma length_cname_bytes [simp]: "length cname_bytes = 15"
  by (simp add: cname_bytes_def CNAME_def CNAME_LENGTH_def)

lemma poke_step:
  assumes "length pre = off" and "k = length bs + j"
  shows "poke off bs (pre @ replicate k 0) = Inr ((pre @ bs) @ replicate j 0)"
  using poke_append [OF assms(1), of bs "replicate k 0"] assms(2) by simp

lemma form_sr_eq:
  "form_sr_payload e True True ntpc r = Inr (Some ([2, 0] @ be_bytes 2 15 @ be_bytes 8 (ntpc mod 2 ^ 64)
     @ be_bytes 4 (rg_rtptwin r + rtp_increment ntpc (rg_ntptwin r)) @ be_bytes 4 (rg_datapackcount r)
     @ be_bytes 4 (rg_octcount r) @ cname_bytes))"
proof -
  have tot: "4 + ZE_PAYLOAD_SR_LENGTH + CNAME_LENGTH = 39"
    by (simp add: ZE_PAYLOAD_SR_LENGTH_def CNAME_LENGTH_def)
  let ?h = "[2, 0] @ be_bytes 2 15"
  let ?a = "?h @ be_bytes 8 (ntpc mod 2 ^ 64)"
  let ?b = "?a @ be_bytes 4 (rg_rtptwin r + rtp_increment ntpc (rg_ntptwin r))"
  let ?c = "?b @ be_bytes 4 (rg_datapackcount r)"
  let ?d = "?c @ be_bytes 4 (rg_octcount r)"
  let ?ts = "be_bytes 4 (rg_rtptwin r + rtp_increment ntpc (rg_ntptwin r))"
  have s1: "poke 0 [word_of_int 2] (replicate 39 0) = Inr ([2] @ replicate 38 0)"
    using poke_step [of "[]" 0 39 "[word_of_int 2]" 38] by simp
  have s2: "poke 1 [0] ([2] @ replicate 38 0) = Inr ([2, 0] @ replicate 37 0)"
    using poke_step [of "[2]" 1 38 "[0]" 37] by simp
  have s3: "poke 2 (be_bytes 2 15) ([2, 0] @ replicate 37 0) = Inr (?h @ replicate 35 0)"
    unfolding append_assoc [symmetric] by (rule poke_step) simp_all
  have s4: "poke 4 (be_bytes 8 (ntpc mod 2 ^ 64)) (?h @ replicate 35 0) = Inr (?a @ replicate 27 0)"
    unfolding append_assoc [symmetric] by (rule poke_step) simp_all
  have s5: "poke 12 ?ts (?a @ replicate 27 0) = Inr (?b @ replicate 23 0)"
    unfolding append_assoc [symmetric] by (rule poke_step) simp_all
  have s6: "poke 16 (be_bytes 4 (rg_datapackcount r)) (?b @ replicate 23 0) = Inr (?c @ replicate 19 0)"
    unfolding append_assoc [symmetric] by (rule poke_step) simp_all
  have s7: "poke 20 (be_bytes 4 (rg_octcount r)) (?c @ replicate 19 0) = Inr (?d @ replicate 15 0)"
    unfolding append_assoc [symmetric] by (rule poke_step) simp_all
  have s8: "poke 24 cname_bytes (?d @ replicate 15 0) = Inr ((?d @ cname_bytes) @ replicate 0 0)"
    unfolding append_assoc [symmetric] by (rule poke_step) simp_all
  note s = s1 s2 s3 s4 s5 s6 s7 s8
  show ?thesis
    unfolding form_sr_payload_def Let_def tot htonll_bytes SENDREPORT_def not_True_eq_False if_False s bindR.simps
    by simp
qed

section \<open>What serving a response does\<close>

text \<open>
  libcoap: checking a registration out counts a reference and gives the pointer back; releasing one either
  destroys that registration or leaves all as they are.
\<close>

definition server_lib_ok :: "server_lib \<Rightarrow> bool" where
  "server_lib_ok L \<longleftrightarrow> (\<forall>regs reg. sl_checkout L regs reg = (reg, regs)) \<and> 0 \<le> sl_max_non L
     \<and> (\<forall>regs reg. sl_release L regs reg = regs \<or> sl_release L regs reg = regs(reg := None))"

definition reg_ok :: "server_lib \<Rightarrow> registration \<Rightarrow> bool" where
  "reg_ok L r \<longleftrightarrow> rg_non_cnt r \<le> sl_max_non L \<and> rg_octcount r \<le> rg_last_sr_octcount r + RTCP_SR_BANDWIDTH_THRESHOLD"

definition server_ok :: "server_lib \<Rightarrow> server \<Rightarrow> bool" where
  "server_ok L sv \<longleftrightarrow> (\<forall>reg r. sv_regs sv reg = Some r \<longrightarrow> reg_ok L r)"

lemma sv_call_simps [simp]:
  "sv_regs (sv_call c sv) = sv_regs sv" "sv_calls (sv_call c sv) = sv_calls sv @ [c]"
  "sv_firstSRsent (sv_call c sv) = sv_firstSRsent sv" "sv_SR_SENT_counter (sv_call c sv) = sv_SR_SENT_counter sv"
  "sv_tick (sv_call c sv) = sv_tick sv" "sv_notbuf (sv_call c sv) = sv_notbuf sv"
  by (simp_all add: sv_call_def)

lemma sv_next_simps [simp]:
  "sv_regs (sv_next sv) = sv_regs sv" "sv_calls (sv_next sv) = sv_calls sv"
  "sv_firstSRsent (sv_next sv) = sv_firstSRsent sv" "sv_SR_SENT_counter (sv_next sv) = sv_SR_SENT_counter sv"
  "sv_notbuf (sv_next sv) = sv_notbuf sv"
  by (simp_all add: sv_next_def)

lemma sv_next_regs_id [simp]: "(sv_next sv)\<lparr>sv_regs := sv_regs sv\<rparr> = sv_next sv"
  by (cases sv) (simp add: sv_next_def)

lemma send_report_regs:
  "send_report L sv reg r = Inr sv' \<Longrightarrow> sv_regs sv' = (sv_regs sv)(reg \<mapsto> r\<lparr>rg_last_sr_octcount := rg_octcount r,
     rg_last_sr_packcount := rg_datapackcount r\<rparr>)"
  by (auto simp: send_report_def new_pdu_def Let_def bindR_Inr_iff split: option.splits)

lemma send_notification_reg:
  assumes "server_lib_ok L" and "send_notification L sv reg r pk = (sent, r', sv')" and "rg_non_cnt r \<le> sl_max_non L"
  shows "rg_non_cnt r' \<le> sl_max_non L \<and> rg_octcount r' = rg_octcount r \<and> rg_last_sr_octcount r' = rg_last_sr_octcount r
    \<and> sv_regs sv' = sv_regs sv"
  using assms
  by (auto simp: send_notification_def new_pdu_def server_lib_ok_def split: if_splits)

lemma serve_update_ok:
  assumes "server_lib_ok L" and "server_ok L sv" and "serve_update L sv req = Inr sv'"
  shows "server_ok L sv'"
proof -
  let ?reg = "rs_ticket req"
  obtain r0 where r0: "sv_regs sv ?reg = Some r0"
    using assms(3) by (auto simp: serve_update_def Let_def split: option.splits)
  have ok0: "reg_ok L r0" using assms(2) r0 by (simp add: server_ok_def)
  show ?thesis
  proof (cases "rg_fail_cnt r0 \<le> sl_max_fail L")
    case False
    with assms(2,3) r0 show ?thesis by (simp add: serve_update_def)
  next
    case True
    obtain pk where pk: "rs_pk req = Some pk"
      using assms(3) r0 True by (auto simp: serve_update_def Let_def split: option.splits)
    obtain sent r2 sv1 where n: "send_notification L sv ?reg (r0\<lparr>rg_ntptwin := pk_ntpts pk, rg_rtptwin := pk_rtpts pk\<rparr>) pk
        = (sent, r2, sv1)"
      by (metis prod_cases3)
    note rn = send_notification_reg [OF assms(1) n]
    have r2: "rg_non_cnt r2 \<le> sl_max_non L" "rg_octcount r2 = rg_octcount r0"
      "rg_last_sr_octcount r2 = rg_last_sr_octcount r0" "sv_regs sv1 = sv_regs sv"
      using rn ok0 by (simp_all add: reg_ok_def)
    show ?thesis
    proof (cases sent)
      case False
      with assms(3) r0 True pk n have "sv_regs sv' = (sv_regs sv)(?reg \<mapsto> r2)"
        using r2(4) by (auto simp: serve_update_def Let_def)
      with assms(2) r2 ok0 show ?thesis by (auto simp: server_ok_def reg_ok_def)
    next
      case True': True
      let ?r3 = "r2\<lparr>rg_notcnt := rg_notcnt r2 + 1, rg_datapackcount := rg_datapackcount r2 + 1,
        rg_octcount := rg_octcount r2 + pk_length pk\<rparr>"
      let ?sv2 = "sv1\<lparr>sv_regs := (sv_regs sv1)(?reg \<mapsto> ?r3)\<rparr>"
      let ?sr = "rg_octcount ?r3 > rg_last_sr_octcount ?r3 + RTCP_SR_BANDWIDTH_THRESHOLD \<or> rg_datapackcount ?r3 = 1"
      have eq: "serve_update L sv req = (if ?sr then send_report L ?sv2 ?reg ?r3 else Inr ?sv2)"
        using r0 True pk n True' by (simp add: serve_update_def Let_def)
      show ?thesis
      proof (cases ?sr)
        case True
        then have "send_report L ?sv2 ?reg ?r3 = Inr sv'" using eq assms(3) by simp
        from send_report_regs [OF this] show ?thesis
          using assms(2) r2 by (auto simp: server_ok_def reg_ok_def RTCP_SR_BANDWIDTH_THRESHOLD_def)
      next
        case False
        then have "sv' = ?sv2" using eq assms(3) by simp
        with False assms(2) r2 show ?thesis by (auto simp: server_ok_def reg_ok_def)
      qed
    qed
  qed
qed

lemma serve_response_ok:
  assumes "server_lib_ok L" and "server_ok L sv" and "serve_response L sv req = Inr sv'"
  shows "server_ok L sv'"
proof -
  have "server_ok L sv'" if "serve_stopped L sv req = Inr sv'"
    using that assms(1,2)
    by (auto simp: serve_stopped_def server_ok_def server_lib_ok_def Let_def split: option.splits)
      (metis fun_upd_apply option.distinct(1))
  moreover have "server_ok L sv'" if "serve_oneshot_response L sv req = Inr sv'"
    using that assms(2)
    by (auto simp: serve_oneshot_response_def server_ok_def new_pdu_def Let_def split: option.splits coap_message.splits)
  ultimately show ?thesis
    using assms serve_update_ok [OF assms(1,2)] by (auto simp: serve_response_def split: if_splits)
qed

lemma serve_responses_ok:
  "server_lib_ok L \<Longrightarrow> server_ok L sv \<Longrightarrow> serve_responses L n sv = Inr sv' \<Longrightarrow> server_ok L sv'"
proof (induction n arbitrary: sv)
  case (Suc n)
  obtain req b where g: "get_response_buf_item zero_response (sv_notbuf sv) = (req, b)" by force
  obtain sv1 where s1: "serve_response L (sv\<lparr>sv_notbuf := b\<rparr>) req = Inr sv1" "serve_responses L n sv1 = Inr sv'"
    using Suc.prems(3) g by (auto simp: bindR_Inr_iff)
  have "server_ok L (sv\<lparr>sv_notbuf := b\<rparr>)" using Suc.prems(2) by (simp add: server_ok_def)
  then have "server_ok L sv1" using serve_response_ok [OF Suc.prems(1) _ s1(1)] by blast
  with Suc.IH [OF Suc.prems(1) _ s1(2)] show ?case by blast
qed simp


section \<open>Properties\<close>

text \<open>
  Whatever the byte order of the host, the memory of what \<open>htonll\<close> returns is the value in
  network order, most significant byte first.
\<close>

theorem htonll_network_order: "mem_of e 8 (htonll e v) = be_bytes 8 v \<and> be_val (mem_of e 8 (htonll e v)) = v mod 2 ^ 64"
  using be_val_be_bytes [of 8 v] by (simp add: htonll_bytes del: be_bytes.simps)

text \<open>
  C31. The sender report of a registration, read back: 39 bytes, with the type SENDREPORT, the time of the report, the RTP time, the
  counts of packets and octets, and the name. When less than 2^31 nanoseconds have passed since the last data packet, the RTP time is
  that packet's plus the milliseconds since; the header's length field says 15.
\<close>

theorem sender_report_layout:
  assumes "0 \<le> ntpc" and "ntpc < 2 ^ 63" and "rg_ntptwin r \<le> ntpc" and "ntpc - rg_ntptwin r < 2 ^ 31"
    and "0 \<le> rg_datapackcount r" and "rg_datapackcount r < 2 ^ 32" and "0 \<le> rg_octcount r" and "rg_octcount r < 2 ^ 32"
  shows "\<exists>bs. form_sr_payload e True True ntpc r = Inr (Some bs) \<and> length bs = 39 \<and> hd bs = 2
    \<and> be_val (take 2 (drop 2 bs)) = 15 \<and> be_val (take 8 (drop 4 bs)) = ntpc
    \<and> be_val (take 4 (drop 12 bs)) = (rg_rtptwin r + (ntpc - rg_ntptwin r) div 1000000) mod 2 ^ 32
    \<and> be_val (take 4 (drop 16 bs)) = rg_datapackcount r \<and> be_val (take 4 (drop 20 bs)) = rg_octcount r
    \<and> drop 24 bs = cname_bytes"
proof -
  have inc: "rtp_increment ntpc (rg_ntptwin r) = (ntpc - rg_ntptwin r) div 1000000"
    using assms(3,4) by (simp add: rtp_increment_eq i32_id in_i32_def c_div_nonneg)
  have v: "be_val (be_bytes 8 (ntpc mod 2 ^ 64)) = ntpc" "be_val (be_bytes 2 15) = 15"
    "be_val (be_bytes 4 (rg_datapackcount r)) = rg_datapackcount r" "be_val (be_bytes 4 (rg_octcount r)) = rg_octcount r"
    "be_val (be_bytes 4 (rg_rtptwin r + rtp_increment ntpc (rg_ntptwin r)))
      = (rg_rtptwin r + (ntpc - rg_ntptwin r) div 1000000) mod 2 ^ 32"
    using assms by (simp_all add: be_val_be_bytes inc del: be_bytes.simps)
  let ?A = "be_bytes 2 15" and ?B = "be_bytes 8 (ntpc mod 2 ^ 64)"
    and ?C = "be_bytes 4 (rg_rtptwin r + rtp_increment ntpc (rg_ntptwin r))"
    and ?D = "be_bytes 4 (rg_datapackcount r)" and ?E = "be_bytes 4 (rg_octcount r)"
  let ?bs = "[2, 0] @ ?A @ ?B @ ?C @ ?D @ ?E @ cname_bytes"
  have field: "length P = p \<Longrightarrow> length F = f \<Longrightarrow> take f (drop p (P @ F @ S)) = F" for P F S :: "byte list" and p f by simp
  have f: "take 2 (drop 2 ?bs) = ?A" "take 8 (drop 4 ?bs) = ?B" "take 4 (drop 12 ?bs) = ?C"
    "take 4 (drop 16 ?bs) = ?D" "take 4 (drop 20 ?bs) = ?E"
    by (rule field [of "[2, 0]" _ ?A, unfolded append_assoc] field [of "[2, 0] @ ?A" _ ?B, unfolded append_assoc]
        field [of "[2, 0] @ ?A @ ?B" _ ?C, unfolded append_assoc]
        field [of "[2, 0] @ ?A @ ?B @ ?C" _ ?D, unfolded append_assoc]
        field [of "[2, 0] @ ?A @ ?B @ ?C @ ?D" _ ?E, unfolded append_assoc];
      simp del: be_bytes.simps)+
  have "drop 24 (([2, 0] @ ?A @ ?B @ ?C @ ?D @ ?E) @ cname_bytes) = cname_bytes"
    by (simp del: be_bytes.simps append_assoc)
  then have g: "drop 24 ?bs = cname_bytes" by (simp only: append_assoc)
  have l: "length ?bs = 39" "hd ?bs = 2" by (simp_all del: be_bytes.simps)
  have w: "be_val (take 2 (drop 2 ?bs)) = 15" "be_val (take 8 (drop 4 ?bs)) = ntpc"
    "be_val (take 4 (drop 12 ?bs)) = (rg_rtptwin r + (ntpc - rg_ntptwin r) div 1000000) mod 2 ^ 32"
    "be_val (take 4 (drop 16 ?bs)) = rg_datapackcount r" "be_val (take 4 (drop 20 ?bs)) = rg_octcount r"
    unfolding f by (rule v)+
  show ?thesis
    by (intro exI [of _ ?bs] conjI form_sr_eq l w g)
qed

theorem sender_report_layout_witness:
  "\<exists>bs. form_sr_payload LittleEndian True True 5000000 (one_registration\<lparr>rg_rtptwin := 450, rg_ntptwin := 2000000\<rparr>)
      = Inr (Some bs) \<and> be_val (take 4 (drop 12 bs)) = 453"
  using sender_report_layout [of 5000000 "one_registration\<lparr>rg_rtptwin := 450, rg_ntptwin := 2000000\<rparr>" LittleEndian]
  by (auto simp: one_registration_def)

text \<open>
  The time in a sender report goes back when the last data packet is old: the difference is cut to an \<open>int\<close>, so
  from 2^31 to 2^32 - 10^6 nanoseconds after that packet the RTP time of the report is before the packet's own.
\<close>

theorem stale_report_goes_back:
  assumes "2 ^ 31 \<le> ntpc - ntptwin" and "ntpc - ntptwin \<le> 2 ^ 32 - 1000000"
  shows "rtp_increment ntpc ntptwin < 0"
proof -
  let ?d = "ntpc - ntptwin"
  have "i32 ?d = ?d - 2 ^ 32"
    using assms by (simp add: i32_def mod_pos_geq)
  moreover have "1 \<le> (2 ^ 32 - ?d) div 1000000" using assms by (simp add: zdiv_mono1)
  ultimately show ?thesis using assms by (simp add: rtp_increment_eq c_div_def)
qed

theorem stale_report_goes_back_witness: "rtp_increment 3000000000 0 < 0"
  using stale_report_goes_back [of 3000000000 0] by simp


text \<open>Calls that are notifications to a subscriber, and calls that are sender reports or their mirror.\<close>

definition reports_sent :: "server_lib \<Rightarrow> server \<Rightarrow> registration \<Rightarrow> pdu \<Rightarrow> coap_call list" where
  "reports_sent L sv r pdu = (if sv_firstSRsent sv = 0 then [Test_send (rg_subscriber r) pdu] else [])
     @ [Send_confirmed (rg_subscriber r) pdu]"

lemma send_report_calls:
  assumes "\<forall>n. sl_malloc L n"
  shows "\<exists>sv' pdu. send_report L sv reg r = Inr sv' \<and> pdu_type pdu = COAP_MESSAGE_CON
    \<and> sv_calls sv' = sv_calls sv @ reports_sent L sv r pdu
    \<and> sv_SR_SENT_counter sv' = sv_SR_SENT_counter sv + 1 \<and> sv_firstSRsent sv' \<noteq> 0
    \<and> sv_regs sv' = (sv_regs sv)(reg \<mapsto> r\<lparr>rg_last_sr_octcount := rg_octcount r, rg_last_sr_packcount := rg_datapackcount r\<rparr>)"
proof -
  obtain bs where bs: "form_sr_payload (sl_endian L) True True (sl_clock L (sv_tick sv)) r = Inr (Some bs)"
    unfolding form_sr_eq by blast
  show ?thesis
    using assms
    by (simp add: send_report_def bs new_pdu_def reports_sent_def Let_def)
qed

text \<open>Whether the next notification of a registration is a confirmable one.\<close>

definition needs_confirmation :: "server_lib \<Rightarrow> registration \<Rightarrow> sm_packet \<Rightarrow> bool" where
  "needs_confirmation L r pk \<longleftrightarrow> rg_non_cnt r \<ge> sl_max_non L \<or> pk_conf pk = COAP_MESSAGE_CON"

lemma update_served:
  assumes "server_lib_ok L" and "\<forall>n. sl_malloc L n" and "sv_regs sv reg = Some r" and "rg_fail_cnt r \<le> sl_max_fail L"
    and "pk_conf pk = COAP_MESSAGE_CON \<or> pk_conf pk = COAP_MESSAGE_NON"
  defines "due \<equiv> rg_octcount r + pk_length pk > rg_last_sr_octcount r + 1000 \<or> rg_datapackcount r = 0"
  shows "\<exists>sv' r' pdu reports. serve_response L sv \<lparr>rs_rtype = STREAM_UPDATE, rs_ticket = reg, rs_pk = Some pk\<rparr> = Inr sv'
    \<and> sv_regs sv' = (sv_regs sv)(reg \<mapsto> r') \<and> rg_notcnt r' = rg_notcnt r + 1
    \<and> rg_datapackcount r' = rg_datapackcount r + 1 \<and> rg_octcount r' = rg_octcount r + pk_length pk
    \<and> rg_non_cnt r' = (if needs_confirmation L r pk then 0 else rg_non_cnt r + 1)
    \<and> sv_calls sv' = sv_calls sv @ (if needs_confirmation L r pk then Notify_confirmed (rg_subscriber r) pdu reg
         else Send (rg_subscriber r) pdu) # reports
    \<and> pdu_data pdu = packet_data pk
    \<and> pdu_type pdu = (if needs_confirmation L r pk then COAP_MESSAGE_CON else COAP_MESSAGE_NON)
    \<and> length (filter (\<lambda>c. \<exists>p d. c = Send_confirmed p d) reports) = (if due then 1 else 0)
    \<and> sv_SR_SENT_counter sv' = sv_SR_SENT_counter sv + (if due then 1 else 0)
    \<and> (\<forall>c\<in>set reports. \<exists>p d. c = Test_send p d \<or> c = Send_confirmed p d) \<and> rg_subscriber r' = rg_subscriber r"
proof -
  let ?r1 = "r\<lparr>rg_ntptwin := pk_ntpts pk, rg_rtptwin := pk_rtpts pk\<rparr>"
  define pdu where "pdu = \<lparr>pdu_type = (if needs_confirmation L r pk then COAP_MESSAGE_CON else COAP_MESSAGE_NON),
    pdu_id = sl_message_id L (sv_tick sv),
    pdu_options = [(OPTION_SUBSCRIPTION, be_bytes 2 (rg_notcnt r)), (OPTION_TOKEN, rg_token r)],
    pdu_data = packet_data pk\<rparr>"
  define r2 where "r2 = ?r1\<lparr>rg_non_cnt := (if needs_confirmation L r pk then 0 else rg_non_cnt r + 1)\<rparr>"
  define call where "call = (if needs_confirmation L r pk then Notify_confirmed (rg_subscriber r) pdu reg
    else Send (rg_subscriber r) pdu)"
  have co: "sl_checkout L regs reg = (reg, regs)" for regs using assms(1) by (simp add: server_lib_ok_def)
  have n: "send_notification L sv reg ?r1 pk = (True, r2, sv_call call (sv_next sv))"
    using assms(5)
    by (auto simp: send_notification_def new_pdu_def needs_confirmation_def pdu_def r2_def call_def co)
  let ?r3 = "r2\<lparr>rg_notcnt := rg_notcnt r2 + 1, rg_datapackcount := rg_datapackcount r2 + 1,
    rg_octcount := rg_octcount r2 + pk_length pk\<rparr>"
  let ?sv2 = "(sv_call call (sv_next sv))\<lparr>sv_regs := (sv_regs sv)(reg \<mapsto> ?r3)\<rparr>"
  have r2f: "rg_octcount r2 = rg_octcount r" "rg_last_sr_octcount r2 = rg_last_sr_octcount r"
    "rg_datapackcount r2 = rg_datapackcount r"
    by (simp_all add: r2_def)
  have eq: "serve_response L sv \<lparr>rs_rtype = STREAM_UPDATE, rs_ticket = reg, rs_pk = Some pk\<rparr>
      = (if due then send_report L ?sv2 reg ?r3 else Inr ?sv2)"
    using assms(3,4) n
    by (simp add: serve_response_def serve_update_def sm_res_codes due_def r2f RTCP_SR_BANDWIDTH_THRESHOLD_def Let_def)
  have r3: "rg_notcnt ?r3 = rg_notcnt r + 1" "rg_datapackcount ?r3 = rg_datapackcount r + 1"
    "rg_octcount ?r3 = rg_octcount r + pk_length pk"
    "rg_non_cnt ?r3 = (if needs_confirmation L r pk then 0 else rg_non_cnt r + 1)"
    by (simp_all add: r2_def)
  have sub: "rg_subscriber r2 = rg_subscriber r" by (simp add: r2_def)
  show ?thesis
  proof (cases due)
    case False
    with eq r3 show ?thesis
      by (intro exI [of _ ?sv2] exI [of _ ?r3] exI [of _ pdu] exI [of _ "[]"])
        (simp add: pdu_def call_def sub)
  next
    case True
    obtain sv' p where s: "send_report L ?sv2 reg ?r3 = Inr sv'" "sv_calls sv' = sv_calls ?sv2 @ reports_sent L ?sv2 ?r3 p"
      "sv_SR_SENT_counter sv' = sv_SR_SENT_counter ?sv2 + 1"
      "sv_regs sv' = (sv_regs ?sv2)(reg \<mapsto> ?r3\<lparr>rg_last_sr_octcount := rg_octcount ?r3,
          rg_last_sr_packcount := rg_datapackcount ?r3\<rparr>)"
      using send_report_calls [OF assms(2)] by blast
    with eq r3 True show ?thesis
      by (intro exI [of _ sv'] exI [of _ "?r3\<lparr>rg_last_sr_octcount := rg_octcount ?r3,
          rg_last_sr_packcount := rg_datapackcount ?r3\<rparr>"] exI [of _ pdu] exI [of _ "reports_sent L ?sv2 ?r3 p"])
        (simp add: pdu_def call_def reports_sent_def sub)
  qed
qed

text \<open>
  C9. Serving a STREAM_UPDATE of a registration that has not failed too often, with memory, notifies its subscriber exactly
  once: with a CON, through the registration's own ticket, if the packet asks for it or the most NON messages in a row have been
  sent, and with a NON otherwise; the counters of notifications and packets grow by one and the octets by the length of
  the packet. One sender report follows when it is the first packet or more than 1000 octets were sent since the last
  report, and none otherwise.
\<close>

theorem notification_policy:
  assumes "server_lib_ok L" and "\<forall>n. sl_malloc L n" and "sv_regs sv reg = Some r" and "rg_fail_cnt r \<le> sl_max_fail L"
    and "pk_conf pk = COAP_MESSAGE_CON \<or> pk_conf pk = COAP_MESSAGE_NON"
  defines "due \<equiv> rg_octcount r + pk_length pk > rg_last_sr_octcount r + 1000 \<or> rg_datapackcount r = 0"
  shows "\<exists>sv' r' pdu reports. serve_response L sv \<lparr>rs_rtype = STREAM_UPDATE, rs_ticket = reg, rs_pk = Some pk\<rparr> = Inr sv'
    \<and> sv_regs sv' = (sv_regs sv)(reg \<mapsto> r') \<and> rg_notcnt r' = rg_notcnt r + 1
    \<and> rg_datapackcount r' = rg_datapackcount r + 1 \<and> rg_octcount r' = rg_octcount r + pk_length pk
    \<and> rg_non_cnt r' = (if needs_confirmation L r pk then 0 else rg_non_cnt r + 1)
    \<and> sv_calls sv' = sv_calls sv @ (if needs_confirmation L r pk then Notify_confirmed (rg_subscriber r) pdu reg
         else Send (rg_subscriber r) pdu) # reports
    \<and> pdu_data pdu = packet_data pk
    \<and> pdu_type pdu = (if needs_confirmation L r pk then COAP_MESSAGE_CON else COAP_MESSAGE_NON)
    \<and> length (filter (\<lambda>c. \<exists>p d. c = Send_confirmed p d) reports) = (if due then 1 else 0)
    \<and> sv_SR_SENT_counter sv' = sv_SR_SENT_counter sv + (if due then 1 else 0)"
  using update_served [OF assms(1-5)] unfolding due_def by blast

definition sample_lib :: server_lib where
  "sample_lib = \<lparr>sl_max_fail = 3, sl_max_non = 5, sl_endian = LittleEndian, sl_message_id = int, sl_malloc = (\<lambda>_. True),
     sl_clock = (\<lambda>_. 0), sl_checkout = (\<lambda>regs reg. (reg, regs)), sl_release = (\<lambda>regs reg. regs(reg := None))\<rparr>"

definition sample_server :: "registration \<Rightarrow> server" where
  "sample_server r = \<lparr>sv_regs = [105 \<mapsto> r], sv_async = Map.empty, sv_notbuf = the (init_coap_buf True),
     sv_firstSRsent = 0, sv_SR_SENT_counter = 0, sv_tick = 0, sv_calls = []\<rparr>"

lemma sample_lib_ok: "server_lib_ok sample_lib"
  by (simp add: server_lib_ok_def sample_lib_def)

definition sample_packet :: "coap_message \<Rightarrow> sm_packet" where
  "sample_packet conf = \<lparr>pk_ntpts = 0, pk_rtpts = 450, pk_conf = conf, pk_data = Some [1, 5, 0, 0], pk_length = 4\<rparr>"

theorem notification_policy_witness:
  "\<exists>sv'. serve_response sample_lib (sample_server one_registration)
       \<lparr>rs_rtype = STREAM_UPDATE, rs_ticket = 105, rs_pk = Some (sample_packet COAP_MESSAGE_NON)\<rparr> = Inr sv'
     \<and> sv_SR_SENT_counter sv' = 1 \<and> (\<exists>pdu. hd (sv_calls sv') = Send 5 pdu)"
proof -
  have c: "\<forall>n. sl_malloc sample_lib n" "sv_regs (sample_server one_registration) 105 = Some one_registration"
    "rg_fail_cnt one_registration \<le> sl_max_fail sample_lib"
    "pk_conf (sample_packet COAP_MESSAGE_NON) = COAP_MESSAGE_CON \<or> pk_conf (sample_packet COAP_MESSAGE_NON) = COAP_MESSAGE_NON"
    by (simp_all add: sample_lib_def sample_server_def one_registration_def sample_packet_def)
  have n: "\<not> needs_confirmation sample_lib one_registration (sample_packet COAP_MESSAGE_NON)"
    "rg_datapackcount one_registration = 0" "sv_calls (sample_server one_registration) = []"
    "sv_SR_SENT_counter (sample_server one_registration) = 0" "rg_subscriber one_registration = 5"
    by (simp_all add: needs_confirmation_def sample_lib_def one_registration_def sample_packet_def sample_server_def)
  from notification_policy [OF sample_lib_ok c] n show ?thesis by auto
qed

text \<open>
  Over any round of the server, from any state in which no registration has more NON messages in a row than allowed and none has
  sent more than 1000 octets since its last sender report, both still hold: so a registration is
  confirmed at least once in every \<open>COAP_OBS_MAX_NON + 1\<close> notifications.
\<close>

theorem server_round_invariant:
  assumes "server_lib_ok L" and "serve_round L sv = Inr sv'"
    and "\<forall>reg r. sv_regs sv reg = Some r \<longrightarrow> rg_non_cnt r \<le> sl_max_non L \<and> rg_octcount r \<le> rg_last_sr_octcount r + 1000"
  shows "\<forall>reg r. sv_regs sv' reg = Some r \<longrightarrow> rg_non_cnt r \<le> sl_max_non L \<and> rg_octcount r \<le> rg_last_sr_octcount r + 1000"
proof -
  have "server_ok L sv" using assms(3) by (simp add: server_ok_def reg_ok_def RTCP_SR_BANDWIDTH_THRESHOLD_def)
  from serve_responses_ok [OF assms(1) this, of SMREQ_RATIO sv'] assms(2) have "server_ok L sv'"
    by (simp add: serve_round_def)
  then show ?thesis by (simp add: server_ok_def reg_ok_def RTCP_SR_BANDWIDTH_THRESHOLD_def)
qed

theorem server_round_invariant_witness:
  "\<exists>sv'. serve_round sample_lib (sample_server one_registration) = Inr sv'
     \<and> (\<forall>reg r. sv_regs sv' reg = Some r \<longrightarrow> rg_non_cnt r \<le> 5)"
proof -
  have idle: "serve_responses sample_lib n (sample_server one_registration) = Inr (sample_server one_registration)" for n
    by (induction n)
      (simp_all add: sample_server_def init_coap_buf_def get_response_buf_item_def serve_response_def sm_res_codes)
  then have r: "serve_round sample_lib (sample_server one_registration) = Inr (sample_server one_registration)"
    by (simp add: serve_round_def)
  have "\<forall>reg r. sv_regs (sample_server one_registration) reg = Some r \<longrightarrow>
      rg_non_cnt r \<le> sl_max_non sample_lib \<and> rg_octcount r \<le> rg_last_sr_octcount r + 1000"
    by (simp add: sample_server_def one_registration_def sample_lib_def)
  from server_round_invariant [OF sample_lib_ok r this] r show ?thesis by (auto simp: sample_lib_def)
qed

text \<open>
  A registration that has failed more than \<open>COAP_OBS_MAX_FAIL\<close> times is sent nothing more: serving an update for
  it changes nothing; and a STREAM_STOPPED response asks libcoap to release exactly its own registration.
\<close>

theorem failed_registration_silent:
  assumes "sv_regs sv reg = Some r" and "sl_max_fail L < rg_fail_cnt r"
  shows "serve_response L sv \<lparr>rs_rtype = STREAM_UPDATE, rs_ticket = reg, rs_pk = pk\<rparr> = Inr sv
    \<and> (\<exists>sv'. serve_response L sv \<lparr>rs_rtype = STREAM_STOPPED, rs_ticket = reg, rs_pk = pk\<rparr> = Inr sv'
        \<and> sv_calls sv' = sv_calls sv @ [Registration_release (rg_reskey r) reg])"
  using assms by (simp add: serve_response_def serve_update_def serve_stopped_def sm_res_codes)

theorem failed_registration_silent_witness:
  "serve_response sample_lib (sample_server (one_registration\<lparr>rg_fail_cnt := 4\<rparr>))
     \<lparr>rs_rtype = STREAM_UPDATE, rs_ticket = 105, rs_pk = None\<rparr> = Inr (sample_server (one_registration\<lparr>rg_fail_cnt := 4\<rparr>))"
  using failed_registration_silent [of "sample_server (one_registration\<lparr>rg_fail_cnt := 4\<rparr>)" 105
      "one_registration\<lparr>rg_fail_cnt := 4\<rparr>" sample_lib None]
  by (simp add: sample_server_def sample_lib_def)

end
