(* ===== verification/ThreadInvariant.thy ===== *)
theory ThreadInvariant
  imports StreamingThread
begin

text \<open>
  The invariant of the Streaming Manager thread and the steps of its system: one iteration of the loop, and
  what the CoAP server, the Android sensors and the carrier threads do in between. \<open>thread_faults\<close> is what can
  stop an iteration: a null pointer, a write behind a full sample log, or a wait that goes on. No other access out of bounds is among
  them, so an iteration stays within the sensors array, the stream buffers and the packets.
\<close>

section \<open>The invariant\<close>

definition request_ok :: "sm_request \<Rightarrow> bool" where
  "request_ok q \<longleftrightarrow> (rq_rtype q \<noteq> SM_REQ_INVALID \<longrightarrow> sensor_ix (rq_sensor q))
     \<and> (rq_rtype q = SM_REQ_START \<longrightarrow> 0 < rq_freq q)"

definition sm_inv :: "sm_state \<Rightarrow> bool" where
  "sm_inv s \<longleftrightarrow> sensors_ok s \<and> buffers_ok s \<and> sm_adqueue s = ADNull
     \<and> (\<forall>q\<in>set (requests (sm_smreqbuf s)). request_ok q)
     \<and> (\<forall>ev. Some ev \<in> set (sm_events s) \<longrightarrow> sensor_ix (ev_type ev))
     \<and> (\<forall>ev\<in>set (cq_head (sm_carrq s)). sensor_ix (ev_type ev))"

definition thread_faults :: "fault set" where
  "thread_faults = {NullDeref, LogOverrun, StillWaiting}"

abbreviation safe :: "sm_state outcome \<Rightarrow> bool" where
  "safe r \<equiv> outcome_sat thread_faults sm_inv r"

lemma thread_faults_mem [simp]:
  "NullDeref \<in> thread_faults" "LogOverrun \<in> thread_faults" "StillWaiting \<in> thread_faults"
  by (simp_all add: thread_faults_def)

lemma sm_inv_sensors: "sm_inv s \<Longrightarrow> sensors_ok s"
  by (simp add: sm_inv_def)

lemma sm_inv_buffers: "sm_inv s \<Longrightarrow> buffers_ok s \<and> sm_adqueue s = ADNull"
  by (simp add: sm_inv_def)

text \<open>A change of the sensors that keeps them well formed, and of the answers already read, keeps the invariant.\<close>

lemma sm_inv_rest:
  assumes "sm_inv s" and "rest_of_state t = rest_of_state s" and "sensors_ok t"
  shows "sm_inv t"
  using assms(1,3) rest_of_state_eqD [OF assms(2)] rest_of_state_world [OF assms(2)]
  by (simp add: sm_inv_def buffers_ok_def world_ok_def utlists_ok_def)

lemma sm_inv_ask [simp]: "sm_inv (snd (ask f s)) = sm_inv s"
  by (simp add: sm_inv_def buffers_ok_def)

lemma sm_inv_upd:
  "sm_inv s \<Longrightarrow> sensor_ok (f (sensor_at s i)) \<Longrightarrow> sm_inv (upd_sensor i f s)"
  by (rule sm_inv_rest [of s]) (simp_all add: sensors_ok_upd sm_inv_sensors)

lemma sm_inv_at: "sm_inv s \<Longrightarrow> sensor_ix i \<Longrightarrow> sensor_ok (sensor_at s i)"
  by (simp add: sm_inv_sensors sensors_ok_at)

lemma sensor_ok_other [simp]:
  "sensor_ok (sn\<lparr>sn_oneshots := os\<rparr>) = sensor_ok sn"
  "sensor_ok (sn\<lparr>sn_event_cache := ev, sn_cache_valid := v\<rparr>) = sensor_ok sn"
  by (simp_all add: sensor_ok_def)

section \<open>The parts of an iteration\<close>

lemma helper_safe:
  assumes "sm_inv s"
  shows "outcome_sat thread_faults (\<lambda>(r, s'). sm_inv s' \<and> sm_sensors s' = sm_sensors s
    \<and> sm_events s' = sm_events s) (put_response_helper fuel s rt t pk)"
proof (rule outcome_satI)
  fix e assume "put_response_helper fuel s rt t pk = Inl e"
  with helper_fault [OF _ _ this] assms show "e \<in> thread_faults"
    by (simp add: sm_inv_buffers)
next
  fix x assume "put_response_helper fuel s rt t pk = Inr x"
  then have h: "put_response_helper fuel s rt t pk = Inr (fst x, snd x)" by simp
  note he = helper_effect [OF _ _ h]
  have m: "\<exists>m. requests (sm_smreqbuf (snd x)) = drop m (requests (sm_smreqbuf s))"
    "buffers_ok (snd x)" "sm_sensors (snd x) = sm_sensors s" "sm_adqueue (snd x) = ADNull"
    using he assms sm_inv_buffers by blast+
  have q: "\<forall>q\<in>set (requests (sm_smreqbuf (snd x))). request_ok q"
    using m(1) assms set_drop_subset [of _ "requests (sm_smreqbuf s)"] unfolding sm_inv_def by (metis subsetD)
  have ev: "sm_events (snd x) = sm_events s \<and> sm_carrq (snd x) = sm_carrq s"
    by (rule helper_keeps [OF h])
  show "case x of (r, s') \<Rightarrow> sm_inv s' \<and> sm_sensors s' = sm_sensors s \<and> sm_events s' = sm_events s"
    using assms m q ev by (simp add: split_def sm_inv_def sensors_ok_def buffers_ok_def)
qed


lemma encode_safe:
  assumes "sm_inv s" and "0 < num" and "num \<le> length evs" and "num \<le> length tss"
  shows "outcome_sat thread_faults (\<lambda>(pk, s'). sm_inv s' \<and> sm_sensors s' = sm_sensors s \<and> sm_events s' = sm_events s)
    (sm_encode s evs tss num)"
  using assms
  by (auto simp: sm_encode_def encode_eq Let_def split_def split: option.split)

lemma send_safe:
  assumes "sm_inv s" and "0 < num" and "num \<le> length evs" and "num \<le> length tss"
  shows "outcome_sat thread_faults (\<lambda>s'. sm_inv s' \<and> sm_sensors s' = sm_sensors s \<and> sm_events s' = sm_events s)
    (send_packet fuel s evs tss num conf rt t)"
  unfolding send_packet_def
proof (rule outcome_sat_bindR [OF encode_safe [OF assms]], clarify)
  fix pk s1 assume s1: "sm_inv s1" "sm_sensors s1 = sm_sensors s" "sm_events s1 = sm_events s"
  show "outcome_sat thread_faults (\<lambda>s'. sm_inv s' \<and> sm_sensors s' = sm_sensors s \<and> sm_events s' = sm_events s)
      (bindR (set_conf pk conf) (\<lambda>c. bindR (put_response_helper fuel s1 rt t (Some c)) (\<lambda>(_, s2). Inr s2)))"
    using s1
    by (cases pk)
      (auto simp: set_conf_def intro!: outcome_sat_bindR [OF helper_safe [OF s1(1)]])
qed

lemma stopped_safe:
  "sm_inv s \<Longrightarrow> safe (bindR (put_response_helper fuel s STREAM_STOPPED t None) (\<lambda>(_, s2). Inr s2))"
  by (rule outcome_sat_bindR [OF helper_safe]) auto

lemma serve_start_safe:
  assumes "sm_inv s" and "sensor_ix (rq_sensor q)" and "0 < rq_freq q"
  shows "safe (serve_start fuel s q)"
proof -
  let ?r = "sm_start_stream s (rq_sensor q) (rq_ticket q) (rq_freq q)"
  have "outcome_sat thread_faults (\<lambda>(b, s1). sm_inv s1) ?r"
  proof (cases "fst (ask w_malloc s)")
    case True
    with start_stream_effect [OF sm_inv_sensors [OF assms(1)] assms(2,3) True, of "rq_ticket q"]
      sm_inv_rest [OF assms(1)]
    show ?thesis by (auto simp del: set_map)
  next
    case False
    with start_stream_nomem [OF False] assms(1) show ?thesis by simp
  qed
  then show ?thesis
    unfolding serve_start_def by (rule outcome_sat_bindR) (auto intro: stopped_safe)
qed

lemma serve_stop_safe:
  assumes "sm_inv s" and "sensor_ix (rq_sensor q)"
  shows "safe (serve_stop fuel s q)"
proof -
  let ?r = "sm_stop_stream s (rq_sensor q) (rq_ticket q)" and ?sn = "sensor_at s (rq_sensor q)"
  have "outcome_sat thread_faults (\<lambda>(b, s1). sm_inv s1) ?r"
  proof (cases "rq_ticket q \<in> set (regs (sn_streams ?sn))")
    case True
    note known = stop_stream_known [OF sm_inv_sensors [OF assms(1)] assms(2) True]
      stop_stream_effect [OF sm_inv_sensors [OF assms(1)] assms(2) True]
    show ?thesis
    proof (cases "stream_without (rq_ticket q) (sn_streams ?sn) = [] \<and> sn_oneshots ?sn \<noteq> []")
      case True
      then show ?thesis unfolding known(1) by simp
    next
      case False
      then obtain s' where "?r = Inr (0, s')" "sensors_ok s'" "rest_of_state s' = rest_of_state s"
        using known(2) by blast
      with sm_inv_rest [OF assms(1)] show ?thesis by simp
    qed
  next
    case False
    with stop_stream_unknown [OF assms(2) False] assms(1) show ?thesis by simp
  qed
  then show ?thesis
    unfolding serve_stop_def by (rule outcome_sat_bindR) (auto intro: stopped_safe)
qed

lemma serve_oneshot_safe:
  assumes "sm_inv s" and "sensor_ix (rq_sensor q)"
  shows "safe (serve_oneshot fuel s q)"
proof (cases "sn_cache_valid (sensor_at s (rq_sensor q)) = 1")
  case True
  with assms show ?thesis
    using send_safe [OF assms(1), of 1 "[sn_event_cache (sensor_at s (rq_sensor q))]" "[0]" fuel
        COAP_MESSAGE_NON ONESHOT "rq_ticket q"]
    by (auto simp: serve_oneshot_def get_sensor_def elim: outcome_sat_mono)
next
  case False
  obtain r s1 where act: "android_sensor_activate s (rq_sensor q) DEFAULT_FREQ = Inr (r, s1)"
    using activate_returns [OF assms(2), of DEFAULT_FREQ s] by (auto simp: DEFAULT_FREQ_def)
  have s1: "sm_inv s1"
    using sm_inv_rest [OF assms(1)] hw_frame_rest [OF activate_frame [OF act]]
      sensors_ok_frame [OF activate_frame [OF act]] sm_inv_sensors [OF assms(1)] by simp
  with act False assms show ?thesis
    by (auto simp: serve_oneshot_def get_sensor_def sm_new_oneshot_def split_def Let_def sm_inv_at
        intro!: sm_inv_upd)
qed

lemma get_request_helper_safe:
  assumes "sm_inv s"
  shows "\<exists>q s1. get_request_helper s = Inr (q, s1) \<and> sm_inv s1 \<and> (rq_rtype q = SM_REQ_INVALID \<or> request_ok q)"
proof -
  obtain q s1 where g: "get_request s = (q, s1)" by force
  note ge = get_request_effect [OF _ g]
  have b: "buffers_ok s" "sm_adqueue s = ADNull" using sm_inv_buffers [OF assms] by simp_all
  have keeps: "sm_events s1 = sm_events s" "sm_carrq s1 = sm_carrq s"
    using get_request_keeps [of s] g by simp_all
  have s1: "buffers_ok s1" "sm_adqueue s1 = ADNull" "sm_sensors s1 = sm_sensors s" "sm_world s1 = sm_world s"
    "requests (sm_smreqbuf s1) = drop 1 (requests (sm_smreqbuf s))"
    using ge [OF b(1)] b by simp_all
  have "\<forall>q\<in>set (requests (sm_smreqbuf s1)). request_ok q"
    using assms set_drop_subset [of 1 "requests (sm_smreqbuf s)"] unfolding s1(5) sm_inv_def by blast
  then have "sm_inv s1"
    using assms s1(1-4) keeps by (simp add: sm_inv_def sensors_ok_def)
  moreover have "rq_rtype q = SM_REQ_INVALID \<or> request_ok q"
    using ge [OF b(1)] assms by (auto simp: sm_inv_def simp del: ring_list_empty_iff split: if_splits)
  ultimately show ?thesis
    using g b(2) by (auto simp: get_request_helper_def)
qed

lemma serve_request_safe:
  assumes "sm_inv s"
  shows "safe (serve_request fuel s)"
proof -
  obtain q s1 where g: "get_request_helper s = Inr (q, s1)" "sm_inv s1"
    "rq_rtype q = SM_REQ_INVALID \<or> request_ok q"
    using get_request_helper_safe [OF assms] by blast
  have "rq_rtype q = SM_REQ_START \<Longrightarrow> safe (serve_start fuel s1 q)"
    "rq_rtype q = SM_REQ_STOP \<Longrightarrow> safe (serve_stop fuel s1 q)"
    "rq_rtype q = SM_REQ_ONESHOT \<Longrightarrow> safe (serve_oneshot fuel s1 q)"
    using g(2,3) by (auto simp: request_ok_def sm_req_codes intro: serve_start_safe serve_stop_safe serve_oneshot_safe)
  with g(1,2) show ?thesis by (auto simp: serve_request_def)
qed


section \<open>The rounds\<close>

text \<open>An update of the events alone.\<close>

lemma sm_inv_events:
  assumes "sm_inv s" and "\<forall>ev. Some ev \<in> set es \<longrightarrow> sensor_ix (ev_type ev)"
  shows "sm_inv (s\<lparr>sm_events := es\<rparr>)"
  using assms by (simp add: sm_inv_def sensors_ok_def buffers_ok_def)

lemma event_based_ix: "event_based ev \<Longrightarrow> sensor_ix (ev_type ev)"
  by (auto simp: event_based_def sensor_ix_def sensor_codes ZE_NUMSENSORS_def)

lemma write_cache_inv: "sm_inv s \<Longrightarrow> event_based ev \<Longrightarrow> sm_inv (write_cache ev s)"
  using sm_inv_at [of s "ev_type ev"]
  by (auto simp: write_cache_def write_last_event_SYN_def event_based_ix intro!: sm_inv_upd)

definition round_inv :: "sensor_event option \<times> sm_state \<Rightarrow> bool" where
  "round_inv x \<longleftrightarrow> sm_inv (snd x) \<and> (\<forall>ev. fst x = Some ev \<longrightarrow> sensor_ix (ev_type ev))"

lemma fetch_sample_inv:
  "sm_inv s \<Longrightarrow> (\<forall>ev. Some ev \<in> set es \<longrightarrow> sensor_ix (ev_type ev)) \<Longrightarrow> round_inv (fetch_sample es s)"
  by (induction es s rule: fetch_sample.induct)
    (auto simp: round_inv_def write_cache_inv intro!: sm_inv_events)

lemma fetch_event_inv:
  assumes "sm_inv s"
  shows "round_inv (fetch_event qselect s)"
proof (cases qselect)
  case SAMPLES_QUEUE
  with assms fetch_sample_inv [OF assms, of "sm_events s"] show ?thesis
    by (simp add: fetch_event_def sm_inv_def)
next
  case CARRIERS_QUEUE
  with assms show ?thesis
    by (auto simp: fetch_event_def fetch_carrier_def get_carrier_event_def round_inv_def sm_inv_def
        sensors_ok_def buffers_ok_def split: list.split)
qed

lemma log_sample_sat: "outcome_sat thread_faults (\<lambda>_. True) (log_sample g c l)"
  by (simp add: log_sample_def)

lemma sm_inv_logs [simp]:
  "sm_inv (s\<lparr>sm_accel_log := l\<rparr>) = sm_inv s" "sm_inv (s\<lparr>sm_prox_log := l\<rparr>) = sm_inv s"
  "sm_inv (s\<lparr>sm_light_log := l\<rparr>) = sm_inv s" "sm_inv (s\<lparr>sm_orient_log := l\<rparr>) = sm_inv s"
  "sm_inv (s\<lparr>sm_gyro_log := l\<rparr>) = sm_inv s"
  by (simp_all add: sm_inv_def sensors_ok_def buffers_ok_def)

lemma record_sample_safe:
  assumes "sm_inv s"
  shows "safe (record_sample ev s)"
proof -
  have "sm_inv (snd (ask w_clock s))" using assms by simp
  then show ?thesis
    using assms
    by (auto simp: record_sample_def Let_def split_def intro!: outcome_sat_bindR [OF log_sample_sat])
qed

text \<open>Answering the oneshots and turning the sensor off.\<close>

lemma answer_oneshots_safe:
  "sm_inv s \<Longrightarrow> sensor_ix (ev_type ev) \<Longrightarrow> safe (answer_oneshots fuel ev os s)"
proof (induction os arbitrary: s)
  case (Cons a os)
  then show ?case
    by (auto intro!: outcome_sat_bindR [OF send_safe] Cons.IH sm_inv_upd simp: sm_inv_at)
qed simp

lemma turnoff_safe:
  assumes "sm_inv s" and "sensor_ix i"
  shows "safe (bindR (android_sensor_turnoff s i) (\<lambda>(_, s2). Inr s2))"
proof -
  obtain r t where t: "android_sensor_turnoff s i = Inr (r, t)"
    using turnoff_returns [OF assms(2)] by blast
  with assms sm_inv_rest [OF assms(1) hw_frame_rest [OF turnoff_frame [OF t]]]
    sensors_ok_frame [OF turnoff_frame [OF t]] show ?thesis by (simp add: sm_inv_sensors)
qed

lemma serve_oneshots_safe:
  assumes "sm_inv s" and "sensor_ix (ev_type ev)"
  shows "safe (serve_oneshots fuel ev s)"
  using assms
  by (auto simp: serve_oneshots_def intro!: outcome_sat_bindR [OF answer_oneshots_safe] turnoff_safe)

text \<open>Feeding the streams.\<close>

lemma buffer_sample_safe:
  assumes "stream_ok st"
  shows "\<exists>st'. buffer_sample ev st = Inr st' \<and> st_event_buffer_level st' = SOURCE_BUFFER_SIZE
    \<and> st_reg st' = st_reg st \<and> st_freq st' = st_freq st \<and> st_repeat st' = st_repeat st
    \<and> length (st_event_buffer st') = SOURCE_BUFFER_SIZE \<and> length (st_event_rtpts_buffer st') = SOURCE_BUFFER_SIZE"
  using assms
  by (simp add: buffer_sample_def write_at_def next_rtpts_def stream_ok_def SOURCE_BUFFER_SIZE_def)

lemma notify_stream_safe:
  assumes "sm_inv s" and "stream_ok st"
  shows "outcome_sat thread_faults (\<lambda>(st', s'). sm_inv s' \<and> sm_sensors s' = sm_sensors s \<and> stream_ok st'
    \<and> st_reg st' = st_reg st) (notify_stream fuel s ev st)"
proof -
  obtain st' where st': "buffer_sample ev st = Inr st'" "st_event_buffer_level st' = SOURCE_BUFFER_SIZE"
    "st_reg st' = st_reg st" "st_freq st' = st_freq st" "st_repeat st' = st_repeat st"
    "length (st_event_buffer st') = SOURCE_BUFFER_SIZE" "length (st_event_rtpts_buffer st') = SOURCE_BUFFER_SIZE"
    using buffer_sample_safe [OF assms(2)] by blast
  have pos: "0 < SOURCE_BUFFER_SIZE" by (simp add: SOURCE_BUFFER_SIZE_def)
  have rep: "st_repeat st = REPETITION_OFF" "0 < st_freq st" using assms(2) by (simp_all add: stream_ok_def)
  show ?thesis
    unfolding notify_stream_def notify_once_def st'(1) if_P [OF rep(1)] bindR.simps if_P [OF st'(2)]
    by (rule outcome_sat_bindR [OF send_safe [OF assms(1) pos]])
      (use st' rep in \<open>auto simp: stream_ok_def\<close>)
qed

lemma sensor_ok_stream_upd:
  assumes "sensor_ok sn" and "stream_ok st'" and "k < length (sn_streams sn)" "st_reg st' = st_reg (sn_streams sn ! k)"
  shows "sensor_ok (sn\<lparr>sn_streams := (sn_streams sn)[k := st']\<rparr>)"
proof -
  have "regs ((sn_streams sn)[k := st']) = regs (sn_streams sn)"
    using assms(3,4) by (simp add: map_update list_update_same_conv)
  with assms(1,2) show ?thesis
    using set_update_subset_insert [of "sn_streams sn" k st'] by (auto simp: sensor_ok_def)
qed

lemma notify_streams_safe:
  assumes "sm_inv s" and "sensor_ix (ev_type ev)"
    and "sn_streams (sensor_at s (ev_type ev)) = pre @ rest" and "k = length pre"
  shows "safe (notify_streams fuel ev k rest s)"
  using assms
proof (induction rest arbitrary: s pre k)
  case (Cons st rest)
  let ?i = "ev_type ev"
  have sok: "sensor_ok (sensor_at s ?i)" using Cons.prems(1,2) by (rule sm_inv_at)
  then have stok: "stream_ok st" using Cons.prems(3) by (simp add: sensor_ok_def)
  have "safe (notify_streams fuel ev (Suc k) rest
      (upd_sensor ?i (\<lambda>sn. sn\<lparr>sn_streams := (sn_streams sn)[k := st']\<rparr>) s1))"
    if s1: "sm_inv s1" "sm_sensors s1 = sm_sensors s" "stream_ok st'" "st_reg st' = st_reg st" for st' s1
  proof -
    have at: "sensor_at s1 ?i = sensor_at s ?i" using s1(2) by (simp add: sensor_at_def)
    have "sm_inv (upd_sensor ?i (\<lambda>sn. sn\<lparr>sn_streams := (sn_streams sn)[k := st']\<rparr>) s1)"
      using s1 at sok Cons.prems(3,4) by (intro sm_inv_upd sensor_ok_stream_upd) auto
    moreover have "sn_streams (sensor_at (upd_sensor ?i (\<lambda>sn. sn\<lparr>sn_streams := (sn_streams sn)[k := st']\<rparr>) s1) ?i)
        = (pre @ [st']) @ rest"
      using Cons.prems at by (simp add: sensor_at_upd sensors_ok_length [OF sm_inv_sensors [OF s1(1)]])
    ultimately show ?thesis
      using Cons.prems(2,4) by (intro Cons.IH [where pre = "pre @ [st']"]) simp_all
  qed
  then show ?case
    by (auto intro!: outcome_sat_bindR [OF notify_stream_safe [OF Cons.prems(1) stok]])
qed simp

lemma process_event_safe:
  assumes "sm_inv s" and "sensor_ix (ev_type ev)"
  shows "safe (process_event fuel qselect ev s)"
  unfolding process_event_def
proof (rule outcome_sat_bindR [OF record_sample_safe [OF assms(1)]])
  fix s1 assume s1: "sm_inv s1"
  let ?s2 = "if qselect = SAMPLES_QUEUE
    then upd_sensor (ev_type ev) (\<lambda>sn. sn\<lparr>sn_event_cache := ev, sn_cache_valid := 1\<rparr>) s1 else s1"
  have "sm_inv ?s2" using s1 assms(2) by (simp add: sm_inv_upd sm_inv_at)
  then have "safe (bindR (serve_oneshots fuel ev ?s2)
      (\<lambda>s3. notify_streams fuel ev 0 (sn_streams (sensor_at s3 (ev_type ev))) s3))"
    using assms(2) by (auto intro!: outcome_sat_bindR [OF serve_oneshots_safe] notify_streams_safe [where pre = "[]"])
  then show "safe (bindR (get_sensor s1 (ev_type ev)) (\<lambda>_. let s2 = ?s2 in
      bindR (serve_oneshots fuel ev s2) (\<lambda>s3. notify_streams fuel ev 0 (sn_streams (sensor_at s3 (ev_type ev))) s3)))"
    using assms(2) by (simp add: get_sensor_def Let_def)
qed

lemma sample_round_safe:
  assumes "sm_inv s"
  shows "safe (sample_round fuel qselect s)"
  using fetch_event_inv [OF assms, of qselect]
  by (auto simp: sample_round_def round_inv_def process_event_safe split: prod.split option.split)

lemma sample_rounds_safe: "sm_inv s \<Longrightarrow> safe (sample_rounds fuel n qselect s)"
  by (induction n arbitrary: s qselect) (auto intro!: outcome_sat_bindR [OF sample_round_safe])

lemma thread_iteration_safe: "sm_inv s \<Longrightarrow> safe (thread_iteration fuel s)"
  unfolding thread_iteration_def by (auto intro!: outcome_sat_bindR [OF serve_request_safe] sample_rounds_safe)


section \<open>The system\<close>

text \<open>
  What happens to the state of the thread: an iteration of its loop, a request put by the CoAP server,
  a response taken by it, answers of the sensor queue to come, an event put by a carrier thread, and the end of one.
\<close>

inductive sm_step :: "nat \<Rightarrow> sm_state \<Rightarrow> sm_state \<Rightarrow> bool" for fuel where
  iterate: "thread_iteration fuel s = Inr s' \<Longrightarrow> sm_step fuel s s'"
| request: "counter (sm_smreqbuf s) < SM_RBUF_SIZE \<Longrightarrow> request_ok q \<Longrightarrow>
    sm_step fuel s (note_issued q (s\<lparr>sm_smreqbuf := snd (put_request_buf_item id (sm_smreqbuf s)
      (rq_rtype q) (rq_sensor q) (rq_ticket q) (rq_freq q))\<rparr>))"
| serve: "sm_step fuel s (note_taken (take 1 (responses (sm_notbuf s)))
    (s\<lparr>sm_notbuf := snd (get_response_buf_item zero_response (sm_notbuf s))\<rparr>))"
| sample: "sensor_ix (ev_type ev) \<Longrightarrow> sm_step fuel s (s\<lparr>sm_events := sm_events s @ [Some ev, None]\<rparr>)"
| carrier: "sensor_ix (ev_type ev) \<Longrightarrow> utlist_ok U \<Longrightarrow>
    sm_step fuel s (s\<lparr>sm_carrq := snd (put_carrier_event U ok (sm_carrq s) ev)\<rparr>)"
| carrier_end: "sm_step fuel s (upd_sensor i (\<lambda>sn. sn\<lparr>sn_carrier_thread_started := 0\<rparr>) s)"

inductive_cases sm_stepE: "sm_step fuel s t"

definition sm_initial :: "sm_state \<Rightarrow> bool" where
  "sm_initial s \<longleftrightarrow> (\<exists>w. world_ok w \<and> utlists_ok w \<and> w_issued w = [] \<and> w_taken w = [] \<and> s = quiet_state\<lparr>sm_world := w\<rparr>)"

inductive sm_reachable :: "nat \<Rightarrow> sm_state \<Rightarrow> bool" for fuel where
  start: "sm_initial s \<Longrightarrow> sm_reachable fuel s"
| step: "sm_reachable fuel s \<Longrightarrow> sm_step fuel s t \<Longrightarrow> sm_reachable fuel t"

lemma quiet_buffers:
  "resbuf_wf (sm_notbuf quiet_state)" "reqbuf_wf (sm_smreqbuf quiet_state)"
  "set (requests (sm_smreqbuf quiet_state)) = {}" "sm_adqueue quiet_state = ADNull"
  "sm_events quiet_state = []" "cq_head (sm_carrq quiet_state) = []"
  using init_coap_buf_wf [of True] init_sm_buf_wf [of True]
  by (simp_all add: quiet_state_def init_coap_buf_def init_sm_buf_def init_carriers_queue_def)

lemma sm_initial_inv:
  assumes "sm_initial s"
  shows "sm_inv s"
proof -
  obtain w where "world_ok w" "utlists_ok w" "s = quiet_state\<lparr>sm_world := w\<rparr>"
    using assms by (auto simp: sm_initial_def)
  with quiet_state_ok quiet_buffers show ?thesis
    by (simp add: sm_inv_def sensors_ok_def buffers_ok_def del: ring_list_empty_iff)
qed

lemma sm_step_inv:
  assumes "sm_inv s" and "sm_step fuel s t"
  shows "sm_inv t"
  using assms(2)
proof cases
  case iterate
  with thread_iteration_safe [OF assms(1), of fuel] show ?thesis by simp
next
  case (request q)
  then have "requests (sm_smreqbuf t) = requests (sm_smreqbuf s) @ [q]" "reqbuf_wf (sm_smreqbuf t)"
    using assms(1) put_request_room_list [of "sm_smreqbuf s" id] put_request_room_wf [of "sm_smreqbuf s" id]
    by (cases q; simp add: sm_inv_def buffers_ok_def)+
  with request assms(1) show ?thesis by (auto simp: sm_inv_def sensors_ok_def buffers_ok_def)
next
  case serve
  with assms(1) get_response_wf show ?thesis by (simp add: sm_inv_def sensors_ok_def buffers_ok_def)
next
  case sample
  with assms(1) have "\<forall>ev. Some ev \<in> set (sm_events t) \<longrightarrow> sensor_ix (ev_type ev)"
    by (auto simp: sm_inv_def)
  with sample sm_inv_events [OF assms(1)] show ?thesis by simp
next
  case (carrier ev U ok)
  with assms(1) show ?thesis
    by (auto simp: put_carrier_event_def utlist_append sm_inv_def sensors_ok_def buffers_ok_def)
next
  case (carrier_end i)
  then have f: "hw_frame s t" by (simp add: hw_frame_upd_hw(3))
  show ?thesis
    using sm_inv_rest [OF assms(1) hw_frame_rest [OF f]] sensors_ok_frame [OF f] sm_inv_sensors [OF assms(1)] by simp
qed

lemma sm_reachable_inv: "sm_reachable fuel s \<Longrightarrow> sm_inv s"
  by (induction rule: sm_reachable.induct) (auto intro: sm_initial_inv sm_step_inv)

section \<open>Properties\<close>

text \<open>
  C2. In every state the system can reach from its start, whatever the requests (a sensor within the array and, for a START, a
  positive frequency: all that the handlers put), the samples, the answers of malloc and of the sensor interface, as long as the timed
  wait for room has no spurious wakeup: the streams of a sensor have distinct tickets and
  positive frequencies, none is in the repetition mode, no sample waits in a stream buffer between iterations, both ring
  buffers are well formed and the internal queue is empty.
\<close>

theorem streaming_thread_invariant:
  assumes "sm_reachable fuel s" and "sensor_ix i"
  shows "distinct (regs (sn_streams (sensor_at s i)))
    \<and> (\<forall>st\<in>set (sn_streams (sensor_at s i)). 0 < st_freq st \<and> st_repeat st = REPETITION_OFF
        \<and> st_event_buffer_level st = 0)
    \<and> resbuf_wf (sm_notbuf s) \<and> reqbuf_wf (sm_smreqbuf s) \<and> sm_adqueue s = ADNull"
  using sm_inv_at [OF sm_reachable_inv [OF assms(1)] assms(2)] sm_inv_buffers [OF sm_reachable_inv [OF assms(1)]]
  by (simp add: sensor_ok_def stream_ok_def buffers_ok_def)

lemma quiet_world_ok: "world_ok quiet_world" "utlists_ok quiet_world"
  by (simp_all add: world_ok_def wait_ok_def utlists_ok_def quiet_world_def)

lemma quiet_world_new: "w_issued quiet_world = []" "w_taken quiet_world = []"
  by (simp_all add: quiet_world_def)

lemma quiet_state_initial: "sm_initial quiet_state"
proof -
  have "quiet_state = quiet_state\<lparr>sm_world := quiet_world\<rparr>" by (simp add: quiet_state_def)
  then show ?thesis unfolding sm_initial_def using quiet_world_ok quiet_world_new by blast
qed

lemma quiet_reachable: "sm_reachable fuel quiet_state"
  using quiet_state_initial by (rule start)

lemma blank_sensor_number: "(blank_sensor 0)\<lparr>sn_sensor := i\<rparr> = blank_sensor i"
  by (simp add: blank_sensor_def)

lemma init_sensors_all:
  "init_sensors mtx [0..14] (replicate 15 (blank_sensor 0)) =
    (if mtx 3 \<noteq> 0 \<or> mtx 8 \<noteq> 0 then None else Some (map blank_sensor [0..14]))"
proof -
  have r: "replicate 15 (blank_sensor 0) = [blank_sensor 0, blank_sensor 0, blank_sensor 0, blank_sensor 0, blank_sensor 0,
      blank_sensor 0, blank_sensor 0, blank_sensor 0, blank_sensor 0, blank_sensor 0, blank_sensor 0, blank_sensor 0,
      blank_sensor 0, blank_sensor 0, blank_sensor 0]"
    by (simp add: numeral_eq_Suc)
  have u: "[0..14] = [0, 1, 2, 3, 4, 5, 6, 7, 8, 9, 10, 11, 12, 13, 14 :: int]"
    by (simp add: upto.simps)
  show ?thesis unfolding r u by (simp add: sensor_codes blank_sensor_number Let_def)
qed

lemma thread_start_eq:
  assumes "sm_sensors s = replicate 15 (blank_sensor 0)" and "sm_smreqbuf s = the (init_sm_buf True)"
    and "sm_notbuf s = the (init_coap_buf True)" and "world_ok (sm_world s)" and "utlists_ok (sm_world s)"
  shows "thread_start ok err mtx s =
    (if \<not> ok \<or> err \<noteq> 0 then Inl (Exit 1)
     else if mtx 3 \<noteq> 0 \<or> mtx 8 \<noteq> 0 then Inr None
     else Inr (Some (quiet_state\<lparr>sm_world := sm_world s, sm_events := flush_sensor_queue (sm_events s)\<rparr>)))"
proof -
  have i: "init_sensors mtx [0..int ZE_NUMSENSORS - 1] (sm_sensors s) =
      (if mtx 3 \<noteq> 0 \<or> mtx 8 \<noteq> 0 then None else Some (map blank_sensor [0..14]))"
    using init_sensors_all [of mtx] assms(1) by (simp add: ZE_NUMSENSORS_def)
  show ?thesis
    using assms(2,3) i
    by (cases s) (simp add: thread_start_def init_carriers_queue_def quiet_state_def)
qed

text \<open>
  The thread starts in an initial state of the system: over sensors of zeroed memory and fresh buffers, whatever the sensor
  queue held, its preparation gives the sensors their numbers, with no stream, no oneshot and no sensor active, and the carriers
  queue and the internal queue are empty. It fails only without memory or without a mutex, by exiting or returning.
\<close>

theorem thread_start_initial:
  assumes "sm_sensors s = replicate 15 (blank_sensor 0)" and "sm_smreqbuf s = the (init_sm_buf True)"
    and "sm_notbuf s = the (init_coap_buf True)" and "world_ok (sm_world s)" and "utlists_ok (sm_world s)"
  shows "thread_start ok err mtx s =
    (if \<not> ok \<or> err \<noteq> 0 then Inl (Exit 1)
     else if mtx 3 \<noteq> 0 \<or> mtx 8 \<noteq> 0 then Inr None
     else Inr (Some (quiet_state\<lparr>sm_world := sm_world s, sm_events := flush_sensor_queue (sm_events s)\<rparr>)))"
  using assms by (rule thread_start_eq)

theorem thread_start_initial_witness:
  "\<exists>s. thread_start True 0 (\<lambda>_. 0) s = Inr (Some quiet_state)"
proof -
  let ?s = "quiet_state\<lparr>sm_sensors := replicate 15 (blank_sensor 0), sm_events := [Some zero_event]\<rparr>"
  have "sm_sensors ?s = replicate 15 (blank_sensor 0)" "sm_smreqbuf ?s = the (init_sm_buf True)"
    "sm_notbuf ?s = the (init_coap_buf True)" "world_ok (sm_world ?s)" "utlists_ok (sm_world ?s)"
    using quiet_world_ok by (simp_all add: quiet_state_def)
  from thread_start_initial [OF this, of True 0 "\<lambda>_. 0"] show ?thesis
    by (intro exI [of _ ?s]) (simp add: quiet_state_def)
qed

text \<open>A START request for stream 7 of the accelerometer has been put.\<close>

definition asked_state :: sm_state where
  "asked_state = note_issued start_request
     (quiet_state\<lparr>sm_smreqbuf := snd (put_request_buf_item id (sm_smreqbuf quiet_state) SM_REQ_START 1 7 10)\<rparr>)"

lemma asked_reachable: "sm_reachable fuel asked_state"
proof -
  have "sm_step fuel quiet_state asked_state"
    using sm_step.request [of quiet_state start_request fuel]
    by (simp add: asked_state_def start_request_def request_ok_def quiet_state_def init_sm_buf_def)
  with quiet_reachable show ?thesis by (rule step)
qed

theorem streaming_thread_invariant_witness:
  "sm_adqueue asked_state = ADNull \<and> reqbuf_wf (sm_smreqbuf asked_state)"
  using streaming_thread_invariant [OF asked_reachable sensor_ix_1(1)] by blast

text \<open>
  C26. An iteration of the loop from a reachable state divides by no zero frequency, uses no freed request, accesses nothing outside
  the sensors array, a stream buffer or a packet, and does not exit: the only faults are a null pointer, the write of a sample
  behind its full log, and a wait for room in the response buffer that goes on.
\<close>

theorem iteration_faults:
  assumes "sm_reachable fuel s" and "thread_iteration fuel s = Inl e"
  shows "e \<in> {NullDeref, LogOverrun, StillWaiting}"
  using thread_iteration_safe [OF sm_reachable_inv [OF assms(1)], of fuel] assms(2)
  by (simp add: thread_faults_def)


text \<open>No memory is left when a ONESHOT request is served.\<close>

definition nomem_state :: sm_state where
  "nomem_state = note_issued \<lparr>rq_rtype = SM_REQ_ONESHOT, rq_sensor = 1, rq_ticket = 7, rq_freq = 0\<rparr> 
     (quiet_state\<lparr>sm_world := quiet_world\<lparr>w_malloc := (\<lambda>_. False)\<rparr>,
       sm_smreqbuf := snd (put_request_buf_item id (sm_smreqbuf quiet_state) SM_REQ_ONESHOT 1 7 0)\<rparr>)"

lemma quiet_nomem_reachable: "sm_reachable fuel (quiet_state\<lparr>sm_world := quiet_world\<lparr>w_malloc := (\<lambda>_. False)\<rparr>\<rparr>)"
proof -
  let ?w = "quiet_world\<lparr>w_malloc := (\<lambda>_. False)\<rparr>"
  have "world_ok ?w" "utlists_ok ?w" "w_issued ?w = []" "w_taken ?w = []"
    using quiet_world_ok quiet_world_new by (simp_all add: world_ok_def utlists_ok_def)
  then show ?thesis by (intro sm_reachable.start) (unfold sm_initial_def, blast)
qed

lemma nomem_reachable: "sm_reachable fuel nomem_state"
proof -
  let ?w = "quiet_world\<lparr>w_malloc := (\<lambda>_. False)\<rparr>"
  let ?q = "\<lparr>rq_rtype = SM_REQ_ONESHOT, rq_sensor = 1, rq_ticket = 7, rq_freq = 0\<rparr>"
  have "sm_step fuel (quiet_state\<lparr>sm_world := ?w\<rparr>) nomem_state"
    using sm_step.request [of "quiet_state\<lparr>sm_world := ?w\<rparr>" ?q fuel]
    by (simp add: nomem_state_def request_ok_def quiet_state_def init_sm_buf_def sm_req_codes)
  with quiet_nomem_reachable show ?thesis by (rule step)
qed

lemma nomem_faults: "thread_iteration 0 nomem_state = Inl NullDeref"
  by (simp add: thread_iteration_def serve_request_def get_request_helper_def get_request_def get_request_buf_item_def
      nomem_state_def put_request_buf_item_def quiet_state_def init_sm_buf_def SM_RBUF_SIZE_def note_issued_def
      serve_oneshot_def get_sensor_def sensor_at_def blank_sensor_def sm_req_codes
      android_sensor_activate_def sensor_codes ask_def quiet_world_def event_rate_def DEFAULT_FREQ_def c_div_def
      sm_new_oneshot_def emit_def upd_sensor_def upto.simps)

theorem iteration_faults_witness: "NullDeref \<in> {NullDeref, LogOverrun, StillWaiting}
    \<and> thread_iteration 0 nomem_state = Inl NullDeref"
  using iteration_faults [OF nomem_reachable nomem_faults] nomem_faults by simp

end
