(* ===== verification/ThreadFrame.thy ===== *)
theory ThreadFrame
  imports ThreadInvariant
begin

text \<open>
  What an iteration of the Streaming Manager loop does, as an interface: \<open>thread_frame\<close> is any relation
  between the states before and after that is a preorder and holds for the primitive changes the code makes. It then holds for
  every operation of the loop and for a whole iteration. What follows from it (what responses there are, what happens
  to the request buffer, to the flags of the carrier threads, to the caches) needs only its primitive changes.
\<close>

section \<open>The primitive changes\<close>

text \<open>
  An update of a sensor that leaves its oneshots, the carrier thread's flag and the cache alone, or at most invalidates the cache.
\<close>

definition keeps_carrier :: "(sensor \<Rightarrow> sensor) \<Rightarrow> bool" where
  "keeps_carrier f \<longleftrightarrow> (\<forall>sn. sn_carrier_thread_started (f sn) = sn_carrier_thread_started sn
     \<and> sn_event_cache (f sn) = sn_event_cache sn \<and> sn_oneshots (f sn) = sn_oneshots sn
     \<and> (sn_cache_valid (f sn) = sn_cache_valid sn \<or> sn_cache_valid (f sn) = 0))"

lemma keeps_carrierI:
  "keeps_carrier (\<lambda>sn. sn\<lparr>sn_is_active := a\<rparr>)" "keeps_carrier (\<lambda>sn. sn\<lparr>sn_android_handle := h\<rparr>)"
  "keeps_carrier (\<lambda>sn. sn\<lparr>sn_is_active := a, sn_cache_valid := 0\<rparr>)" "keeps_carrier (\<lambda>sn. sn\<lparr>sn_freq := r\<rparr>)"
  "keeps_carrier (\<lambda>sn. sn\<lparr>sn_streams := g sn\<rparr>)"
  by (simp_all add: keeps_carrier_def)

text \<open>One that also leaves alone the frequency, and whether there are streams.\<close>

definition keeps_idle :: "(sensor \<Rightarrow> sensor) \<Rightarrow> bool" where
  "keeps_idle f \<longleftrightarrow> (\<forall>sn. sn_freq (f sn) = sn_freq sn \<and> (sn_streams (f sn) = [] \<longleftrightarrow> sn_streams sn = []))"

lemma keeps_idleI:
  "keeps_idle (\<lambda>sn. sn\<lparr>sn_is_active := a\<rparr>)" "keeps_idle (\<lambda>sn. sn\<lparr>sn_android_handle := h\<rparr>)"
  "keeps_idle (\<lambda>sn. sn\<lparr>sn_is_active := a, sn_cache_valid := 0\<rparr>)"
  "keeps_idle (\<lambda>sn. sn\<lparr>sn_streams := (sn_streams sn)[k := st]\<rparr>)"
  by (simp_all add: keeps_idle_def)

text \<open>The data of a packet and its length agree.\<close>

definition packet_ok :: "sm_packet \<Rightarrow> bool" where
  "packet_ok c \<longleftrightarrow> pk_length c = (case pk_data c of None \<Rightarrow> 0 | Some bs \<Rightarrow> int (length bs))"

text \<open>The responses the thread puts: a stop without a packet, an update or a oneshot with one.\<close>

definition response_form :: "int \<Rightarrow> sm_packet option \<Rightarrow> bool" where
  "response_form rt pk \<longleftrightarrow> rt = STREAM_STOPPED \<and> pk = None
     \<or> (rt = STREAM_UPDATE \<or> rt = ONESHOT) \<and> (\<exists>c. pk = Some c \<and> packet_ok c)"

lemma write_values_length: "write_values vs p off = Inr (q, off') \<Longrightarrow> length q = length p"
  by (induction vs arbitrary: p off) (auto simp: bindR_Inr_iff dest!: poke_length)

lemma write_samples_length: "write_samples vals evs tss ks p off = Inr q \<Longrightarrow> length q = length p"
  by (induction ks arbitrary: p off) (auto simp: bindR_Inr_iff dest!: poke_length write_values_length)

lemma encode_branch_packet: "encode_branch ok nf vals c evs tss n = Inr (Some d) \<Longrightarrow> packet_ok d"
  by (auto simp: encode_branch_def Let_def bindR_Inr_iff packet_ok_def split: if_splits
      dest!: poke_length write_samples_length)

lemma encode_packet: "encode ok1 ok2 evs tss n = Inr (Some c) \<Longrightarrow> packet_ok c"
  by (auto simp: encode_def Let_def bindR_Inr_iff encode_accel_def encode_prox_def encode_light_def
      encode_orient_def encode_gyro_def packet_ok_def [of "sm_packet.make _ _ _ _ _"] split: if_splits
      dest: encode_branch_packet) (simp_all add: packet_ok_def)

section \<open>The interface\<close>

text \<open>What the helpers of the sensors need.\<close>

locale hardware_frame =
  fixes R :: "sm_state \<Rightarrow> sm_state \<Rightarrow> bool"
  assumes same: "R s s"
    and seq: "R s t \<Longrightarrow> R t u \<Longrightarrow> R s u"
    and asked: "R s (s\<lparr>sm_world := (sm_world s)\<lparr>w_tick := n, w_calls := cs\<rparr>\<rparr>)"
    and hardware: "keeps_carrier f \<Longrightarrow> keeps_idle f \<Longrightarrow> R s (upd_sensor i f s)"
    and flag: "i = ASENSOR_TYPE_PROXIMITY \<or> i = ZESENSE_SENSOR_TYPE_ORIENTATION \<Longrightarrow>
      sn_carrier_thread_started (sensor_at s i) = 0 \<Longrightarrow>
      R s (upd_sensor i (\<lambda>sn. sn\<lparr>sn_carrier_thread_started := 1\<rparr>) s)"
begin

lemma ask_R: "R s (snd (ask f s))"
proof -
  have "snd (ask f s) = s\<lparr>sm_world := (sm_world s)\<lparr>w_tick := w_tick (sm_world s) + 1, w_calls := w_calls (sm_world s)\<rparr>\<rparr>"
    by (simp add: ask_def)
  then show ?thesis by (simp only: asked)
qed

lemma emit_R: "R s (emit c s)"
proof -
  have "emit c s = s\<lparr>sm_world := (sm_world s)\<lparr>w_tick := w_tick (sm_world s), w_calls := w_calls (sm_world s) @ [c]\<rparr>\<rparr>"
    by (simp add: emit_def)
  then show ?thesis by (simp only: asked)
qed

text \<open>A primitive change behind what has been done already.\<close>

lemma step_R:
  assumes "R s t"
  shows "R s (snd (ask f t))" and "R s (emit c t)" and "keeps_carrier g \<Longrightarrow> keeps_idle g \<Longrightarrow> R s (upd_sensor i g t)"
  by (rule seq [OF assms ask_R] seq [OF assms emit_R] seq [OF assms hardware]; assumption?)+

lemma start_carrier_R:
  assumes "R s t" and "i = ASENSOR_TYPE_PROXIMITY \<or> i = ZESENSE_SENSOR_TYPE_ORIENTATION"
    and "sn_carrier_thread_started (sensor_at t i) = 0"
  shows "R s (snd (start_carrier t i))"
proof -
  let ?u = "emit (StartCarrierThread i (fst (ask w_rc t))) (snd (ask w_rc t))"
  have u: "R s ?u" by (intro step_R assms(1))
  have "R ?u (upd_sensor i (\<lambda>sn. sn\<lparr>sn_carrier_thread_started := 1\<rparr>) ?u)"
    using assms(2,3) by (intro flag) simp_all
  with u show ?thesis by (auto simp: start_carrier_def Let_def split_def intro: seq)
qed

lemma activate_R: "android_sensor_activate s i freq = Inr (r, t) \<Longrightarrow> R s t"
  by (auto simp: android_sensor_activate_def Let_def split_def bindR_Inr_iff split: if_splits option.splits
      intro!: step_R same keeps_carrierI keeps_idleI dest!: arg_cong [where f = snd] intro: start_carrier_R)

lemma changef_R: "android_sensor_changef s i freq = Inr (r, t) \<Longrightarrow> R s t"
  by (auto simp: android_sensor_changef_def Let_def split_def bindR_Inr_iff split: if_splits
      intro!: step_R same)

lemma turnoff_R: "android_sensor_turnoff s i = Inr (r, t) \<Longrightarrow> R s t"
  by (auto simp: android_sensor_turnoff_def Let_def split_def bindR_Inr_iff split: if_splits
      intro!: step_R same keeps_carrierI keeps_idleI)

end

text \<open>What the rounds of samples need on top.\<close>

locale round_frame = hardware_frame +
  assumes oneshots: "R s (upd_sensor i (\<lambda>sn. sn\<lparr>sn_oneshots := os sn\<rparr>) s)"
    and cached: "sensor_ix (ev_type ev) \<Longrightarrow>
      R s (upd_sensor (ev_type ev) (\<lambda>sn. sn\<lparr>sn_event_cache := ev, sn_cache_valid := 1\<rparr>) s)"
    and queued: "R s (s\<lparr>sm_events := es\<rparr>)"
    and carried: "R s (snd (fetch_carrier s))"
    and samples: "R s (s\<lparr>sm_accel_log := l1, sm_orient_log := l2, sm_light_log := l3, sm_prox_log := l4, sm_gyro_log := l5\<rparr>)"
    and put: "put_response_helper fuel s rt tk pk = Inr (r, t) \<Longrightarrow> response_form rt pk \<Longrightarrow> R s t"
begin

lemma logs_R: "R s (s\<lparr>sm_accel_log := l\<rparr>)" "R s (s\<lparr>sm_prox_log := l\<rparr>)" "R s (s\<lparr>sm_light_log := l\<rparr>)"
  "R s (s\<lparr>sm_orient_log := l\<rparr>)" "R s (s\<lparr>sm_gyro_log := l\<rparr>)"
proof -
  note g = samples [where s = s and ?l1.0 = "sm_accel_log s" and ?l2.0 = "sm_orient_log s" and ?l3.0 = "sm_light_log s"
      and ?l4.0 = "sm_prox_log s"]
  show "R s (s\<lparr>sm_accel_log := l\<rparr>)" using samples [where s = s and ?l1.0 = l and ?l2.0 = "sm_orient_log s"
      and ?l3.0 = "sm_light_log s" and ?l4.0 = "sm_prox_log s" and ?l5.0 = "sm_gyro_log s"] by simp
  show "R s (s\<lparr>sm_prox_log := l\<rparr>)" using samples [where s = s and ?l1.0 = "sm_accel_log s" and ?l2.0 = "sm_orient_log s"
      and ?l3.0 = "sm_light_log s" and ?l4.0 = l and ?l5.0 = "sm_gyro_log s"] by simp
  show "R s (s\<lparr>sm_light_log := l\<rparr>)" using samples [where s = s and ?l1.0 = "sm_accel_log s" and ?l2.0 = "sm_orient_log s"
      and ?l3.0 = l and ?l4.0 = "sm_prox_log s" and ?l5.0 = "sm_gyro_log s"] by simp
  show "R s (s\<lparr>sm_orient_log := l\<rparr>)" using samples [where s = s and ?l1.0 = "sm_accel_log s" and ?l2.0 = l
      and ?l3.0 = "sm_light_log s" and ?l4.0 = "sm_prox_log s" and ?l5.0 = "sm_gyro_log s"] by simp
  show "R s (s\<lparr>sm_gyro_log := l\<rparr>)" using g [where ?l5.0 = l] by simp
qed

lemma send_packet_R:
  assumes "send_packet fuel s evs tss n conf rt tk = Inr t" and "rt = STREAM_UPDATE \<or> rt = ONESHOT"
  shows "R s t"
proof -
  obtain ok1 ok2 c r where c: "encode ok1 ok2 evs tss n = Inr (Some c)"
    and h: "put_response_helper fuel (snd (ask w_malloc (snd (ask w_malloc s)))) rt tk (Some (c\<lparr>pk_conf := conf\<rparr>)) = Inr (r, t)"
    using assms(1)
    by (auto simp: send_packet_def sm_encode_def set_conf_def Let_def split_def bindR_Inr_iff split: option.splits)
  have "packet_ok (c\<lparr>pk_conf := conf\<rparr>)" using encode_packet [OF c] by (simp add: packet_ok_def)
  then have "R (snd (ask w_malloc (snd (ask w_malloc s)))) t"
    using assms(2) by (intro put [OF h]) (simp add: response_form_def)
  then show ?thesis by (rule seq [rotated]) (intro step_R same)
qed

lemma stopped_R: "put_response_helper fuel s STREAM_STOPPED tk None = Inr (r, t) \<Longrightarrow> R s t"
  by (erule put) (simp add: response_form_def)

lemma write_cache_R: "event_based ev \<Longrightarrow> R s (write_cache ev s)"
  using cached [of ev s]
  by (auto simp: write_cache_def write_last_event_SYN_def event_based_def sensor_ix_def sensor_codes ZE_NUMSENSORS_def)

lemma fetch_sample_R: "R s (snd (fetch_sample es s))"
proof (induction es s rule: fetch_sample.induct)
  case (3 event es s)
  then show ?case using seq [OF write_cache_R [of event s]] by (auto intro: queued)
qed (simp_all add: queued)

lemma fetch_event_R: "R s (snd (fetch_event qselect s))"
  by (cases qselect) (simp_all add: fetch_event_def fetch_sample_R carried)

lemma record_sample_R: "record_sample ev s = Inr t \<Longrightarrow> R s t"
  by (auto simp: record_sample_def Let_def split_def bindR_Inr_iff split: if_splits
      intro: seq [OF ask_R logs_R(1)] seq [OF ask_R logs_R(2)] seq [OF ask_R logs_R(3)]
        seq [OF ask_R logs_R(4)] seq [OF ask_R logs_R(5)] same)

lemma answer_oneshots_R: "answer_oneshots fuel ev os s = Inr t \<Longrightarrow> R s t"
proof (induction os arbitrary: s)
  case (Cons one os)
  then obtain s1 where "send_packet fuel s [ev] [0] 1 COAP_MESSAGE_CON ONESHOT one = Inr s1"
    and t: "answer_oneshots fuel ev os (upd_sensor (ev_type ev) (\<lambda>sn. sn\<lparr>sn_oneshots := os\<rparr>) s1) = Inr t"
    by (auto simp: bindR_Inr_iff)
  then have "R s (upd_sensor (ev_type ev) (\<lambda>sn. sn\<lparr>sn_oneshots := os\<rparr>) s1)"
    by (intro seq [OF _ oneshots]) (auto dest: send_packet_R)
  from this Cons.IH [OF t] show ?case by (rule seq)
qed (simp add: same)

lemma serve_oneshots_R: "serve_oneshots fuel ev s = Inr t \<Longrightarrow> R s t"
  by (auto simp: serve_oneshots_def bindR_Inr_iff split: if_splits intro: same seq
      dest!: answer_oneshots_R turnoff_R)

lemma notify_stream_R: "notify_stream fuel s ev st = Inr (st', t) \<Longrightarrow> R s t"
  by (auto simp: notify_stream_def notify_once_def notify_repeat_def bindR_Inr_iff split: if_splits
      intro: same dest!: send_packet_R)

lemma notify_streams_R: "notify_streams fuel ev k sts s = Inr t \<Longrightarrow> R s t"
proof (induction sts arbitrary: k s)
  case (Cons st sts)
  then obtain st' s1 where "notify_stream fuel s ev st = Inr (st', s1)"
    and t: "notify_streams fuel ev (Suc k) sts
      (upd_sensor (ev_type ev) (\<lambda>sn. sn\<lparr>sn_streams := (sn_streams sn)[k := st']\<rparr>) s1) = Inr t"
    by (auto simp: bindR_Inr_iff)
  then have "R s (upd_sensor (ev_type ev) (\<lambda>sn. sn\<lparr>sn_streams := (sn_streams sn)[k := st']\<rparr>) s1)"
    by (intro step_R keeps_carrierI keeps_idleI notify_stream_R)
  from this Cons.IH [OF t] show ?case by (rule seq)
qed (simp add: same)

lemma process_event_R:
  assumes "process_event fuel qselect ev s = Inr t"
  shows "R s t"
proof -
  obtain s1 s2 s3 where r: "record_sample ev s = Inr s1" and ix: "sensor_ix (ev_type ev)"
    and s2: "s2 = (if qselect = SAMPLES_QUEUE
      then upd_sensor (ev_type ev) (\<lambda>sn. sn\<lparr>sn_event_cache := ev, sn_cache_valid := 1\<rparr>) s1 else s1)"
    and o: "serve_oneshots fuel ev s2 = Inr s3"
    and n: "notify_streams fuel ev 0 (sn_streams (sensor_at s3 (ev_type ev))) s3 = Inr t"
    using assms by (auto simp: process_event_def get_sensor_def bindR_Inr_iff Let_def split: if_splits)
  have "R s1 s2" unfolding s2 using cached [OF ix] same by simp
  with record_sample_R [OF r] serve_oneshots_R [OF o] notify_streams_R [OF n] seq show ?thesis by blast
qed

lemma sample_round_R: "sample_round fuel qselect s = Inr t \<Longrightarrow> R s t"
  using fetch_event_R [of s qselect]
  by (auto simp: sample_round_def split: prod.splits option.splits dest!: process_event_R intro: seq)

lemma sample_rounds_R: "sample_rounds fuel n qselect s = Inr t \<Longrightarrow> R s t"
  by (induction n arbitrary: qselect s) (auto simp: bindR_Inr_iff same dest!: sample_round_R intro: seq)

lemma serve_oneshot_R: "serve_oneshot fuel s q = Inr t \<Longrightarrow> R s t"
  by (auto simp: serve_oneshot_def bindR_Inr_iff sm_new_oneshot_def Let_def split_def split: if_splits option.splits
      dest!: activate_R intro!: seq [OF step_R(1) oneshots] intro: send_packet_R)

end

text \<open>What the operations on streams need.\<close>

locale stream_frame =
  fixes R :: "sm_state \<Rightarrow> sm_state \<Rightarrow> bool"
  assumes refl: "R s s"
    and trans: "R s t \<Longrightarrow> R t u \<Longrightarrow> R s u"
    and world: "R s (s\<lparr>sm_world := (sm_world s)\<lparr>w_tick := n, w_calls := cs\<rparr>\<rparr>)"
    and sensor: "keeps_carrier f \<Longrightarrow> R s (upd_sensor i f s)"
    and carrier: "i = ASENSOR_TYPE_PROXIMITY \<or> i = ZESENSE_SENSOR_TYPE_ORIENTATION \<Longrightarrow>
      sn_carrier_thread_started (sensor_at s i) = 0 \<Longrightarrow>
      R s (upd_sensor i (\<lambda>sn. sn\<lparr>sn_carrier_thread_started := 1\<rparr>) s)"
begin

lemma stream_step_R: "R s t \<Longrightarrow> keeps_carrier g \<Longrightarrow> R s (upd_sensor i g t)"
  by (rule trans [OF _ sensor])

end

sublocale stream_frame \<subseteq> hardware_frame
  by unfold_locales (blast intro: refl trans world sensor carrier)+

context stream_frame
begin

lemma start_stream_R:
  assumes "sm_start_stream s i reg freq = Inr (b, t)"
  shows "R s t"
proof (cases "fst (ask w_malloc s)")
  case False
  with assms show ?thesis by (auto simp: sm_start_stream_def sm_new_stream_def Let_def split_def intro: step_R refl)
next
  case True
  let ?s2 = "snd (ask w_rand (snd (ask w_malloc s)))" and ?f = "\<lambda>sn. sn\<lparr>sn_freq := freq\<rparr>"
  have s2: "R s ?s2" "R s (upd_sensor i ?f ?s2)" by (intro stream_step_R refl keeps_carrierI step_R)+
  from True assms obtain r s3 b sts where r: "(r, s3) = (0, ?s2)
      \<or> android_sensor_activate (upd_sensor i ?f ?s2) i freq = Inr (r, s3)
      \<or> android_sensor_changef (upd_sensor i ?f ?s2) i freq = Inr (r, s3)"
    and t: "t = upd_sensor i (\<lambda>sn. sn\<lparr>sn_streams := sts\<rparr>) s3"
    by (auto simp: sm_start_stream_def sm_new_stream_def Let_def split_def bindR_Inr_iff split: if_splits)
  then have "R s s3" using s2 trans [OF s2(2)] activate_R changef_R by blast
  then show ?thesis unfolding t by (intro stream_step_R keeps_carrierI)
qed

lemma stop_stream_R:
  assumes "sm_stop_stream s i reg = Inr (r, t)"
  shows "R s t"
proof -
  show ?thesis
  proof (cases "sm_find_stream s i reg")
    case None
    with assms show ?thesis by (auto simp: sm_stop_stream_def bindR_Inr_iff intro: refl)
  next
    case (Some del)
    let ?sts = "ll_delete (w_streams (sm_world s)) (sn_streams (sensor_at s i)) del"
    let ?s1 = "upd_sensor i (\<lambda>sn. sn\<lparr>sn_streams := ?sts\<rparr>) s"
    have s1: "R s ?s1" "R s (upd_sensor i (\<lambda>sn. sn\<lparr>sn_freq := f\<rparr>) ?s1)" for f
      by (intro stream_step_R refl keeps_carrierI step_R)+
    show ?thesis
    proof (cases "?sts = [] \<and> sn_oneshots (sensor_at s i) = []")
      case True
      with Some assms obtain r' s2 where "android_sensor_turnoff ?s1 i = Inr (r', s2)"
        and t: "t = upd_sensor i (\<lambda>sn. sn\<lparr>sn_freq := 0\<rparr>) s2"
        by (auto simp: sm_stop_stream_def get_sensor_def Let_def split_def bindR_Inr_iff split: if_splits)
      then have "R s s2" using trans [OF s1(1)] turnoff_R by blast
      then show ?thesis unfolding t by (intro stream_step_R keeps_carrierI)
    next
      case False
      with Some assms obtain temp rest where l: "?sts = temp # rest"
        by (cases ?sts) (auto simp: sm_stop_stream_def get_sensor_def Let_def bindR_Inr_iff split: if_splits)
      with False Some assms obtain r' where
        "android_sensor_changef (upd_sensor i (\<lambda>sn. sn\<lparr>sn_freq := max_freq (st_freq temp) ?sts\<rparr>) ?s1) i
           (max_freq (st_freq temp) ?sts) = Inr (r', t)"
        by (auto simp: sm_stop_stream_def get_sensor_def Let_def split_def bindR_Inr_iff split: if_splits)
      then show ?thesis using trans [OF s1(2)] changef_R by blast
    qed
  qed
qed

end

text \<open>What the whole loop needs.\<close>

locale thread_frame = stream_frame +
  assumes pending: "R s (upd_sensor i (\<lambda>sn. sn\<lparr>sn_oneshots := os sn\<rparr>) s)"
    and cache: "sensor_ix (ev_type ev) \<Longrightarrow>
      R s (upd_sensor (ev_type ev) (\<lambda>sn. sn\<lparr>sn_event_cache := ev, sn_cache_valid := 1\<rparr>) s)"
    and events: "R s (s\<lparr>sm_events := es\<rparr>)"
    and fetch: "R s (snd (fetch_carrier s))"
    and logs: "R s (s\<lparr>sm_accel_log := l1, sm_orient_log := l2, sm_light_log := l3, sm_prox_log := l4, sm_gyro_log := l5\<rparr>)"
    and request: "get_request_helper s = Inr (rq, t) \<Longrightarrow> R s t"
    and response: "put_response_helper fuel s rt tk pk = Inr (r, t) \<Longrightarrow> response_form rt pk \<Longrightarrow> R s t"

sublocale thread_frame \<subseteq> round_frame
  by unfold_locales (blast intro: pending cache events fetch logs response)+

context thread_frame
begin

lemma serve_request_R: "serve_request fuel s = Inr t \<Longrightarrow> R s t"
proof -
  assume "serve_request fuel s = Inr t"
  then obtain q s1 where q: "get_request_helper s = Inr (q, s1)"
    and "serve_start fuel s1 q = Inr t \<or> serve_stop fuel s1 q = Inr t \<or> serve_oneshot fuel s1 q = Inr t \<or> t = s1"
    by (auto simp: serve_request_def bindR_Inr_iff split: if_splits)
  moreover have "serve_start fuel s1 q = Inr t \<Longrightarrow> R s1 t"
    by (auto simp: serve_start_def bindR_Inr_iff split: if_splits dest!: start_stream_R stopped_R
        intro: trans)
  moreover have "serve_stop fuel s1 q = Inr t \<Longrightarrow> R s1 t"
    by (auto simp: serve_stop_def bindR_Inr_iff split: if_splits dest!: stop_stream_R stopped_R
        intro: trans)
  moreover have "serve_oneshot fuel s1 q = Inr t \<Longrightarrow> R s1 t"
    by (rule serve_oneshot_R)
  ultimately show ?thesis using request [OF q] trans refl by blast
qed

lemma thread_iteration_R: "thread_iteration fuel s = Inr t \<Longrightarrow> R s t"
  by (auto simp: thread_iteration_def bindR_Inr_iff dest!: serve_request_R sample_rounds_R intro: trans)

end

section \<open>The buffers\<close>

text \<open>
  Requests only leave the request buffer, in order; responses are only added to the history of those the server has taken; and
  every response put is well formed: an update or a oneshot carries a packet whose length is that of its data.
\<close>

definition typed_responses :: "sm_state \<Rightarrow> bool" where
  "typed_responses s \<longleftrightarrow> (\<forall>r\<in>set (history s). response_form (rs_rtype r) (rs_pk r))"

definition buffers_here :: "sm_state \<Rightarrow> bool" where
  "buffers_here s \<longleftrightarrow> buffers_ok s \<and> sm_adqueue s = ADNull"

definition buffer_frame :: "sm_state \<Rightarrow> sm_state \<Rightarrow> bool" where
  "buffer_frame s t \<longleftrightarrow> (buffers_here s \<longrightarrow> buffers_here t \<and> (typed_responses s \<longrightarrow> typed_responses t)
     \<and> (\<exists>j. requests (sm_smreqbuf t) = drop j (requests (sm_smreqbuf s)))
     \<and> (\<exists>ts. w_taken (sm_world t) = w_taken (sm_world s) @ ts) \<and> w_issued (sm_world t) = w_issued (sm_world s))"

lemma buffer_frame_same:
  assumes "sm_notbuf t = sm_notbuf s" and "sm_smreqbuf t = sm_smreqbuf s" and "sm_adqueue t = sm_adqueue s"
    and "world_ok (sm_world t) = world_ok (sm_world s)" and "utlists_ok (sm_world t) = utlists_ok (sm_world s)"
    and "w_taken (sm_world t) = w_taken (sm_world s)" and "w_issued (sm_world t) = w_issued (sm_world s)"
  shows "buffer_frame s t"
proof -
  have "requests (sm_smreqbuf t) = drop 0 (requests (sm_smreqbuf s))" "history t = history s"
    using assms(1,2,6) by (simp_all add: history_def)
  with assms show ?thesis
    unfolding buffer_frame_def buffers_here_def typed_responses_def buffers_ok_def by (metis append_Nil2)
qed

lemma buffer_frame_trans: "buffer_frame s t \<Longrightarrow> buffer_frame t u \<Longrightarrow> buffer_frame s u"
  unfolding buffer_frame_def by (metis drop_drop append_assoc)

lemma buffer_frame_request:
  assumes "get_request_helper s = Inr (rq, t)"
  shows "buffer_frame s t"
proof -
  have "buffers_here t \<and> typed_responses t = typed_responses s \<and> requests (sm_smreqbuf t) = drop 1 (requests (sm_smreqbuf s))
      \<and> w_taken (sm_world t) = w_taken (sm_world s) \<and> w_issued (sm_world t) = w_issued (sm_world s)"
    if "buffers_here s"
  proof -
    have g: "get_request s = (rq, t)" using that assms by (simp add: get_request_helper_def buffers_here_def)
    from that get_request_effect [OF _ g] show ?thesis by (simp add: buffers_here_def typed_responses_def history_def)
  qed
  then show ?thesis unfolding buffer_frame_def by (metis append_Nil2)
qed

lemma buffer_frame_response:
  assumes "put_response_helper fuel s rt tk pk = Inr (r, t)" and "response_form rt pk"
  shows "buffer_frame s t"
  unfolding buffer_frame_def
proof
  assume "buffers_here s"
  then have b: "buffers_ok s" "sm_adqueue s = ADNull" by (simp_all add: buffers_here_def)
  note he = helper_effect [OF b assms(1)] and hh = helper_history [OF b assms(1)]
  have "typed_responses t" if "typed_responses s"
    using that assms(2) conjunct1 [OF hh] unfolding typed_responses_def by auto
  with he hh show "buffers_here t \<and> (typed_responses s \<longrightarrow> typed_responses t)
      \<and> (\<exists>j. requests (sm_smreqbuf t) = drop j (requests (sm_smreqbuf s)))
      \<and> (\<exists>ts. w_taken (sm_world t) = w_taken (sm_world s) @ ts) \<and> w_issued (sm_world t) = w_issued (sm_world s)"
    unfolding buffers_here_def by blast
qed

interpretation buffers: thread_frame buffer_frame
proof unfold_locales
  show "buffer_frame s u" if "buffer_frame s t" "buffer_frame t u" for s t u
    using that by (rule buffer_frame_trans)
  show "buffer_frame s t" if "get_request_helper s = Inr (rq, t)" for s rq t
    using that by (rule buffer_frame_request)
  show "buffer_frame s t" if "put_response_helper fuel s rt tk pk = Inr (r, t)" "response_form rt pk" for fuel s rt tk pk r t
    using that by (rule buffer_frame_response)
qed (rule buffer_frame_same; simp add: world_ok_def utlists_ok_def fetch_carrier_def Let_def split_def)+

section \<open>The carrier threads' flags and the caches\<close>

text \<open>
  The flag of a carrier thread only goes from 0 to 1, and only for the two event based sensors; a valid cache holds
  an event of its sensor.
\<close>

definition flag_frame :: "sm_state \<Rightarrow> sm_state \<Rightarrow> bool" where
  "flag_frame s t \<longleftrightarrow> length (sm_sensors t) = length (sm_sensors s)
     \<and> (\<forall>i < length (sm_sensors s). sn_carrier_thread_started (sm_sensors t ! i) = sn_carrier_thread_started (sm_sensors s ! i)
          \<or> sn_carrier_thread_started (sm_sensors s ! i) = 0 \<and> sn_carrier_thread_started (sm_sensors t ! i) = 1
            \<and> (int i = ASENSOR_TYPE_PROXIMITY \<or> int i = ZESENSE_SENSOR_TYPE_ORIENTATION))"

definition cache_ok :: "nat \<Rightarrow> sensor \<Rightarrow> bool" where
  "cache_ok i sn \<longleftrightarrow> (sn_cache_valid sn = 1 \<longrightarrow> ev_type (sn_event_cache sn) = int i)"

definition cache_frame :: "sm_state \<Rightarrow> sm_state \<Rightarrow> bool" where
  "cache_frame s t \<longleftrightarrow> length (sm_sensors t) = length (sm_sensors s)
     \<and> ((\<forall>i < length (sm_sensors s). cache_ok i (sm_sensors s ! i)) \<longrightarrow> (\<forall>i < length (sm_sensors s). cache_ok i (sm_sensors t ! i)))"

lemma sensors_of_upd:
  assumes "j < length (sm_sensors s)"
  shows "sm_sensors (upd_sensor i f s) ! j = (if j = nat i then f (sm_sensors s ! j) else sm_sensors s ! j)"
  using assms by (cases "j = nat i") (simp_all add: upd_sensor_def sensor_at_def)

lemma get_request_helper_sensors:
  "get_request_helper s = Inr (rq, t) \<Longrightarrow> sm_sensors t = sm_sensors s"
  by (auto simp: get_request_helper_def get_request_def split_def Let_def split: ad_pointer.splits list.splits)

lemma put_response_sensors: "sm_sensors (snd (put_response s rt tk pk)) = sm_sensors s"
  by (simp add: put_response_def split_def Let_def)

lemma deadlock_loop_sensors:
  "deadlock_loop n ad rt tk pk r s = Inr (q, ad', t) \<Longrightarrow> sm_sensors t = sm_sensors s"
proof (induction n arbitrary: ad r s)
  case (Suc n)
  then show ?case using put_response_sensors
    by (fastforce simp: Let_def split_def bindR_Inr_iff get_request_def split: if_splits)
qed (simp split: if_splits)

lemma put_response_helper_sensors:
  "put_response_helper fuel s rt tk pk = Inr (r, t) \<Longrightarrow> sm_sensors t = sm_sensors s"
  using put_response_sensors [of s rt tk pk]
  by (auto simp: put_response_helper_def split_def Let_def bindR_Inr_iff split: if_splits dest!: deadlock_loop_sensors)

lemma flag_frame_same: "sm_sensors t = sm_sensors s \<Longrightarrow> flag_frame s t"
  by (simp add: flag_frame_def)

lemma cache_frame_same: "sm_sensors t = sm_sensors s \<Longrightarrow> cache_frame s t"
  by (simp add: cache_frame_def)

interpretation flags: thread_frame flag_frame
proof unfold_locales
  show "flag_frame s u" if "flag_frame s t" "flag_frame t u" for s t u
    using that unfolding flag_frame_def by (metis zero_neq_one)
  show "flag_frame s (upd_sensor i f s)" if "keeps_carrier f" for f s i
    using that by (simp add: flag_frame_def sensors_of_upd keeps_carrier_def)
  show "flag_frame s (upd_sensor i (\<lambda>sn. sn\<lparr>sn_carrier_thread_started := 1\<rparr>) s)"
    if "i = ASENSOR_TYPE_PROXIMITY \<or> i = ZESENSE_SENSOR_TYPE_ORIENTATION" "sn_carrier_thread_started (sensor_at s i) = 0"
    for s i
    using that by (auto simp: flag_frame_def sensors_of_upd sensor_at_def sensor_codes)
qed (simp_all add: flag_frame_same fetch_carrier_def Let_def split_def get_request_helper_sensors put_response_helper_sensors flag_frame_def sensors_of_upd)

lemma keeps_carrier_cache: "keeps_carrier f \<Longrightarrow> cache_ok j sn \<Longrightarrow> cache_ok j (f sn)"
  unfolding keeps_carrier_def cache_ok_def by (metis zero_neq_one)

interpretation caches: thread_frame cache_frame
proof unfold_locales
  show "cache_frame s u" if "cache_frame s t" "cache_frame t u" for s t u
    using that unfolding cache_frame_def by metis
  show "cache_frame s (upd_sensor i f s)" if "keeps_carrier f" for f s i
    using keeps_carrier_cache [OF that] by (simp add: cache_frame_def sensors_of_upd)
qed (auto simp: cache_frame_same fetch_carrier_def Let_def split_def get_request_helper_sensors put_response_helper_sensors cache_frame_def sensors_of_upd
    cache_ok_def sensor_ix_def)

text \<open>The thread only takes events out of the carriers queue, in order.\<close>

definition carrq_frame :: "sm_state \<Rightarrow> sm_state \<Rightarrow> bool" where
  "carrq_frame s t \<longleftrightarrow> (\<exists>n. cq_head (sm_carrq t) = drop n (cq_head (sm_carrq s)))"

lemma carrq_frame_same: "sm_carrq t = sm_carrq s \<Longrightarrow> carrq_frame s t"
  unfolding carrq_frame_def by (intro exI [of _ 0]) simp

lemma get_request_helper_carrq:
  "get_request_helper s = Inr (rq, t) \<Longrightarrow> sm_carrq t = sm_carrq s"
  using get_request_keeps [of s]
  by (auto simp: get_request_helper_def split: ad_pointer.splits list.splits dest!: arg_cong [where f = snd])

interpretation carrqs: thread_frame carrq_frame
proof unfold_locales
  show "carrq_frame s u" if "carrq_frame s t" "carrq_frame t u" for s t u
    using that unfolding carrq_frame_def by auto
  show "carrq_frame s (snd (fetch_carrier s))" for s
    by (cases "cq_head (sm_carrq s)")
      (auto simp: carrq_frame_def fetch_carrier_def get_carrier_event_def intro: exI [of _ "1::nat"])
  show "carrq_frame s t" if "put_response_helper fuel s rt tk pk = Inr (r, t)" "response_form rt pk" for fuel s rt tk pk r t
    using helper_keeps [OF that(1)] by (simp add: carrq_frame_same)
qed (simp_all add: carrq_frame_same get_request_helper_carrq)

text \<open>The answers of the world stay the same; only the next question and the record of calls move on.\<close>

definition world_frame :: "sm_state \<Rightarrow> sm_state \<Rightarrow> bool" where
  "world_frame s t \<longleftrightarrow> (sm_world t)\<lparr>w_tick := 0, w_calls := [], w_issued := [], w_taken := []\<rparr>
    = (sm_world s)\<lparr>w_tick := 0, w_calls := [], w_issued := [], w_taken := []\<rparr>"

lemma world_frame_same: "sm_world t = sm_world s \<Longrightarrow> world_frame s t"
  by (simp add: world_frame_def)

lemma world_frame_ask: "world_frame s (snd (ask f t)) = world_frame s t"
  by (simp add: world_frame_def ask_def)

lemma world_frame_put: "world_frame s (snd (put_response t rt tk pk)) = world_frame s t"
  by (simp add: put_response_def split_def Let_def world_frame_def ask_def note_taken_def)

lemma deadlock_loop_world:
  "deadlock_loop n ad rt tk pk r s = Inr (q, ad', t) \<Longrightarrow> world_frame u s \<Longrightarrow> world_frame u t"
proof (induction n arbitrary: ad r s)
  case (Suc n)
  have w: "world_frame u (snd (ask w_malloc s))" by (simp add: world_frame_ask Suc.prems(2))
  then have "world_frame u (snd (get_request (snd (ask w_malloc s))))"
    by (simp add: world_frame_def get_request_def split_def Let_def)
  then have g: "world_frame u (snd (put_response (snd (get_request (snd (ask w_malloc s)))) rt tk pk))"
    by (simp add: world_frame_put)
  from Suc.prems(1) show ?case
    using g w Suc.prems(2) by (auto simp: Let_def split_def bindR_Inr_iff split: if_splits intro: Suc.IH)
qed (simp split: if_splits)

lemma put_response_helper_world:
  assumes "put_response_helper fuel s rt tk pk = Inr (r, t)"
  shows "world_frame s t"
proof -
  let ?s1 = "snd (put_response s rt tk pk)"
  have "world_frame s ?s1" by (simp add: world_frame_put) (simp add: world_frame_def)
  with assms show ?thesis
    by (auto simp: put_response_helper_def split_def Let_def bindR_Inr_iff world_frame_def [of _ "_\<lparr>sm_adqueue := _\<rparr>"]
        dest!: deadlock_loop_world [where u = s] split: if_splits) (simp add: world_frame_def)
qed

interpretation worlds: thread_frame world_frame
proof unfold_locales
  show "world_frame s t" if "get_request_helper s = Inr (rq, t)" for s rq t
    using that by (auto simp: get_request_helper_def get_request_def split_def Let_def world_frame_same
        split: ad_pointer.splits list.splits)
  show "world_frame s t" if "put_response_helper fuel s rt tk pk = Inr (r, t)" "response_form rt pk" for fuel s rt tk pk r t
    using that(1) by (rule put_response_helper_world)
qed (simp_all add: world_frame_def fetch_carrier_def Let_def split_def)

text \<open>The operations on streams leave the oneshots alone.\<close>

lemma upd_sensor_oneshots:
  assumes "\<And>sn. sn_oneshots (f sn) = sn_oneshots sn"
  shows "map sn_oneshots (sm_sensors (upd_sensor i f s)) = map sn_oneshots (sm_sensors s)"
  by (cases "nat i < length (sm_sensors s)")
    (simp_all add: upd_sensor_def sensor_at_def map_update list_update_same_conv assms not_less list_update_beyond)

interpretation pendings: stream_frame "\<lambda>s t. map sn_oneshots (sm_sensors t) = map sn_oneshots (sm_sensors s)"
  by unfold_locales (simp_all add: upd_sensor_oneshots keeps_carrier_def)

section \<open>In every reachable state\<close>

definition caches_ok :: "sm_state \<Rightarrow> bool" where
  "caches_ok s \<longleftrightarrow> (\<forall>i < ZE_NUMSENSORS. cache_ok i (sm_sensors s ! i))"

lemma get_response_history:
  assumes "resbuf_wf (sm_notbuf s)"
  shows "history (note_taken (take 1 (responses (sm_notbuf s)))
    (s\<lparr>sm_notbuf := snd (get_response_buf_item zero_response (sm_notbuf s))\<rparr>)) = history s"
proof -
  have "responses (snd (get_response_buf_item zero_response (sm_notbuf s))) = drop 1 (responses (sm_notbuf s))"
    using take_responses_list [OF assms, of 1] by simp
  then show ?thesis by (simp add: history_def)
qed

lemma sm_step_frames:
  assumes "sm_inv s" and "typed_responses s" and "caches_ok s" and "sm_step fuel s t"
  shows "typed_responses t \<and> caches_ok t"
proof -
  have l: "length (sm_sensors s) = ZE_NUMSENSORS" using sm_inv_sensors [OF assms(1)] by (rule sensors_ok_length)
  from assms(4) show ?thesis
  proof cases
    case iterate
    have "buffers_here s" using sm_inv_buffers [OF assms(1)] by (simp add: buffers_here_def)
    then show ?thesis
      using buffers.thread_iteration_R [OF iterate] caches.thread_iteration_R [OF iterate] assms(2,3) l
      by (simp add: buffer_frame_def cache_frame_def caches_ok_def)
  next
    case serve
    with assms get_response_history [of s] sm_inv_buffers [OF assms(1)] show ?thesis
      by (simp add: buffers_ok_def caches_ok_def typed_responses_def)
  next
    case (carrier_end i)
    with assms(2,3) l show ?thesis
      by (simp add: typed_responses_def history_def caches_ok_def sensors_of_upd cache_ok_def)
  qed (use assms(2,3) in \<open>simp_all add: typed_responses_def history_def caches_ok_def\<close>)
qed

lemma sm_reachable_frames: "sm_reachable fuel s \<Longrightarrow> typed_responses s \<and> caches_ok s"
proof (induction rule: sm_reachable.induct)
  case (start s)
  then obtain w where "s = quiet_state\<lparr>sm_world := w\<rparr>" "w_taken w = []" by (auto simp: sm_initial_def)
  moreover have "responses (the (init_coap_buf True)) = []"
    using init_coap_buf_wf [of True] by (simp add: init_coap_buf_def)
  moreover have "cache_ok i (map blank_sensor [0..14] ! i)" if "i < ZE_NUMSENSORS" for i
    using that by (simp add: cache_ok_def blank_sensor_def ZE_NUMSENSORS_def)
  ultimately show ?case by (simp add: typed_responses_def history_def caches_ok_def quiet_state_def del: ring_list_empty_iff)
next
  case (step s t)
  then show ?case using sm_step_frames [OF sm_reachable_inv [OF step.hyps(1)]] by blast
qed

section \<open>Properties\<close>

text \<open>
  C27. The responses are well typed: in every state the system can reach, a response waiting for the CoAP server is a
  STREAM_STOPPED without a packet, or a STREAM_UPDATE or ONESHOT with a packet whose length is the number of bytes of
  its data, or 0 without data. These are what the server casts and reads without looking.
\<close>

theorem responses_well_typed:
  assumes "sm_reachable fuel s" and "r \<in> set (responses (sm_notbuf s))"
  shows "rs_rtype r = STREAM_STOPPED \<and> rs_pk r = None
    \<or> rs_rtype r \<in> {STREAM_UPDATE, ONESHOT}
      \<and> (\<exists>c. rs_pk r = Some c \<and> pk_length c = (case pk_data c of None \<Rightarrow> 0 | Some bs \<Rightarrow> int (length bs)))"
  using sm_reachable_frames [OF assms(1)] assms(2)
  by (auto simp: typed_responses_def history_def response_form_def packet_ok_def)

text \<open>A START request is served without memory.\<close>

definition refused_state :: sm_state where
  "refused_state = note_issued start_request
     (quiet_state\<lparr>sm_world := quiet_world\<lparr>w_malloc := (\<lambda>_. False)\<rparr>,
       sm_smreqbuf := snd (put_request_buf_item id (sm_smreqbuf quiet_state) SM_REQ_START 1 7 10)\<rparr>)"

lemma empty_rounds:
  "sm_events s = [] \<Longrightarrow> cq_head (sm_carrq s) = [] \<Longrightarrow> sample_rounds fuel n q s = Inr s"
proof (induction n arbitrary: q s)
  case (Suc n)
  have "fetch_event q s = (None, s)"
    using Suc.prems by (cases q; cases s) (simp_all add: fetch_event_def fetch_carrier_def get_carrier_event_def)
  with Suc show ?case by (simp add: sample_round_def)
qed simp

lemma refused_reachable: "sm_reachable fuel refused_state"
proof -
  let ?w = "quiet_world\<lparr>w_malloc := (\<lambda>_. False)\<rparr>"
  have "sm_step fuel (quiet_state\<lparr>sm_world := ?w\<rparr>) refused_state"
    using sm_step.request [of "quiet_state\<lparr>sm_world := ?w\<rparr>" start_request fuel]
    by (simp add: refused_state_def start_request_def request_ok_def quiet_state_def init_sm_buf_def sm_req_codes)
  with quiet_nomem_reachable show ?thesis by (rule sm_reachable.step)
qed

lemma refused_served:
  obtains t where "thread_iteration 0 refused_state = Inr t" "responses (sm_notbuf t) = [response STREAM_STOPPED 7 None]"
proof -
  obtain q s1 where g: "get_request refused_state = (q, s1)" by force
  define s2 where "s2 = snd (ask w_malloc s1)"
  have ok: "buffers_ok refused_state" "sm_adqueue refused_state = ADNull"
    using sm_inv_buffers [OF sm_reachable_inv [OF refused_reachable [of 0]]] by simp_all
  have "requests (sm_smreqbuf refused_state) = [start_request]"
    using put_request_room_list [of "sm_smreqbuf quiet_state" id SM_REQ_START 1 7 10] quiet_buffers(2)
      init_sm_buf_wf [of True]
    by (simp add: refused_state_def start_request_def quiet_state_def init_sm_buf_def)
  then have q: "q = start_request" "sm_notbuf s1 = sm_notbuf quiet_state" "sm_world s1 = sm_world refused_state"
    using get_request_effect [OF ok(1) g] by (simp_all add: refused_state_def)
  have keeps: "sm_events s1 = []" "cq_head (sm_carrq s1) = []"
    using get_request_keeps [of refused_state] g quiet_buffers by (simp_all add: refused_state_def)
  have m: "\<not> fst (ask w_malloc s1)" using q(3) by (simp add: ask_def refused_state_def)
  have s2: "sm_notbuf s2 = the (init_coap_buf True)" "sm_events s2 = []" "cq_head (sm_carrq s2) = []"
    using q(2) keeps by (simp_all add: s2_def quiet_state_def)
  have w: "resbuf_wf (sm_notbuf s2)" "counter (sm_notbuf s2) < COAP_RBUF_SIZE" "responses (sm_notbuf s2) = []"
    unfolding s2 using init_coap_buf_wf [of True] COAP_RBUF_SIZE_pos by (simp_all add: init_coap_buf_def)
  let ?t = "s2\<lparr>sm_notbuf := ring_insert COAP_RBUF_SIZE (response STREAM_STOPPED 7 None) (sm_notbuf s2)\<rparr>"
  have "serve_request 0 refused_state = Inr ?t"
    unfolding serve_request_def get_request_helper_def ok(2) ad_pointer.case g q(1) bindR.simps prod.case
      serve_start_def start_stream_nomem [OF m] s2_def [symmetric]
    by (simp add: start_request_def helper_room [OF w(2)])
  then have "thread_iteration 0 refused_state = Inr ?t"
    using empty_rounds [of ?t] s2 by (simp add: thread_iteration_def)
  moreover have "responses (sm_notbuf ?t) = [response STREAM_STOPPED 7 None]"
    using w ring_insert_list [of COAP_RBUF_SIZE "sm_notbuf s2"] by simp
  ultimately show ?thesis using that by blast
qed

theorem responses_well_typed_witness:
  "\<exists>t. sm_reachable 0 t \<and> responses (sm_notbuf t) = [response STREAM_STOPPED 7 None]
     \<and> response_form (rs_rtype (response STREAM_STOPPED 7 None)) (rs_pk (response STREAM_STOPPED 7 None))"
proof -
  obtain t where t: "thread_iteration 0 refused_state = Inr t" "responses (sm_notbuf t) = [response STREAM_STOPPED 7 None]"
    using refused_served .
  then have "sm_reachable 0 t" using refused_reachable by (blast intro: sm_reachable.step sm_step.iterate)
  with responses_well_typed [of 0 t "response STREAM_STOPPED 7 None"] t show ?thesis
    by (auto simp: response_form_def)
qed

end
