(* ===== verification/IdleSensors.thy ===== *)
theory IdleSensors
  imports ThreadFrame
begin

text \<open>
  In every reachable state a sensor without streams has frequency 0: only starting a stream sets it, and stopping the last one clears it. The
  rounds of samples keep this by the contract \<open>round_frame\<close>; starting and stopping a stream are looked at one by one.
\<close>

section \<open>The rounds of samples\<close>

definition idle_ok :: "sensor \<Rightarrow> bool" where
  "idle_ok sn \<longleftrightarrow> (sn_streams sn = [] \<longrightarrow> sn_freq sn = 0)"

definition idle_frame :: "sm_state \<Rightarrow> sm_state \<Rightarrow> bool" where
  "idle_frame s t \<longleftrightarrow> length (sm_sensors t) = length (sm_sensors s)
     \<and> (\<forall>j < length (sm_sensors s). idle_ok (sm_sensors s ! j) \<longrightarrow> idle_ok (sm_sensors t ! j))"

lemma idle_frame_same: "sm_sensors t = sm_sensors s \<Longrightarrow> idle_frame s t"
  by (simp add: idle_frame_def)

interpretation idles: round_frame idle_frame
proof unfold_locales
  show "idle_frame s (upd_sensor i f s)" if "keeps_carrier f" "keeps_idle f" for f s i
    using that(2) by (simp add: idle_frame_def sensors_of_upd keeps_idle_def idle_ok_def)
qed (simp_all add: idle_frame_same fetch_carrier_def Let_def split_def put_response_helper_sensors idle_frame_def sensors_of_upd
    idle_ok_def)

section \<open>Starting and stopping a stream\<close>

text \<open>They touch no other sensor's frequency or streams.\<close>

definition idle_elsewhere :: "int \<Rightarrow> sm_state \<Rightarrow> sm_state \<Rightarrow> bool" where
  "idle_elsewhere i s t \<longleftrightarrow> length (sm_sensors t) = length (sm_sensors s)
     \<and> (\<forall>j < length (sm_sensors s). j \<noteq> nat i \<longrightarrow> idle_ok (sm_sensors s ! j) \<longrightarrow> idle_ok (sm_sensors t ! j))"

lemma idle_elsewhere_trans: "idle_elsewhere i s t \<Longrightarrow> idle_elsewhere i t u \<Longrightarrow> idle_elsewhere i s u"
  by (simp add: idle_elsewhere_def)

lemma idle_elsewhere_frame: "idle_frame s t \<Longrightarrow> idle_elsewhere i s t"
  by (simp add: idle_elsewhere_def idle_frame_def)

lemma idle_elsewhere_upd: "idle_elsewhere i s t \<Longrightarrow> idle_elsewhere i s (upd_sensor i f t)"
  by (simp add: idle_elsewhere_def sensors_of_upd)

lemma start_stream_elsewhere:
  assumes "sm_start_stream s i reg freq = Inr (b, t)"
  shows "idle_elsewhere i s t"
proof (cases "fst (ask w_malloc s)")
  case False
  with assms have "t = snd (ask w_malloc s)" by (simp add: start_stream_nomem)
  then show ?thesis by (simp add: idle_elsewhere_def)
next
  case True
  let ?s2 = "snd (ask w_rand (snd (ask w_malloc s)))" and ?f = "\<lambda>sn. sn\<lparr>sn_freq := freq\<rparr>"
  have s2: "idle_elsewhere i s ?s2" by (simp add: idle_elsewhere_def)
  from True assms obtain r s3 sts where r: "(r, s3) = (0, ?s2)
      \<or> android_sensor_activate (upd_sensor i ?f ?s2) i freq = Inr (r, s3)
      \<or> android_sensor_changef (upd_sensor i ?f ?s2) i freq = Inr (r, s3)"
    and t: "t = upd_sensor i (\<lambda>sn. sn\<lparr>sn_streams := sts\<rparr>) s3"
    by (auto simp: sm_start_stream_def sm_new_stream_def Let_def split_def bindR_Inr_iff split: if_splits)
  have "idle_elsewhere i s s3"
    using r s2 idle_elsewhere_trans [OF idle_elsewhere_upd [OF s2, of ?f] idle_elsewhere_frame]
      idles.activate_R idles.changef_R by blast
  then show ?thesis unfolding t by (rule idle_elsewhere_upd)
qed

lemma stop_stream_elsewhere:
  assumes ok: "sensors_ok s" and ix: "sensor_ix i" and st: "sm_stop_stream s i reg = Inr (r, t)"
  shows "idle_elsewhere i s t"
proof (cases "reg \<in> set (regs (sn_streams (sensor_at s i)))")
  case False
  with stop_stream_unknown [OF ix] st show ?thesis by (simp add: idle_elsewhere_def)
next
  case True
  let ?rest = "stream_without reg (sn_streams (sensor_at s i))"
  let ?s1 = "upd_sensor i (\<lambda>sn. sn\<lparr>sn_streams := ?rest\<rparr>) s"
  have s1: "idle_elsewhere i s (upd_sensor i f ?s1)" "idle_elsewhere i s ?s1" for f
    by (intro idle_elsewhere_upd idle_elsewhere_frame idles.same)+
  from st show ?thesis
    unfolding stop_stream_known [OF ok ix True]
    using idle_elsewhere_trans [OF s1(1) idle_elsewhere_frame] idle_elsewhere_trans [OF s1(2) idle_elsewhere_frame]
      idles.changef_R idles.turnoff_R
    by (fastforce simp: bindR_Inr_iff split: if_splits intro: idle_elsewhere_upd)
qed

lemma idle_frame_at:
  assumes "idle_elsewhere i s t" and "idle_ok (sensor_at t i)"
  shows "idle_frame s t"
  using assms unfolding idle_elsewhere_def idle_frame_def sensor_at_def by metis

lemma start_stream_idle:
  assumes ok: "sensors_ok s" and ix: "sensor_ix i" and f: "0 < freq" and st: "sm_start_stream s i reg freq = Inr (b, t)"
  shows "idle_frame s t"
proof (cases "fst (ask w_malloc s)")
  case False
  with st have "t = snd (ask w_malloc s)" by (simp add: start_stream_nomem)
  then show ?thesis by (simp add: idle_frame_same)
next
  case True
  obtain r where t: "sensors_ok t"
    "all_streams t = (all_streams s)[nat i := stream_without reg (sn_streams (sensor_at s i)) @ [started_stream r reg freq]]"
    using start_stream_effect [OF ok ix f True, of reg] st by auto
  have "nat i < length (all_streams s)"
    using ix sensors_ok_length [OF ok] by (simp add: all_streams_def sensor_ix_def nat_less_iff)
  then have "sn_streams (sensor_at t i) = stream_without reg (sn_streams (sensor_at s i)) @ [started_stream r reg freq]"
    using all_streams_nth [OF sensors_ok_length [OF t(1)] ix] t(2) by simp
  then have "idle_ok (sensor_at t i)" unfolding idle_ok_def by (metis snoc_eq_iff_butlast)
  with start_stream_elsewhere [OF st] show ?thesis by (rule idle_frame_at)
qed

lemma stop_stream_idle:
  assumes ok: "sensors_ok s" and ix: "sensor_ix i" and st: "sm_stop_stream s i reg = Inr (r, t)"
  shows "idle_frame s t"
proof (cases "reg \<in> set (regs (sn_streams (sensor_at s i)))")
  case False
  with stop_stream_unknown [OF ix] st show ?thesis by (simp add: idle_frame_same)
next
  case True
  let ?rest = "stream_without reg (sn_streams (sensor_at s i))"
  have no: "?rest \<noteq> [] \<or> sn_oneshots (sensor_at s i) = []"
    using stop_stream_known [OF ok ix True] st by (auto split: if_splits)
  have t: "sensors_ok t" "all_streams t = (all_streams s)[nat i := ?rest]"
    "sn_freq (sensor_at t i) = (if ?rest = [] then 0 else Max (st_freq ` set ?rest))"
    using stop_stream_effect [OF ok ix True no] st by auto
  have "nat i < length (all_streams s)"
    using ix sensors_ok_length [OF ok] by (simp add: all_streams_def sensor_ix_def nat_less_iff)
  then have "sn_streams (sensor_at t i) = ?rest"
    using all_streams_nth [OF sensors_ok_length [OF t(1)] ix] t(2) by simp
  with t(3) show ?thesis by (intro idle_frame_at [OF stop_stream_elsewhere [OF ok ix st]]) (simp add: idle_ok_def)
qed

section \<open>Reachable states\<close>

lemma serve_request_idle:
  assumes inv: "sm_inv s" and r: "serve_request fuel s = Inr t"
  shows "idle_frame s t"
proof -
  obtain q s1 where g: "get_request_helper s = Inr (q, s1)" "sm_inv s1" "rq_rtype q = SM_REQ_INVALID \<or> request_ok q"
    using get_request_helper_safe [OF inv] by blast
  note ok = sm_inv_sensors [OF g(2)]
  have put: "idle_frame s1 u" if "idle_frame s1 v" "put_response_helper fuel v STREAM_STOPPED tk None = Inr (x, u)" for v tk x u
    using idles.seq [OF that(1) idles.stopped_R [OF that(2)]] .
  have "idle_frame s1 t"
    if "rq_rtype q = SM_REQ_START" "serve_start fuel s1 q = Inr t"
  proof -
    have "sensor_ix (rq_sensor q)" "0 < rq_freq q" using g(3) that(1) by (auto simp: request_ok_def sm_req_codes)
    with that(2) put start_stream_idle [OF ok] show ?thesis
      by (auto simp: serve_start_def bindR_Inr_iff split: if_splits) blast
  qed
  moreover have "idle_frame s1 t"
    if "rq_rtype q = SM_REQ_STOP" "serve_stop fuel s1 q = Inr t"
  proof -
    have "sensor_ix (rq_sensor q)" using g(3) that(1) by (auto simp: request_ok_def sm_req_codes)
    with that(2) put stop_stream_idle [OF ok] show ?thesis
      by (auto simp: serve_stop_def bindR_Inr_iff split: if_splits) blast
  qed
  ultimately have "idle_frame s1 t"
    using r g(1) idles.serve_oneshot_R [of fuel s1 q t] idles.same [of s1]
    by (auto simp: serve_request_def split: if_splits)
  with idle_frame_same [OF get_request_helper_sensors [OF g(1)]] show ?thesis by (rule idles.seq)
qed

lemma reachable_idle:
  assumes "sm_reachable fuel s"
  shows "\<forall>sn\<in>set (sm_sensors s). idle_ok sn"
  using assms
proof (induction rule: sm_reachable.induct)
  case (start s)
  then show ?case by (auto simp: sm_initial_def quiet_state_def blank_sensor_def idle_ok_def)
next
  case (step s t)
  have f: "idle_frame s t"
    using step.hyps(2)
  proof cases
    case iterate
    then obtain u where "serve_request fuel s = Inr u" "sample_rounds fuel QUEUE_REQ_RATIO SAMPLES_QUEUE u = Inr t"
      by (auto simp: thread_iteration_def bindR_Inr_iff)
    then show ?thesis
      using serve_request_idle [OF sm_reachable_inv [OF step.hyps(1)]] idles.sample_rounds_R idles.seq by blast
  next
    case (carrier_end i)
    then show ?thesis by (simp add: idle_frame_def sensors_of_upd idle_ok_def)
  qed (simp_all add: idle_frame_same)
  with step.IH show ?case unfolding idle_frame_def by (metis in_set_conv_nth)
qed

end
