(* ===== verification/Carrier.thy ===== *)
theory Carrier
  imports Binary64 Streams
begin

text \<open>
  \<open>ze_carrier.c\<close>: the thread that repeats the last value of an event based sensor (proximity, orientation) at the
  frequency of the sensor, through the carriers queue. The statements of its loop that touch shared state are
  separate moves, since the Streaming Manager thread runs between them; the sleep itself is not in the state.
\<close>

section \<open>The period\<close>

text \<open>
  \<open>p = (double)1/fr\<close>, its integer part, and its decimal part times 10^9 cut to nanoseconds. With \<open>fr\<close> 0
  the quotient is the infinity, whose conversion to an \<open>int\<close> is undefined.
\<close>

definition carrier_period :: "int \<Rightarrow> (int \<times> int) outcome" where
  "carrier_period fr =
     (if fr = 0 then Inl BadConversion
      else
        let p = fp_round 53 1 (nat \<bar>fr\<bar>);
            sec = fp_trunc p;
            decpart = fp_fraction p;
            nsec = fp_trunc (fp_mul_int 53 decpart 1000000000)
        in Inr (sgn fr * int sec, sgn fr * int nsec))"

section \<open>The thread\<close>

text \<open>
  What is outside of the thread: the global exit flag, the answer of \<open>malloc\<close>, the clock, and the list macros
  (\<open>put_carrier_event\<close> uses them).
\<close>

record carrier_input =
  ci_globalexit :: bool
  ci_malloc :: bool
  ci_ntp :: int
  ci_list :: "sensor_event utlist"

text \<open>Where the thread is: at the test of the loop, before the repetition, before the period, or behind the loop.\<close>

datatype carrier_pc = AtTest | AtRepeat | AtPeriod | AtEnd

definition carrier_test :: "bool \<Rightarrow> sensor \<Rightarrow> carrier_pc" where
  "carrier_test globalexit sn = (if \<not> globalexit \<and> sn_is_active sn \<noteq> 0 then AtRepeat else AtEnd)"

definition carrier_repeat :: "carrier_input \<Rightarrow> sensor \<Rightarrow> carriers_queue \<Rightarrow> carriers_queue" where
  "carrier_repeat c sn carrq =
     (if sn_cache_valid sn = 1
      then let etp = (read_last_event_SYN sn)\<lparr>ev_timestamp := ci_ntp c\<rparr>
           in snd (put_carrier_event (ci_list c) (ci_malloc c) carrq etp)
      else carrq)"

text \<open>One move of the thread of sensor \<open>i\<close>; \<open>None\<close> when it has returned.\<close>

fun carrier_move :: "carrier_input \<Rightarrow> int \<Rightarrow> carrier_pc \<Rightarrow> sm_state \<Rightarrow> (carrier_pc option \<times> sm_state) outcome" where
  "carrier_move c i AtTest s = Inr (Some (carrier_test (ci_globalexit c) (sensor_at s i)), s)"
| "carrier_move c i AtRepeat s = Inr (Some AtPeriod, s\<lparr>sm_carrq := carrier_repeat c (sensor_at s i) (sm_carrq s)\<rparr>)"
| "carrier_move c i AtPeriod s = bindR (carrier_period (sn_freq (sensor_at s i))) (\<lambda>_. Inr (Some AtTest, s))"
| "carrier_move c i AtEnd s = Inr (None, upd_sensor i (\<lambda>sn. sn\<lparr>sn_carrier_thread_started := 0\<rparr>) s)"

text \<open>The moves of the thread when nothing else runs, for \<open>n\<close> moves.\<close>

fun carrier_run :: "carrier_input \<Rightarrow> int \<Rightarrow> nat \<Rightarrow> carrier_pc \<Rightarrow> sm_state \<Rightarrow> (carrier_pc option \<times> sm_state) outcome" where
  "carrier_run c i 0 pc s = Inr (Some pc, s)"
| "carrier_run c i (Suc n) pc s =
     bindR (carrier_move c i pc s) (\<lambda>(pc', s').
       case pc' of None \<Rightarrow> Inr (None, s') | Some p \<Rightarrow> carrier_run c i n p s')"

section \<open>The period is exact\<close>

lemma quotient_range:
  assumes "2 \<le> f" and "f < (2 :: nat) ^ 31"
  shows "1 < 2 ^ 53 * f" and "2 ^ (53 - 1) * f \<le> 1 * 2 ^ 1074"
proof -
  show "1 < 2 ^ 53 * f" using assms(1) mult_le_mono [of 1 "2 ^ 53" 2 f] by simp
  have "2 ^ 52 * f \<le> 2 ^ 52 * 2 ^ 31" using assms(2) by (intro mult_left_mono) simp_all
  also have "\<dots> = 2 ^ (52 + 31)" by (simp only: power_add)
  also have "\<dots> \<le> 2 ^ 1074" by (rule power_increasing) simp_all
  finally show "2 ^ (53 - 1) * f \<le> 1 * 2 ^ 1074" by simp
qed

lemma quotient_double:
  assumes "2 \<le> f" and "f < 2 ^ 31" and "fp_round 53 1 f = (m, k)"
  shows "\<bar>real m / 2 ^ k - 1 / real f\<bar> \<le> 1 / real f / 2 ^ 53" and "k < 84"
proof -
  have f: "(0 :: nat) < 53" "(0 :: nat) < 1" "0 < f" using assms(1) by simp_all
  show "\<bar>real m / 2 ^ k - 1 / real f\<bar> \<le> 1 / real f / 2 ^ 53"
    using fp_round_relative [OF f quotient_range [OF assms(1,2)]] unfolding assms(3) fp_val_def by simp
  have "2 ^ k < 2 ^ 53 * f"
    using fp_round_error(2) [OF f quotient_range [OF assms(1,2)] assms(3)] by simp
  also have "\<dots> < 2 ^ 53 * 2 ^ 31" using assms(2) by simp
  also have "\<dots> = 2 ^ 84" by (simp only: power_add [symmetric]) simp
  finally show "k < 84" using power_less_imp_less_exp [of "2 :: nat" k 84] by simp
qed

lemma period_eq:
  assumes "2 \<le> f" and p: "fp_round 53 1 f = (m, k)" and "m < 2 ^ k"
  shows "carrier_period (int f) = Inr (0, int (fp_trunc (fp_round 53 (m * 1000000000) (2 ^ k))))"
proof -
  have f: "nat \<bar>int f\<bar> = f" "sgn (int f) = 1" "int f \<noteq> 0" using assms(1) by (auto simp: sgn_if)
  have m: "m div 2 ^ k = 0" "m mod 2 ^ k = m" using assms(3) by simp_all
  show ?thesis unfolding carrier_period_def Let_def f p
    by (simp only: fp_trunc_def fp_fraction_def fp_mul_int_def prod.case m f if_False) simp
qed

text \<open>Where the frequency divides 10^9 the two roundings cancel: only the ten odd cases have to be computed.\<close>

lemma period_of_divisor:
  assumes "2 \<le> g * 2 ^ i" and "i \<le> 9"
    and "2 ^ 52 * g \<le> 2 ^ k" "2 ^ k < 2 ^ 53 * g" "k < 100" "round_half_even (2 ^ k) g = m" "m < 2 ^ k * 2 ^ i"
    and "2 ^ 52 * 2 ^ k \<le> m * 1000000000 * 2 ^ l" "m * 1000000000 * 2 ^ l < 2 ^ 53 * 2 ^ k" "l < 100"
    and "round_half_even (m * 1000000000 * 2 ^ l) (2 ^ k) = n * 2 ^ l"
  shows "carrier_period (int (g * 2 ^ i)) = Inr (0, int (n div 2 ^ i))"
proof -
  have p: "fp_round 53 1 (g * 2 ^ i) = (m, k + i)"
    using fp_round_shift [of 53 g 1 k i] assms by simp
  have q: "fp_round 53 (m * 1000000000) (2 ^ k * 2 ^ i) = (n * 2 ^ l, l + i)"
    using fp_round_shift [of 53 "2 ^ k" "m * 1000000000" l i] assms by simp
  have "n * 2 ^ l div (2 ^ l * 2 ^ i) = n div 2 ^ i" by (simp add: mult.commute)
  then show ?thesis
    using period_eq [OF assms(1) p] assms(7) by (simp only: power_add q fp_trunc_def prod.case)
qed

lemma period_of_divisors:
  fixes i :: nat
  shows
  "i \<le> 9 \<Longrightarrow> (2 :: nat) \<le> 1 * 2 ^ i \<Longrightarrow> carrier_period (int (1 * 2 ^ i)) = Inr (0, int (1000000000 div 2 ^ i))"
  "i \<le> 9 \<Longrightarrow> (2 :: nat) \<le> 5 * 2 ^ i \<Longrightarrow> carrier_period (int (5 * 2 ^ i)) = Inr (0, int (200000000 div 2 ^ i))"
  "i \<le> 9 \<Longrightarrow> (2 :: nat) \<le> 25 * 2 ^ i \<Longrightarrow> carrier_period (int (25 * 2 ^ i)) = Inr (0, int (40000000 div 2 ^ i))"
  "i \<le> 9 \<Longrightarrow> (2 :: nat) \<le> 125 * 2 ^ i \<Longrightarrow> carrier_period (int (125 * 2 ^ i)) = Inr (0, int (8000000 div 2 ^ i))"
  "i \<le> 9 \<Longrightarrow> (2 :: nat) \<le> 625 * 2 ^ i \<Longrightarrow> carrier_period (int (625 * 2 ^ i)) = Inr (0, int (1600000 div 2 ^ i))"
  "i \<le> 9 \<Longrightarrow> (2 :: nat) \<le> 3125 * 2 ^ i \<Longrightarrow> carrier_period (int (3125 * 2 ^ i)) = Inr (0, int (320000 div 2 ^ i))"
  "i \<le> 9 \<Longrightarrow> (2 :: nat) \<le> 15625 * 2 ^ i \<Longrightarrow> carrier_period (int (15625 * 2 ^ i)) = Inr (0, int (64000 div 2 ^ i))"
  "i \<le> 9 \<Longrightarrow> (2 :: nat) \<le> 78125 * 2 ^ i \<Longrightarrow> carrier_period (int (78125 * 2 ^ i)) = Inr (0, int (12800 div 2 ^ i))"
  "i \<le> 9 \<Longrightarrow> (2 :: nat) \<le> 390625 * 2 ^ i \<Longrightarrow> carrier_period (int (390625 * 2 ^ i)) = Inr (0, int (2560 div 2 ^ i))"
  "i \<le> 9 \<Longrightarrow> (2 :: nat) \<le> 1953125 * 2 ^ i \<Longrightarrow> carrier_period (int (1953125 * 2 ^ i)) = Inr (0, int (512 div 2 ^ i))"
  subgoal by (rule period_of_divisor [where k = 52 and m = 4503599627370496 and l = 23]) (simp_all add: round_half_even_def)
  subgoal by (rule period_of_divisor [where k = 55 and m = 7205759403792794 and l = 25]) (simp_all add: round_half_even_def)
  subgoal by (rule period_of_divisor [where k = 57 and m = 5764607523034235 and l = 27]) (simp_all add: round_half_even_def)
  subgoal by (rule period_of_divisor [where k = 59 and m = 4611686018427388 and l = 30]) (simp_all add: round_half_even_def)
  subgoal by (rule period_of_divisor [where k = 62 and m = 7378697629483821 and l = 32]) (simp_all add: round_half_even_def)
  subgoal by (rule period_of_divisor [where k = 64 and m = 5902958103587057 and l = 34]) (simp_all add: round_half_even_def)
  subgoal by (rule period_of_divisor [where k = 66 and m = 4722366482869645 and l = 37]) (simp_all add: round_half_even_def)
  subgoal by (rule period_of_divisor [where k = 69 and m = 7555786372591432 and l = 39]) (simp_all add: round_half_even_def)
  subgoal by (rule period_of_divisor [where k = 71 and m = 6044629098073146 and l = 41]) (simp_all add: round_half_even_def)
  subgoal by (rule period_of_divisor [where k = 73 and m = 4835703278458517 and l = 43]) (simp_all add: round_half_even_def)
  done

lemma dvd_prime_power:
  fixes p d :: nat
  assumes "\<And>b. b dvd p \<Longrightarrow> b = 1 \<or> b = p"
  shows "d dvd p ^ n \<Longrightarrow> \<exists>i\<le>n. d = p ^ i"
proof (induction n arbitrary: d)
  case (Suc n)
  then obtain b c where d: "d = b * c" "b dvd p" "c dvd p ^ n"
    using division_decomp [of d p "p ^ n"] by auto
  with Suc.IH obtain i where "i \<le> n" "c = p ^ i" by blast
  with d assms [of b] show ?case
    by (auto intro: exI [of _ i] exI [of _ "Suc i"])
qed simp

lemma two_five_prime: "b dvd (2 :: nat) \<Longrightarrow> b = 1 \<or> b = 2" "b dvd (5 :: nat) \<Longrightarrow> b = 1 \<or> b = 5"
proof -
  show "b = 1 \<or> b = 2" if d: "b dvd 2"
  proof -
    have "b \<le> 2" using d by (rule dvd_imp_le) simp
    then have "b \<in> {0, 1, 2}" by auto
    with d show ?thesis by auto
  qed
  assume d: "b dvd 5"
  then have "b \<le> 5" by (rule dvd_imp_le) simp
  then have "b \<in> {0, 1, 2, 3, 4, 5}" by auto
  with d show "b = 1 \<or> b = 5" by auto
qed

lemma divisor_of_billion:
  assumes "f dvd (1000000000 :: nat)"
  obtains i j where "i \<le> 9" "j \<le> 9" "f = 5 ^ j * 2 ^ i"
proof -
  have "f dvd 5 ^ 9 * 2 ^ 9" using assms by simp
  then obtain g h where "f = g * h" "g dvd 5 ^ 9" "h dvd 2 ^ 9" using division_decomp by blast
  with dvd_prime_power [OF two_five_prime(2)] dvd_prime_power [OF two_five_prime(1)] that show ?thesis by metis
qed

lemma period_dividing:
  assumes "f dvd 1000000000" and "2 \<le> f"
  shows "carrier_period (int f) = Inr (0, 1000000000 div int f)"
proof -
  obtain i j where f: "i \<le> 9" "j \<le> 9" "f = 5 ^ j * 2 ^ i" using divisor_of_billion [OF assms(1)] .
  have "j \<in> {0, 1, 2, 3, 4, 5, 6, 7, 8, 9}" using f(2) by auto
  then have "carrier_period (int (5 ^ j * 2 ^ i)) = Inr (0, int (1000000000 div 5 ^ j div 2 ^ i))"
    using f(1,3) assms(2) period_of_divisors [of i] by auto
  moreover have "int (1000000000 div 5 ^ j div 2 ^ i) = 1000000000 div int f"
    unfolding f(3) by (simp only: div_mult2_eq [symmetric] of_nat_div of_nat_numeral)
  ultimately show ?thesis by (simp only: f(3))
qed

text \<open>Otherwise the quotient is too far from an integer for the roundings to reach it.\<close>

lemma period_not_dividing:
  assumes "\<not> f dvd 1000000000" and "2 \<le> f" and "f < 2 ^ 31"
  shows "carrier_period (int f) = Inr (0, 1000000000 div int f)"
proof -
  obtain m k where p: "fp_round 53 1 f = (m, k)" by force
  let ?x = "real m / 2 ^ k" and ?c = "1000000000 div f" and ?e = "1 / 2 ^ 53 :: real"
  have x: "\<bar>?x - 1 / real f\<bar> \<le> 1 / real f * ?e"
    using quotient_double(1) [OF assms(2,3) p] by simp
  have f2: "1 / real f \<le> 1 / 2" "0 < 1 / real f" using assms(2) by (simp_all add: field_simps)
  have "1 / real f * ?e < 1 / real f" using assms(2) by (simp add: field_simps)
  with x f2 have x01: "0 < ?x" "?x < 1" by linarith+
  then have m: "0 < m" "m < 2 ^ k"
    by (simp_all add: field_simps zero_less_divide_iff)
  let ?y = "fp_val (fp_round 53 (m * 1000000000) (2 ^ k))"
  have y: "\<bar>?y - ?x * 1000000000\<bar> \<le> ?x * 1000000000 * ?e"
  proof -
    have "m * 1000000000 < 2 ^ k * 2 ^ 53" using m(2) by (intro mult_less_le_imp_less) simp_all
    moreover have "(2 :: nat) ^ (53 - 1) * 2 ^ k \<le> m * 1000000000 * 2 ^ 1074"
    proof -
      have "(2 :: nat) ^ (52 + k) \<le> 2 ^ 1074"
        using quotient_double(2) [OF assms(2,3) p] by (intro power_increasing) simp_all
      also have "\<dots> \<le> m * 1000000000 * 2 ^ 1074" using m(1) by simp
      finally have "2 ^ 52 * 2 ^ k \<le> m * 1000000000 * 2 ^ 1074" by (simp only: power_add)
      moreover have "53 - 1 = (52 :: nat)" by simp
      ultimately show ?thesis by (simp only:)
    qed
    ultimately show ?thesis
      using fp_round_relative [of 53 "m * 1000000000" "2 ^ k"] m(1) by (simp add: mult.commute)
  qed
  have r: "?c * f < 1000000000" "1000000000 < (?c + 1) * f"
  proof -
    have "1000000000 mod f \<noteq> 0" using assms(1) by (simp add: dvd_eq_mod_eq_0)
    then show "?c * f < 1000000000" 
      using div_mult_mod_eq [of 1000000000 f] by linarith
    show "1000000000 < (?c + 1) * f" using dividend_less_div_times [of f 1000000000] assms(2) by simp
  qed
  then have "?c * f + 1 \<le> 1000000000" "1000000001 \<le> (?c + 1) * f" by linarith+
  from this [THEN of_nat_le_iff [where 'a = real, THEN iffD2]]
  have rr: "real ?c \<le> 999999999 * (1 / real f)" "1000000001 * (1 / real f) \<le> real ?c + 1"
    using assms(2) by (simp_all add: field_simps)
  have "real ?c \<le> ?x * 1000000000" using rr(1) x f2 by simp
  then have "real (?c * 2 ^ k) \<le> real (m * 1000000000)" by (simp add: field_simps)
  then have "?c * 2 ^ k \<le> m * 1000000000" by (simp only: of_nat_le_iff)
  then have "real ?c \<le> ?y" by (intro fp_round_val_ge) simp_all
  moreover have "?y < real ?c + 1" using rr(2) x y f2 by simp
  ultimately have "fp_trunc (fp_round 53 (m * 1000000000) (2 ^ k)) = ?c" by (rule fp_trunc_eq)
  then show ?thesis using period_eq [OF assms(2) p m(2)] by (simp add: zdiv_int)
qed

section \<open>Properties\<close>

text \<open>
  C33. The sleep of a carrier thread is exact: for every positive frequency an \<open>int\<close> can hold, the
  double arithmetic gives the seconds and nanoseconds of the period, 10^9 divided by the frequency and cut to whole
  nanoseconds; the two roundings on the way never lose or add one, and the result is a valid \<open>timespec\<close>.
\<close>

theorem carrier_period_exact:
  assumes "0 < fr" and "fr < 2 ^ 31"
  shows "carrier_period fr = Inr (if fr = 1 then (1, 0) else (0, 1000000000 div fr))
    \<and> (fr \<noteq> 1 \<longrightarrow> 1000000000 div fr < 1000000000)"
proof (cases "fr = 1")
  case True
  have p: "fp_round 53 1 1 = (2 ^ 52, 52)"
    by (subst fp_round_eval [of _ _ _ 52]) (simp_all add: round_half_even_def)
  have "fp_trunc (fp_round 53 0 b) = 0" for b
    by (cases "fp_round 53 0 b") (simp add: fp_round_def fp_trunc_def round_half_even_def Let_def)
  moreover have "nat \<bar>1 :: int\<bar> = 1" by simp
  ultimately have "carrier_period 1 = Inr (1, 0)" unfolding carrier_period_def Let_def
    by (simp only: p) (simp add: fp_trunc_def fp_fraction_def fp_mul_int_def)
  with True show ?thesis by simp
next
  case False
  define f where "f = nat fr"
  then have f: "fr = int f" "2 \<le> f" "f < 2 ^ 31" using False assms by auto
  then have "carrier_period fr = Inr (0, 1000000000 div fr)"
    using period_dividing [of f] period_not_dividing [of f] by blast
  with False assms show ?thesis by (simp add: int_div_less_self)
qed

theorem carrier_period_exact_witness: "carrier_period 7 = Inr (0, 142857142)"
  using carrier_period_exact [of 7] by simp

text \<open>
  A carrier thread whose sensor has been turned off ends within four moves from wherever it is, and says so in the flag
  the Streaming Manager looks at, except when it is about to read a frequency of zero: then
  the conversion of the quotient is undefined.
\<close>

theorem carrier_ends:
  assumes "sn_is_active (sensor_at s i) = 0 \<or> ci_globalexit c" and "sensor_ix i"
    and "length (sm_sensors s) = ZE_NUMSENSORS"
  shows "(\<exists>t. carrier_run c i 4 pc s = Inr (None, t) \<and> sn_carrier_thread_started (sensor_at t i) = 0)
    \<longleftrightarrow> \<not> (sn_freq (sensor_at s i) = 0 \<and> (pc = AtRepeat \<or> pc = AtPeriod))"
proof -
  have p: "(\<exists>r. carrier_period f = Inr r) \<longleftrightarrow> f \<noteq> 0" for f
    by (simp add: carrier_period_def Let_def)
  have up: "sn_carrier_thread_started (sensor_at (upd_sensor i (\<lambda>sn. sn\<lparr>sn_carrier_thread_started := 0\<rparr>) u) i) = 0"
    if "sm_sensors u = sm_sensors s" for u
    using that assms(2,3) by (simp add: sensor_at_upd)
  have same: "sensor_at (s\<lparr>sm_carrq := q\<rparr>) i = sensor_at s i" for q by (simp add: sensor_at_def)
  show ?thesis
    using assms(1) p [of "sn_freq (sensor_at s i)"]
    by (cases pc; cases "carrier_period (sn_freq (sensor_at s i))")
      (auto simp: numeral_eq_Suc carrier_test_def up same)
qed

text \<open>The proximity sensor has been turned off while its stream still has a frequency.\<close>

theorem carrier_ends_witness:
  "\<exists>t. carrier_run \<lparr>ci_globalexit = False, ci_malloc = True, ci_ntp = 0, ci_list = plain_utlist\<rparr> 8 4 AtRepeat
     (upd_sensor 8 (\<lambda>sn. sn\<lparr>sn_freq := 10, sn_carrier_thread_started := 1\<rparr>) quiet_state) = Inr (None, t)"
proof -
  let ?s = "upd_sensor 8 (\<lambda>sn. sn\<lparr>sn_freq := 10, sn_carrier_thread_started := 1\<rparr>) quiet_state"
  have l: "length (sm_sensors quiet_state) = ZE_NUMSENSORS"
    using quiet_state_ok by (rule sensors_ok_length)
  have ix: "sensor_ix 8" by (simp add: sensor_ix_def ZE_NUMSENSORS_def)
  have q: "sensor_at quiet_state 8 = blank_sensor 8" by (simp add: quiet_state_def sensor_at_def upto.simps)
  have at: "sensor_at ?s 8 = (blank_sensor 8)\<lparr>sn_freq := 10, sn_carrier_thread_started := 1\<rparr>"
    using sensor_at_upd [OF l ix ix] q by simp
  show ?thesis
    using carrier_ends [of ?s 8 "\<lparr>ci_globalexit = False, ci_malloc = True, ci_ntp = 0, ci_list = plain_utlist\<rparr>" AtRepeat]
      at l ix by (auto simp: blank_sensor_def)
qed

end
