(* ===== verification/CarrierSystem.thy ===== *)
theory CarrierSystem
  imports IdleSensors Carrier
begin

text \<open>
  The Streaming Manager thread together with the carrier threads it starts: a step is an iteration of the one, a
  move of one of the others, or something from outside. The system refines the one of \<open>ThreadInvariant\<close>, where the carrier
  threads are any source of events. An iteration is one step here: \<open>is_active\<close> and \<open>carrier_thread_started\<close> have no mutex in the
  code, and what a carrier thread could see of them in the middle of an iteration is left out.
\<close>

section \<open>The system\<close>

text \<open>The state of the Streaming Manager, and the carrier threads with their sensor and where they are.\<close>

record system =
  sy_sm :: sm_state
  sy_carriers :: "(int \<times> carrier_pc) list"

text \<open>The carrier threads an iteration has started: \<open>start_carrier\<close> sets the flag, which was 0, only when the creation succeeded.\<close>

definition new_carriers :: "sm_state \<Rightarrow> sm_state \<Rightarrow> int list" where
  "new_carriers s t = filter (\<lambda>i. sn_carrier_thread_started (sensor_at s i) = 0
     \<and> sn_carrier_thread_started (sensor_at t i) \<noteq> 0) [0..int ZE_NUMSENSORS - 1]"

definition remove_nth :: "nat \<Rightarrow> 'a list \<Rightarrow> 'a list" where
  "remove_nth n xs = take n xs @ drop (Suc n) xs"

inductive sys_step :: "nat \<Rightarrow> system \<Rightarrow> system \<Rightarrow> bool" for fuel where
  manager: "thread_iteration fuel (sy_sm y) = Inr t \<Longrightarrow>
    sys_step fuel y \<lparr>sy_sm = t, sy_carriers = sy_carriers y @ map (\<lambda>i. (i, AtTest)) (new_carriers (sy_sm y) t)\<rparr>"
| request: "counter (sm_smreqbuf (sy_sm y)) < SM_RBUF_SIZE \<Longrightarrow> request_ok q \<Longrightarrow>
    sys_step fuel y (y\<lparr>sy_sm := note_issued q ((sy_sm y)\<lparr>sm_smreqbuf := snd (put_request_buf_item id (sm_smreqbuf (sy_sm y))
      (rq_rtype q) (rq_sensor q) (rq_ticket q) (rq_freq q))\<rparr>)\<rparr>)"
| serve: "sys_step fuel y (y\<lparr>sy_sm := note_taken (take 1 (responses (sm_notbuf (sy_sm y))))
    ((sy_sm y)\<lparr>sm_notbuf := snd (get_response_buf_item zero_response (sm_notbuf (sy_sm y)))\<rparr>)\<rparr>)"
| sample: "sensor_ix (ev_type ev) \<Longrightarrow>
    sys_step fuel y (y\<lparr>sy_sm := (sy_sm y)\<lparr>sm_events := sm_events (sy_sm y) @ [Some ev, None]\<rparr>\<rparr>)"
| carrier: "n < length (sy_carriers y) \<Longrightarrow> sy_carriers y ! n = (i, pc) \<Longrightarrow> utlist_ok (ci_list c) \<Longrightarrow>
    carrier_move c i pc (sy_sm y) = Inr (pc', t) \<Longrightarrow>
    sys_step fuel y \<lparr>sy_sm = t, sy_carriers = (case pc' of Some p \<Rightarrow> (sy_carriers y)[n := (i, p)]
      | None \<Rightarrow> remove_nth n (sy_carriers y))\<rparr>"

inductive_cases sys_stepE: "sys_step fuel y z"

inductive sys_reachable :: "nat \<Rightarrow> system \<Rightarrow> bool" for fuel where
  start: "sm_initial s \<Longrightarrow> sys_reachable fuel \<lparr>sy_sm = s, sy_carriers = []\<rparr>"
| step: "sys_reachable fuel y \<Longrightarrow> sys_step fuel y z \<Longrightarrow> sys_reachable fuel z"

section \<open>The invariant\<close>

abbreviation started :: "sm_state \<Rightarrow> int \<Rightarrow> int" where
  "started s i \<equiv> sn_carrier_thread_started (sensor_at s i)"

abbreviation carrier_sensors :: "system \<Rightarrow> int list" where
  "carrier_sensors y \<equiv> map fst (sy_carriers y)"

definition event_sensor :: "int \<Rightarrow> bool" where
  "event_sensor i \<longleftrightarrow> i = ASENSOR_TYPE_PROXIMITY \<or> i = ZESENSE_SENSOR_TYPE_ORIENTATION"

lemma event_sensor_ix: "event_sensor i \<Longrightarrow> sensor_ix i"
  by (auto simp: event_sensor_def sensor_ix_def sensor_codes ZE_NUMSENSORS_def)

text \<open>One thread per sensor whose flag is set, only for the event based sensors, and their events in the queue.\<close>

definition carriers_ok :: "sm_state \<Rightarrow> int list \<Rightarrow> bool" where
  "carriers_ok s is \<longleftrightarrow> length (sm_sensors s) = ZE_NUMSENSORS \<and> distinct is
     \<and> (\<forall>i. sensor_ix i \<longrightarrow> (i \<in> set is \<longleftrightarrow> started s i \<noteq> 0))
     \<and> (\<forall>i\<in>set is. event_sensor i)
     \<and> (\<forall>ev\<in>set (cq_head (sm_carrq s)). event_sensor (ev_type ev))"

lemma flag_frame_at:
  assumes "flag_frame s t" and "length (sm_sensors s) = ZE_NUMSENSORS" and "sensor_ix i"
  shows "started t i = started s i \<or> started s i = 0 \<and> started t i = 1 \<and> event_sensor i"
proof -
  have "nat i < length (sm_sensors s)" "int (nat i) = i" using assms(2,3) by (auto simp: sensor_ix_def nat_less_iff)
  with assms(1) show ?thesis unfolding flag_frame_def sensor_at_def event_sensor_def by metis
qed

lemma set_new_carriers:
  "set (new_carriers s t) = {i. sensor_ix i \<and> started s i = 0 \<and> started t i \<noteq> 0}"
  by (auto simp: new_carriers_def sensor_ix_def)

lemma carriers_ok_iteration:
  assumes "carriers_ok s is" and "thread_iteration fuel s = Inr t"
  shows "carriers_ok t (is @ new_carriers s t)"
proof -
  have l: "length (sm_sensors s) = ZE_NUMSENSORS" using assms(1) by (simp add: carriers_ok_def)
  have f: "flag_frame s t" using assms(2) by (rule flags.thread_iteration_R)
  note at = flag_frame_at [OF f l]
  obtain n where q: "cq_head (sm_carrq t) = drop n (cq_head (sm_carrq s))"
    using carrqs.thread_iteration_R [OF assms(2)] by (auto simp: carrq_frame_def)
  have n: "event_sensor i" "started s i = 0" if "i \<in> set (new_carriers s t)" for i
    using that at [of i] by (auto simp: set_new_carriers)
  have "started s i \<noteq> 0" if "i \<in> set is" for i
    using assms(1) that event_sensor_ix unfolding carriers_ok_def by blast
  with n(2) have "set is \<inter> set (new_carriers s t) = {}" by blast
  moreover have "distinct is" "distinct (new_carriers s t)"
    using assms(1) by (simp_all add: carriers_ok_def new_carriers_def)
  ultimately have "distinct (is @ new_carriers s t)" by simp
  moreover have "\<forall>i. sensor_ix i \<longrightarrow> (i \<in> set (is @ new_carriers s t) \<longleftrightarrow> started t i \<noteq> 0)"
  proof (intro allI impI)
    fix i assume i: "sensor_ix i"
    with assms(1) have "i \<in> set is \<longleftrightarrow> started s i \<noteq> 0" by (simp add: carriers_ok_def)
    with at [OF i] i show "i \<in> set (is @ new_carriers s t) \<longleftrightarrow> started t i \<noteq> 0" by (auto simp: set_new_carriers)
  qed
  moreover have "\<forall>i\<in>set (is @ new_carriers s t). event_sensor i" using assms(1) n(1) unfolding carriers_ok_def set_append by blast
  moreover have "\<forall>ev\<in>set (cq_head (sm_carrq t)). event_sensor (ev_type ev)"
    using assms(1) q set_drop_subset [of n "cq_head (sm_carrq s)"] unfolding carriers_ok_def by auto
  moreover have "length (sm_sensors t) = ZE_NUMSENSORS" using f l by (simp add: flag_frame_def)
  ultimately show ?thesis unfolding carriers_ok_def by (intro conjI)
qed

text \<open>What a move of a carrier thread does to the state of the Streaming Manager, as a step of its own system or none.\<close>

lemma carrier_move_cases:
  assumes "carrier_move c i pc s = Inr (pc', t)" and "utlist_ok (ci_list c)" and "caches_ok s" and "event_sensor i"
  shows "t = s \<and> pc' \<noteq> None
    \<or> (\<exists>ev ok. t = s\<lparr>sm_carrq := snd (put_carrier_event (ci_list c) ok (sm_carrq s) ev)\<rparr> \<and> ev_type ev = i \<and> pc' \<noteq> None)
    \<or> t = upd_sensor i (\<lambda>sn. sn\<lparr>sn_carrier_thread_started := 0\<rparr>) s \<and> pc' = None"
proof (cases pc)
  case AtRepeat
  have ix: "nat i < ZE_NUMSENSORS" "int (nat i) = i"
    using event_sensor_ix [OF assms(4)] by (auto simp: sensor_ix_def nat_less_iff)
  show ?thesis
  proof (cases "sn_cache_valid (sensor_at s i) = 1")
    case True
    then have "ev_type (sn_event_cache (sensor_at s i)) = i"
      using assms(3) ix by (auto simp: caches_ok_def cache_ok_def sensor_at_def)
    with True AtRepeat assms(1) show ?thesis
      by (auto simp: carrier_repeat_def read_last_event_SYN_def Let_def)
  next
    case False
    with AtRepeat assms(1) show ?thesis by (auto simp: carrier_repeat_def)
  qed
qed (use assms(1) in \<open>auto simp: bindR_Inr_iff\<close>)

lemma remove_nth_fst: "map fst (remove_nth n xs) = remove_nth n (map fst xs)"
  by (simp add: remove_nth_def take_map drop_map)

lemma remove_nth_split:
  assumes "n < length xs"
  obtains ys zs where "xs = ys @ xs ! n # zs" "remove_nth n xs = ys @ zs"
  using that [OF id_take_nth_drop [OF assms]] by (simp add: remove_nth_def)

lemma remove_nth_distinct:
  assumes "distinct xs" and "n < length xs"
  shows "distinct (remove_nth n xs)" and "set (remove_nth n xs) = set xs - {xs ! n}"
proof -
  obtain ys zs where x: "xs = ys @ xs ! n # zs" "remove_nth n xs = ys @ zs" using remove_nth_split [OF assms(2)] .
  then have d: "distinct (ys @ xs ! n # zs)" using assms(1) by simp
  from d show "distinct (remove_nth n xs)" by (simp add: x(2))
  have "set xs = insert (xs ! n) (set ys \<union> set zs)" by (subst x(1)) auto
  with d show "set (remove_nth n xs) = set xs - {xs ! n}" by (auto simp: x(2))
qed

lemma carriers_ok_move:
  assumes "carriers_ok s is" and "caches_ok s" and "n < length is" and "is ! n = i"
    and "utlist_ok (ci_list c)" and "carrier_move c i pc s = Inr (pc', t)"
  shows "carriers_ok t (if pc' = None then remove_nth n is else is) \<and> (t = s \<or> sm_step fuel s t)"
proof -
  have i: "event_sensor i" "sensor_ix i" and d: "distinct is" and l: "length (sm_sensors s) = ZE_NUMSENSORS"
    using assms(1,3,4) nth_mem [of n "is"] event_sensor_ix unfolding carriers_ok_def by auto
  from carrier_move_cases [OF assms(6,5,2) i(1)] show ?thesis
  proof (elim disjE exE conjE)
    assume "t = s" "pc' \<noteq> None"
    with assms(1) show ?thesis by auto
  next
    fix ev ok assume t: "t = s\<lparr>sm_carrq := snd (put_carrier_event (ci_list c) ok (sm_carrq s) ev)\<rparr>"
      and ev: "ev_type ev = i" "pc' \<noteq> None"
    have "set (cq_head (sm_carrq t)) \<subseteq> insert ev (set (cq_head (sm_carrq s)))"
      using t assms(5) by (auto simp: put_carrier_event_def utlist_append split: if_splits)
    moreover have "sm_sensors t = sm_sensors s" by (simp add: t)
    ultimately have "carriers_ok t is" using ev i assms(1) unfolding carriers_ok_def sensor_at_def by auto
    moreover have "sm_step fuel s t" unfolding t using ev(1) i(2) assms(5) by (intro sm_step.carrier) simp_all
    ultimately show ?thesis using ev(2) by auto
  next
    assume t: "t = upd_sensor i (\<lambda>sn. sn\<lparr>sn_carrier_thread_started := 0\<rparr>) s" and n: "pc' = None"
    have st: "started t j = (if i = j then 0 else started s j)" if "sensor_ix j" for j
      using sensor_at_upd [OF l i(2) that] by (simp add: t)
    have "carriers_ok t (remove_nth n is)"
      using assms(1) st remove_nth_distinct [OF d assms(3)] assms(4) unfolding carriers_ok_def by (auto simp: t)
    moreover have "sm_step fuel s t" unfolding t by (rule sm_step.carrier_end)
    ultimately show ?thesis using n by simp
  qed
qed

text \<open>The invariant, and the refinement: the states of the Streaming Manager are those of its own system.\<close>

lemma sys_reachable_ok:
  "sys_reachable fuel y \<Longrightarrow> carriers_ok (sy_sm y) (carrier_sensors y) \<and> sm_reachable fuel (sy_sm y)"
proof (induction rule: sys_reachable.induct)
  case (start s)
  then obtain w where s: "s = quiet_state\<lparr>sm_world := w\<rparr>" by (auto simp: sm_initial_def)
  have "started s i = 0" if "sensor_ix i" for i
    using that by (auto simp: s sensor_at_def quiet_state_def blank_sensor_def sensor_ix_def ZE_NUMSENSORS_def nat_less_iff)
  moreover have "length (sm_sensors s) = ZE_NUMSENSORS" "cq_head (sm_carrq s) = []"
    using sensors_ok_length [OF quiet_state_ok] quiet_buffers by (simp_all add: s)
  ultimately show ?case using sm_reachable.start [OF start] by (simp add: carriers_ok_def)
next
  case (step y z)
  then have ok: "carriers_ok (sy_sm y) (carrier_sensors y)" and r: "sm_reachable fuel (sy_sm y)" by simp_all
  have m: "map fst (map (\<lambda>i. (i, AtTest)) xs) = xs" for xs :: "int list" by (simp add: comp_def)
  from step.hyps(2) show ?case
  proof cases
    case (manager t)
    then show ?thesis
      using carriers_ok_iteration [OF ok manager(2)] sm_reachable.step [OF r sm_step.iterate [OF manager(2)]]
      by (simp only: manager(1) system.simps map_append m simp_thms)
  next
    case (request q)
    then show ?thesis using ok sm_reachable.step [OF r sm_step.request [OF request(2,3)]]
      by (simp add: carriers_ok_def sensor_at_def)
  next
    case serve
    then show ?thesis using ok sm_reachable.step [OF r sm_step.serve] by (simp add: carriers_ok_def sensor_at_def)
  next
    case (sample ev)
    then show ?thesis using ok sm_reachable.step [OF r sm_step.sample [OF sample(2)]]
      by (simp add: carriers_ok_def sensor_at_def)
  next
    case (carrier n i pc c pc' t)
    have n: "n < length (carrier_sensors y)" "carrier_sensors y ! n = i" using carrier by simp_all
    have "map fst ((sy_carriers y)[n := (i, p)]) = carrier_sensors y" for p
      using n by (simp add: map_update list_update_same_conv)
    then have "carrier_sensors z = (if pc' = None then remove_nth n (carrier_sensors y) else carrier_sensors y)"
      by (cases pc') (simp_all add: carrier(1) remove_nth_fst)
    moreover have "caches_ok (sy_sm y)" using sm_reachable_frames [OF r] by simp
    ultimately show ?thesis
      using carriers_ok_move [OF ok _ n carrier(4,5), of fuel] sm_reachable.step [OF r] r by (auto simp: carrier(1))
  qed
qed

section \<open>A run\<close>

text \<open>A concrete run, for the proximity sensor in a world that answers every question well.\<close>

definition benign :: "sm_state \<Rightarrow> bool" where
  "benign s \<longleftrightarrow> length (sm_sensors s) = ZE_NUMSENSORS \<and> w_malloc (sm_world s) = (\<lambda>_. True)
     \<and> w_handle (sm_world s) = (\<lambda>_. Some 0) \<and> w_rc (sm_world s) = (\<lambda>_. 0)"

lemma benign_simps [simp]:
  "benign s \<Longrightarrow> benign (snd (ask f s))" "benign s \<Longrightarrow> benign (emit c s)" "benign s \<Longrightarrow> benign (upd_sensor i g s)"
  by (simp_all add: benign_def ask_def emit_def)

lemma benign_answers [simp]:
  "benign s \<Longrightarrow> fst (ask w_malloc s)" "benign s \<Longrightarrow> fst (ask w_handle s) = Some 0" "benign s \<Longrightarrow> fst (ask w_rc s) = 0"
  by (simp_all add: benign_def ask_def)

lemma benign_upd: "benign s \<Longrightarrow> sensor_at (upd_sensor 8 f s) 8 = f (sensor_at s 8)"
  by (simp add: benign_def sensor_at_upd sensor_ix_def ZE_NUMSENSORS_def)

lemma benign_activate:
  assumes "benign s" and "0 < freq"
  obtains r t where "android_sensor_activate s 8 freq = Inr (r, t)" "benign t"
    "sn_carrier_thread_started (sensor_at t 8) \<noteq> 0" "sn_is_active (sensor_at t 8) = 1"
    "sn_streams (sensor_at t 8) = sn_streams (sensor_at s 8)"
proof -
  obtain r t where t: "android_sensor_activate s 8 freq = Inr (r, t)"
    using activate_returns [of 8 freq s] assms(2) by (auto simp: sensor_ix_def ZE_NUMSENSORS_def)
  have "benign t \<and> sn_carrier_thread_started (sensor_at t 8) \<noteq> 0 \<and> sn_is_active (sensor_at t 8) = 1
      \<and> sn_streams (sensor_at t 8) = sn_streams (sensor_at s 8)"
    using t assms
    by (auto simp: android_sensor_activate_def start_carrier_def Let_def split_def event_rate_pos benign_upd sensor_codes
        sensor_ix_def ZE_NUMSENSORS_def split: if_splits)
  with t that show ?thesis by blast
qed

lemma benign_start:
  assumes "benign s" and "sn_is_active (sensor_at s 8) = 0" and "sm_start_stream s 8 reg 10 = Inr (b, t)"
  shows "benign t \<and> sn_carrier_thread_started (sensor_at t 8) \<noteq> 0 \<and> sn_is_active (sensor_at t 8) = 1"
proof -
  let ?s2 = "snd (ask w_rand (snd (ask w_malloc s)))"
  let ?u = "upd_sensor 8 (\<lambda>sn. sn\<lparr>sn_freq := 10\<rparr>) ?s2"
  obtain r u where u: "android_sensor_activate ?u 8 10 = Inr (r, u)" "benign u"
    "sn_carrier_thread_started (sensor_at u 8) \<noteq> 0" "sn_is_active (sensor_at u 8) = 1"
    by (rule benign_activate [of ?u 10]) (use assms(1) in simp_all)
  have "sensor_at ?s2 8 = sensor_at s 8" by simp
  with assms u obtain sts where "t = upd_sensor 8 (\<lambda>sn. sn\<lparr>sn_streams := sts\<rparr>) u"
    by (auto simp: sm_start_stream_def sm_new_stream_def get_sensor_def Let_def split_def bindR_Inr_iff split: if_splits)
  with u show ?thesis by (simp add: benign_upd)
qed

lemma benign_stop:
  assumes "benign s" and "sn_oneshots (sensor_at s 8) = []" and "regs (sn_streams (sensor_at s 8)) = [reg]"
    and "sm_stop_stream s 8 reg = Inr (b, t)" and "sensors_ok s"
  shows "benign t \<and> sn_carrier_thread_started (sensor_at t 8) = sn_carrier_thread_started (sensor_at s 8)
    \<and> sn_is_active (sensor_at t 8) = 0 \<and> sn_streams (sensor_at t 8) = []"
proof -
  have ix: "sensor_ix 8" by (simp add: sensor_ix_def ZE_NUMSENSORS_def)
  have "stream_without reg (sn_streams (sensor_at s 8)) = []" using assms(3) by (auto simp: Cons_eq_map_conv stream_without_def)
  with stop_stream_known [OF assms(5) ix, of reg] assms show ?thesis
    by (auto simp: android_sensor_turnoff_def sensor_codes get_sensor_def ix Let_def split_def benign_upd bindR_Inr_iff
        split: if_splits)
qed

definition idle :: "nat \<Rightarrow> sm_state \<Rightarrow> bool" where
  "idle k s \<longleftrightarrow> sm_inv s \<and> benign s \<and> sm_events s = [] \<and> cq_head (sm_carrq s) = []
     \<and> requests (sm_smreqbuf s) = [] \<and> counter (sm_notbuf s) = k"

abbreviation with_request :: "sm_request \<Rightarrow> sm_state \<Rightarrow> sm_state" where
  "with_request q s \<equiv> note_issued q (s\<lparr>sm_smreqbuf := snd (put_request_buf_item id (sm_smreqbuf s)
     (rq_rtype q) (rq_sensor q) (rq_ticket q) (rq_freq q))\<rparr>)"

lemma idle_request:
  assumes "idle k s" and "request_ok q"
  obtains s2 where "get_request_helper (with_request q s) = Inr (q, s2)" "idle k s2" "sm_sensors s2 = sm_sensors s"
    "sm_inv (with_request q s)"
proof -
  let ?s = "with_request q s"
  have wf: "reqbuf_wf (sm_smreqbuf s)" and c: "counter (sm_smreqbuf s) = 0" and inv: "sm_inv s"
    using assms(1) sm_inv_buffers [of s] by (auto simp: idle_def buffers_ok_def)
  have "sm_step 0 s ?s" using c assms(2) SM_RBUF_SIZE_pos by (intro sm_step.request) simp_all
  with inv have inv': "sm_inv ?s" by (rule sm_step_inv)
  have r: "requests (sm_smreqbuf ?s) = [q]"
    using put_request_room_list [of "sm_smreqbuf s" id] wf c SM_RBUF_SIZE_pos assms(1) by (cases q) (simp add: idle_def)
  obtain p s2 where g: "get_request_helper ?s = Inr (p, s2)" "sm_inv s2"
    using get_request_helper_safe [OF inv'] by blast
  then have g': "get_request ?s = (p, s2)" using sm_inv_buffers [OF inv'] by (simp add: get_request_helper_def)
  note e = get_request_effect [OF _ g']
  have e': "p = q" "sm_sensors s2 = sm_sensors s" "sm_notbuf s2 = sm_notbuf s" "sm_world s2 = sm_world ?s"
    "requests (sm_smreqbuf s2) = []"
    using e r sm_inv_buffers [OF inv'] by (simp_all del: ring_list_empty_iff)
  have "sm_events s2 = sm_events s" "sm_carrq s2 = sm_carrq s" using get_request_keeps [of ?s] g' by simp_all
  with e' g assms(1) have "idle k s2" by (simp add: idle_def benign_def del: ring_list_empty_iff)
  with g e' inv' that show ?thesis by blast
qed

lemma idle_rest:
  assumes "idle k s" and "benign t" and "sensors_ok t" and "rest_of_state t = rest_of_state s"
  shows "idle k t"
  using assms sm_inv_rest [of s t] rest_of_state_eqD [OF assms(4)] by (simp add: idle_def)

lemma streams_of_all:
  assumes "all_streams t = (all_streams s)[8 := xs]" and "length (sm_sensors s) = ZE_NUMSENSORS"
  shows "sn_streams (sensor_at t 8) = xs"
proof -
  have "length (all_streams t) = 15" using assms by (simp add: all_streams_def ZE_NUMSENSORS_def)
  then have "sn_streams (sensor_at t 8) = all_streams t ! 8" by (simp add: all_streams_def sensor_at_def)
  then show ?thesis using assms by (simp add: all_streams_def ZE_NUMSENSORS_def)
qed

abbreviation run_start :: sm_request where
  "run_start \<equiv> \<lparr>rq_rtype = SM_REQ_START, rq_sensor = 8, rq_ticket = 7, rq_freq = 10\<rparr>"

abbreviation run_stop :: sm_request where
  "run_stop \<equiv> \<lparr>rq_rtype = SM_REQ_STOP, rq_sensor = 8, rq_ticket = 7, rq_freq = 0\<rparr>"

lemma sensor_ix_8: "sensor_ix 8"
  by (simp add: sensor_ix_def ZE_NUMSENSORS_def)

lemma idle_start:
  assumes "idle k s" and "sn_is_active (sensor_at s 8) = 0" and "sn_streams (sensor_at s 8) = []"
  obtains t where "thread_iteration 0 (with_request run_start s) = Inr t" "idle k t"
    "sn_carrier_thread_started (sensor_at t 8) \<noteq> 0" "sn_is_active (sensor_at t 8) = 1"
    "regs (sn_streams (sensor_at t 8)) = [7]" "sn_oneshots (sensor_at t 8) = sn_oneshots (sensor_at s 8)"
proof -
  obtain s2 where g: "get_request_helper (with_request run_start s) = Inr (run_start, s2)" and i: "idle k s2"
    and same: "sm_sensors s2 = sm_sensors s"
    by (rule idle_request [OF assms(1), of run_start]) (simp_all add: request_ok_def sensor_ix_8)
  have at: "sensor_at s2 8 = sensor_at s 8" by (simp add: sensor_at_def same)
  have ok: "sensors_ok s2" and b: "benign s2" and m: "fst (ask w_malloc s2)" using i by (simp_all add: idle_def sm_inv_sensors)
  obtain t r where t: "sm_start_stream s2 8 7 10 = Inr (True, t)" "sensors_ok t" "rest_of_state t = rest_of_state s2"
    "all_streams t = (all_streams s2)[8 := [started_stream r 7 10]]" "sn_oneshots (sensor_at t 8) = sn_oneshots (sensor_at s2 8)"
    using start_stream_effect [OF ok sensor_ix_8 _ m, of 10 7] assms(3) at by (auto simp: stream_without_def)
  note bt = benign_start [OF b _ t(1)]
  have it: "idle k t" using idle_rest [OF i _ t(2,3)] bt assms(2) at by simp
  have "serve_request 0 (with_request run_start s) = Inr t"
    unfolding serve_request_def g bindR.simps prod.case using t(1) by (simp add: serve_start_def)
  then have "thread_iteration 0 (with_request run_start s) = Inr t"
    using empty_rounds [of t] it by (simp add: thread_iteration_def idle_def)
  moreover have "regs (sn_streams (sensor_at t 8)) = [7]"
    using streams_of_all [OF t(4)] sensors_ok_length [OF ok] by (simp add: started_stream_def)
  ultimately show ?thesis using that it bt assms(2) at t(5) by simp
qed

lemma idle_stop:
  assumes "idle k s" and "k < COAP_RBUF_SIZE" and "regs (sn_streams (sensor_at s 8)) = [7]" and "sn_oneshots (sensor_at s 8) = []"
  obtains t where "thread_iteration 0 (with_request run_stop s) = Inr t" "idle (k + 1) t"
    "sn_carrier_thread_started (sensor_at t 8) = sn_carrier_thread_started (sensor_at s 8)" "sn_is_active (sensor_at t 8) = 0"
    "sn_streams (sensor_at t 8) = []"
proof -
  obtain s2 where g: "get_request_helper (with_request run_stop s) = Inr (run_stop, s2)" and i: "idle k s2"
    and same: "sm_sensors s2 = sm_sensors s"
    by (rule idle_request [OF assms(1), of run_stop]) (simp_all add: request_ok_def sensor_ix_8 sm_req_codes)
  have at: "sensor_at s2 8 = sensor_at s 8" by (simp add: sensor_at_def same)
  have ok: "sensors_ok s2" and b: "benign s2" using i by (simp_all add: idle_def sm_inv_sensors)
  obtain u where u: "sm_stop_stream s2 8 7 = Inr (0, u)" "sensors_ok u" "rest_of_state u = rest_of_state s2"
    using stop_stream_effect [OF ok sensor_ix_8, of 7] assms(3,4) at by auto
  note bu = benign_stop [OF b _ _ u(1) ok]
  have iu: "idle k u" using idle_rest [OF i _ u(2,3)] bu assms(3,4) at by simp
  let ?t = "u\<lparr>sm_notbuf := ring_insert COAP_RBUF_SIZE (response STREAM_STOPPED 7 None) (sm_notbuf u)\<rparr>"
  have room: "counter (sm_notbuf u) < COAP_RBUF_SIZE" using iu assms(2) by (simp add: idle_def)
  have "serve_request 0 (with_request run_stop s) = Inr ?t"
    unfolding serve_request_def g bindR.simps prod.case
    using u(1) by (simp add: serve_stop_def SM_ERROR_def helper_room [OF room] sm_req_codes)
  moreover have it: "idle (k + 1) ?t"
    using iu room by (simp add: idle_def sm_inv_def sensors_ok_def buffers_ok_def ring_laws benign_def)
  ultimately have "thread_iteration 0 (with_request run_stop s) = Inr ?t"
    using empty_rounds [of ?t] by (simp add: thread_iteration_def idle_def)
  with it bu assms(3,4) at that [of ?t] show ?thesis by (simp add: sensor_at_def)
qed

lemma quiet_idle: "idle 0 quiet_state"
proof -
  have w: "sm_world quiet_state = quiet_world" by (simp add: quiet_state_def)
  have "benign quiet_state"
    using sensors_ok_length [OF quiet_state_ok] by (simp add: benign_def w) (simp add: quiet_world_def)
  moreover have "counter (sm_notbuf quiet_state) = 0" by (simp add: quiet_state_def init_coap_buf_def)
  moreover have "requests (sm_smreqbuf quiet_state) = []" using quiet_buffers(3) by simp
  ultimately show ?thesis
    using sm_reachable_inv [OF quiet_reachable [of 0]] quiet_buffers(5,6) unfolding idle_def by blast
qed

lemma sys_request:
  assumes "sys_reachable fuel y" and "idle k (sy_sm y)" and "request_ok q"
  shows "sys_reachable fuel (y\<lparr>sy_sm := with_request q (sy_sm y)\<rparr>)"
  using assms SM_RBUF_SIZE_pos by (intro sys_reachable.step [OF assms(1)] sys_step.request) (auto simp: idle_def)

lemma sys_served:
  assumes "sys_reachable fuel \<lparr>sy_sm = s, sy_carriers = cs\<rparr>" and "idle k s" and "request_ok q"
    and "thread_iteration fuel (with_request q s) = Inr t"
  shows "sys_reachable fuel \<lparr>sy_sm = t, sy_carriers = cs @ map (\<lambda>i. (i, AtTest)) (new_carriers (with_request q s) t)\<rparr>"
proof -
  have "sys_reachable fuel \<lparr>sy_sm = with_request q s, sy_carriers = cs\<rparr>"
    using sys_request [OF assms(1) _ assms(3), of k] assms(2) by simp
  from sys_reachable.step [OF this sys_step.manager] assms(4) show ?thesis by simp
qed

text \<open>The stream of the proximity sensor starts and stops, its carrier thread sees that, and a start request is waiting.\<close>

lemma lost_run:
  obtains y n t where "sys_reachable 0 y" "n < length (sy_carriers y)" "sy_carriers y ! n = (8, AtEnd)"
    "thread_iteration 0 (sy_sm y) = Inr t" "sn_is_active (sensor_at t 8) = 1" "regs (sn_streams (sensor_at t 8)) = [7]"
proof -
  let ?c = "\<lparr>ci_globalexit = False, ci_malloc = True, ci_ntp = 0, ci_list = plain_utlist\<rparr>"
  have ok: "request_ok run_start" "request_ok run_stop"
    by (simp_all add: request_ok_def sensor_ix_8 sm_req_codes)
  have q: "sensor_at quiet_state 8 = blank_sensor 8" by (simp add: quiet_state_def sensor_at_def upto.simps)
  obtain t1 where t1: "thread_iteration 0 (with_request run_start quiet_state) = Inr t1" "idle 0 t1"
    "sn_carrier_thread_started (sensor_at t1 8) \<noteq> 0" "sn_is_active (sensor_at t1 8) = 1"
    "regs (sn_streams (sensor_at t1 8)) = [7]" "sn_oneshots (sensor_at t1 8) = []"
    by (rule idle_start [OF quiet_idle]) (simp_all add: q blank_sensor_def)
  obtain t2 where t2: "thread_iteration 0 (with_request run_stop t1) = Inr t2" "idle 1 t2"
    "sn_carrier_thread_started (sensor_at t2 8) \<noteq> 0" "sn_is_active (sensor_at t2 8) = 0" "sn_streams (sensor_at t2 8) = []"
    by (rule idle_stop [OF t1(2) COAP_RBUF_SIZE_pos t1(5,6)]) (simp add: t1(3))
  obtain t3 where t3: "thread_iteration 0 (with_request run_start t2) = Inr t3"
    "sn_is_active (sensor_at t3 8) = 1" "regs (sn_streams (sensor_at t3 8)) = [7]"
    by (rule idle_start [OF t2(2,4,5)])
  let ?c1 = "map (\<lambda>i. (i, AtTest)) (new_carriers (with_request run_start quiet_state) t1)"
  let ?c2 = "map (\<lambda>i. (i, AtTest)) (new_carriers (with_request run_stop t1) t2)"
  have "sm_initial quiet_state"
    using quiet_world_ok quiet_world_new unfolding sm_initial_def by (intro exI [of _ quiet_world]) (simp add: quiet_state_def)
  then have "sys_reachable 0 \<lparr>sy_sm = quiet_state, sy_carriers = []\<rparr>" by (rule sys_reachable.start)
  from sys_served [OF this quiet_idle ok(1) t1(1)]
  have y1: "sys_reachable 0 \<lparr>sy_sm = t1, sy_carriers = ?c1\<rparr>" by (simp only: append_Nil)
  have "8 \<in> set (new_carriers (with_request run_start quiet_state) t1)"
    using t1(3) q by (simp add: set_new_carriers sensor_ix_8 sensor_at_def blank_sensor_def)
  then have "(8, AtTest) \<in> set ?c1" by (simp add: image_iff)
  then obtain n where n: "n < length ?c1" "?c1 ! n = (8, AtTest)" unfolding in_set_conv_nth by blast
  define cs where "cs = ?c1 @ ?c2"
  have y2: "sys_reachable 0 \<lparr>sy_sm = t2, sy_carriers = cs\<rparr>"
    unfolding cs_def by (rule sys_served [OF y1 t1(2) ok(2) t2(1)])
  have m: "n < length cs" "cs ! n = (8, AtTest)" using n unfolding cs_def by (simp_all only: nth_append length_append) simp_all
  let ?y = "\<lparr>sy_sm = t2, sy_carriers = cs[n := (8, AtEnd)]\<rparr>"
  have "sys_step 0 \<lparr>sy_sm = t2, sy_carriers = cs\<rparr> ?y"
    using sys_step.carrier [of n "\<lparr>sy_sm = t2, sy_carriers = cs\<rparr>" 8 AtTest ?c "Some AtEnd" t2 0] m t2(4)
    by (simp add: carrier_test_def)
  with y2 have "sys_reachable 0 ?y" by (rule sys_reachable.step)
  from sys_request [OF this _ ok(1), of 1] t2(2)
  have y: "sys_reachable 0 \<lparr>sy_sm = with_request run_start t2, sy_carriers = cs[n := (8, AtEnd)]\<rparr>" by simp
  show ?thesis by (rule that [OF y, of n t3]) (use m t3 in simp_all)
qed

section \<open>Properties\<close>

text \<open>
  C14. There is never more than one carrier thread of a sensor, only the two event based sensors have one, the flag of the sensor says
  whether there is one, and the events in the carriers queue are of these sensors, for every interleaving of the moves of the
  carrier threads with whole iterations of the Streaming Manager. And the Streaming Manager thread in between goes through states of its own
  system only, so what is proved of that holds with the carrier threads it has started.
\<close>

theorem one_carrier_per_sensor:
  assumes "sys_reachable fuel y"
  shows "distinct (map fst (sy_carriers y))
    \<and> (\<forall>i\<in>set (map fst (sy_carriers y)). i = ASENSOR_TYPE_PROXIMITY \<or> i = ZESENSE_SENSOR_TYPE_ORIENTATION)
    \<and> (\<forall>i. sensor_ix i \<longrightarrow> (i \<in> set (map fst (sy_carriers y)) \<longleftrightarrow> sn_carrier_thread_started (sensor_at (sy_sm y) i) \<noteq> 0))
    \<and> (\<forall>ev\<in>set (cq_head (sm_carrq (sy_sm y))). event_based ev)
    \<and> sm_reachable fuel (sy_sm y)"
  using sys_reachable_ok [OF assms] unfolding carriers_ok_def event_sensor_def event_based_def by blast

theorem one_carrier_per_sensor_witness:
  "\<exists>y. sys_reachable 0 y \<and> distinct (map fst (sy_carriers y)) \<and> 8 \<in> set (map fst (sy_carriers y))"
proof -
  obtain y n where y: "sys_reachable 0 y" "n < length (sy_carriers y)" "sy_carriers y ! n = (8, AtEnd)"
    using lost_run by metis
  then have "(8, AtEnd) \<in> set (sy_carriers y)" by (metis nth_mem)
  then have "8 \<in> set (map fst (sy_carriers y))" by force
  with one_carrier_per_sensor [OF y(1)] y(1) show ?thesis by blast
qed

text \<open>An update that is not the creation of a thread leaves the flag alone.\<close>

lemma changef_flag: "android_sensor_changef s i freq = Inr (r, t) \<Longrightarrow> sm_sensors t = sm_sensors s"
  by (auto simp: android_sensor_changef_def Let_def split_def bindR_Inr_iff ask_def emit_def split: if_splits)

lemma start_active_flag:
  assumes "sm_start_stream s i reg freq = Inr (b, t)" and "sn_is_active (sensor_at s i) \<noteq> 0" and "sensor_ix i"
    and "length (sm_sensors s) = ZE_NUMSENSORS"
  shows "started t i = started s i"
proof -
  have up: "started (upd_sensor i f u) i = started u i"
    if "\<And>sn. sn_carrier_thread_started (f sn) = sn_carrier_thread_started sn" "length (sm_sensors u) = ZE_NUMSENSORS" for f u
    using sensor_at_upd [OF that(2) assms(3,3)] that(1) by simp
  show ?thesis
  proof (cases "fst (ask w_malloc s)")
    case False
    with assms(1) show ?thesis by (auto simp: sm_start_stream_def sm_new_stream_def Let_def split_def)
  next
    case True
    let ?s2 = "snd (ask w_rand (snd (ask w_malloc s)))" and ?f = "\<lambda>sn. sn\<lparr>sn_freq := freq\<rparr>"
    from True assms(1-3) obtain r s3 sts where r: "s3 = ?s2 \<or> android_sensor_changef (upd_sensor i ?f ?s2) i freq = Inr (r, s3)"
      and t: "t = upd_sensor i (\<lambda>sn. sn\<lparr>sn_streams := sts\<rparr>) s3"
      by (auto simp: sm_start_stream_def sm_new_stream_def get_sensor_def Let_def split_def bindR_Inr_iff split: if_splits)
    from r have "started s3 i = started s i \<and> length (sm_sensors s3) = ZE_NUMSENSORS"
    proof
      assume "android_sensor_changef (upd_sensor i ?f ?s2) i freq = Inr (r, s3)"
      then have "sm_sensors s3 = sm_sensors (upd_sensor i ?f ?s2)" by (rule changef_flag)
      moreover have "started (upd_sensor i ?f ?s2) i = started s i" using up [of ?f ?s2] assms(4) by simp
      ultimately show ?thesis using assms(4) by (simp add: sensor_at_def)
    qed (use assms(4) in simp)
    then show ?thesis unfolding t by (simp add: up)
  qed
qed

text \<open>
  C15. A carrier thread can get lost. When the thread of a sensor that was turned off has left its loop, and before it clears its
  flag an iteration of the Streaming Manager makes the sensor active again, no new thread is started, since the
  flag is still set; then the old one clears it. In the state that is reached the sensor is active, its streams are
  registered, no thread repeats its events, and starting further streams does not start one.
\<close>

theorem carrier_lost:
  assumes "sys_reachable fuel y" and "n < length (sy_carriers y)" and "sy_carriers y ! n = (i, AtEnd)"
    and "thread_iteration fuel (sy_sm y) = Inr t" and "sn_is_active (sensor_at t i) \<noteq> 0"
  shows "\<exists>z. sys_reachable fuel z \<and> sn_is_active (sensor_at (sy_sm z) i) \<noteq> 0
    \<and> sn_streams (sensor_at (sy_sm z) i) = sn_streams (sensor_at t i) \<and> i \<notin> set (map fst (sy_carriers z))
    \<and> (\<forall>reg freq b u. sm_start_stream (sy_sm z) i reg freq = Inr (b, u) \<longrightarrow> sn_carrier_thread_started (sensor_at u i) = 0)"
proof -
  let ?c = "\<lparr>ci_globalexit = False, ci_malloc = True, ci_ntp = 0, ci_list = plain_utlist\<rparr>"
  let ?t = "upd_sensor i (\<lambda>sn. sn\<lparr>sn_carrier_thread_started := 0\<rparr>) t"
  define x where "x = \<lparr>sy_sm = t, sy_carriers = sy_carriers y @ map (\<lambda>i. (i, AtTest)) (new_carriers (sy_sm y) t)\<rparr>"
  define z where "z = \<lparr>sy_sm = ?t, sy_carriers = remove_nth n (sy_carriers x)\<rparr>"
  have x: "sys_reachable fuel x"
    using sys_reachable.step [OF assms(1) sys_step.manager [OF assms(4)]] by (simp add: x_def)
  have nx: "n < length (sy_carriers x)" "sy_carriers x ! n = (i, AtEnd)"
    using assms(2,3) by (simp_all add: x_def nth_append)
  have "sys_step fuel x z"
    using sys_step.carrier [OF nx, of ?c None ?t fuel] by (simp add: x_def z_def)
  with x have z: "sys_reachable fuel z" by (rule sys_reachable.step)
  have "carrier_sensors x ! n = i" using nx by simp
  then have "i \<in> set (carrier_sensors x)" using nx(1) by (metis length_map nth_mem)
  then have l: "length (sm_sensors t) = ZE_NUMSENSORS" and i: "sensor_ix i"
    using sys_reachable_ok [OF x] event_sensor_ix unfolding carriers_ok_def x_def system.simps by blast+
  have at: "sensor_at ?t i = (sensor_at t i)\<lparr>sn_carrier_thread_started := 0\<rparr>"
    using sensor_at_upd [OF l i i] by simp
  have "started (sy_sm z) i = 0" "sn_is_active (sensor_at (sy_sm z) i) \<noteq> 0"
    "sn_streams (sensor_at (sy_sm z) i) = sn_streams (sensor_at t i)" "length (sm_sensors (sy_sm z)) = ZE_NUMSENSORS"
    using assms(5) l by (simp_all add: z_def at)
  moreover have "i \<notin> set (map fst (sy_carriers z))"
    using sys_reachable_ok [OF z] i calculation(1) unfolding carriers_ok_def by blast
  moreover have "started u i = 0" if "sm_start_stream (sy_sm z) i reg freq = Inr (b, u)" for reg freq b u
    using start_active_flag [OF that calculation(2) i calculation(4)] calculation(1) by simp
  ultimately show ?thesis using z by (intro exI [of _ z] conjI allI impI)
qed

theorem carrier_lost_witness:
  "\<exists>z. sys_reachable 0 z \<and> sn_is_active (sensor_at (sy_sm z) 8) \<noteq> 0 \<and> regs (sn_streams (sensor_at (sy_sm z) 8)) = [7]
     \<and> 8 \<notin> set (map fst (sy_carriers z))"
proof -
  obtain y n t where y: "sys_reachable 0 y" "n < length (sy_carriers y)" "sy_carriers y ! n = (8, AtEnd)"
    "thread_iteration 0 (sy_sm y) = Inr t" "sn_is_active (sensor_at t 8) = 1" "regs (sn_streams (sensor_at t 8)) = [7]"
    by (rule lost_run)
  then have "sn_is_active (sensor_at t 8) \<noteq> 0" by simp
  from carrier_lost [OF y(1-4) this] y(6) show ?thesis by (elim exE conjE) metis
qed

lemma oneshot_starts_carrier:
  assumes "sn_cache_valid (sensor_at s (rq_sensor q)) \<noteq> 1" and "sn_freq (sensor_at s (rq_sensor q)) = 0"
    and "length (sm_sensors s) = ZE_NUMSENSORS" and "serve_oneshot fuel s q = Inr t"
    and "started s (rq_sensor q) = 0" and "started t (rq_sensor q) \<noteq> 0" and "\<not> ci_globalexit c"
  shows "carrier_run c (rq_sensor q) 3 AtTest t = Inl BadConversion"
proof -
  let ?i = "rq_sensor q"
  define one where "one u = (\<lambda>sn. ll_append (w_oneshots (sm_world u)) (sn_oneshots (sn :: sensor)) (rq_ticket q))" for u :: sm_state
  from assms(1,4) obtain r s1 where ix: "sensor_ix ?i" and act: "android_sensor_activate s ?i DEFAULT_FREQ = Inr (r, s1)"
    and t': "t = upd_sensor ?i (\<lambda>sn. sn\<lparr>sn_oneshots := one (snd (ask w_malloc s1)) sn\<rparr>) (snd (ask w_malloc s1))"
    by (auto simp: serve_oneshot_def get_sensor_def bindR_Inr_iff sm_new_oneshot_def Let_def split_def one_def split: if_splits)
  define s2 where "s2 = snd (ask w_malloc s1)"
  have t: "t = upd_sensor ?i (\<lambda>sn. sn\<lparr>sn_oneshots := one s2 sn\<rparr>) s2" and s2: "sm_sensors s2 = sm_sensors s1"
    using t' by (simp_all add: s2_def)
  have l: "length (sm_sensors s1) = ZE_NUMSENSORS" "length (sm_sensors s2) = ZE_NUMSENSORS"
    using hw_frame_length [OF activate_frame [OF act]] assms(3) s2 by simp_all
  have at: "sensor_at t ?i = (sensor_at s1 ?i)\<lparr>sn_oneshots := one s2 (sensor_at s1 ?i)\<rparr>"
    using sensor_at_upd [OF l(2) ix ix] s2 unfolding t by (simp add: sensor_at_def)
  have f: "sn_freq (sensor_at t ?i) = 0"
    using hw_frame_sensor_at(3) [OF activate_frame [OF act] assms(3) ix] assms(2) at by simp
  have "sn_is_active (sensor_at s1 ?i) = 1"
    using act assms(3,5,6) at ix
    by (auto simp: android_sensor_activate_def start_carrier_def Let_def split_def bindR_Inr_iff sensor_at_upd
        split: if_splits option.splits)
  with at f assms(7) show ?thesis
    by (simp add: numeral_eq_Suc carrier_test_def carrier_period_def sensor_at_def)
qed

text \<open>
  C34. The first request of a oneshot makes the carrier thread read a frequency of zero: in every reachable state of the Streaming
  Manager, when the request served next is a ONESHOT, its sensor has no streams and no valid cached value, and serving it starts the carrier thread of the
  sensor, then that thread, when nothing comes in between, runs into the undefined conversion in its third move. The frequency is zero there because only
  starting a stream sets it, and stopping the last one clears it.
\<close>

theorem oneshot_carrier_faults:
  assumes "sm_reachable fuel s" and "requests (sm_smreqbuf s) = q # qs" and "rq_rtype q = SM_REQ_ONESHOT"
    and "sn_streams (sensor_at s (rq_sensor q)) = []" and "sn_cache_valid (sensor_at s (rq_sensor q)) \<noteq> 1"
    and "serve_request fuel s = Inr t" and "started s (rq_sensor q) = 0" and "started t (rq_sensor q) \<noteq> 0"
    and "\<not> ci_globalexit c"
  shows "carrier_run c (rq_sensor q) 3 AtTest t = Inl BadConversion"
proof -
  note inv = sm_reachable_inv [OF assms(1)]
  obtain p s1 where g: "get_request_helper s = Inr (p, s1)" using get_request_helper_safe [OF inv] by blast
  have b: "buffers_ok s" "sm_adqueue s = ADNull" using sm_inv_buffers [OF inv] by simp_all
  then have "get_request s = (p, s1)" using g by (simp add: get_request_helper_def)
  from get_request_effect [OF b(1) this] assms(2) have p: "p = q" by simp
  have at: "sensor_at s1 i = sensor_at s i" for i
    using get_request_helper_sensors [OF g] by (simp add: sensor_at_def)
  have len: "length (sm_sensors s) = ZE_NUMSENSORS" using sensors_ok_length [OF sm_inv_sensors [OF inv]] .
  have "request_ok q" using inv assms(2) by (simp add: sm_inv_def)
  then have "sensor_ix (rq_sensor q)" using assms(3) by (simp add: request_ok_def sm_req_codes)
  then have "idle_ok (sensor_at s (rq_sensor q))" using reachable_idle [OF assms(1)] sensor_at_mem [OF len] by blast
  then have f: "sn_freq (sensor_at s1 (rq_sensor q)) = 0" using assms(4) at by (simp add: idle_ok_def)
  have o: "serve_oneshot fuel s1 q = Inr t" using assms(3,6) g unfolding p by (simp add: serve_request_def sm_req_codes)
  show ?thesis
    by (rule oneshot_starts_carrier [where s = s1, OF _ f _ o]) (use assms(5,7-9) at len get_request_helper_sensors [OF g] in simp_all)
qed

text \<open>The ONESHOT of a client for the proximity sensor has been put.\<close>

definition oneshot_request :: sm_request where
  "oneshot_request = \<lparr>rq_rtype = SM_REQ_ONESHOT, rq_sensor = 8, rq_ticket = 7, rq_freq = 0\<rparr>"

definition oneshot_state :: sm_state where
  "oneshot_state = note_issued oneshot_request
     (quiet_state\<lparr>sm_smreqbuf := snd (put_request_buf_item id (sm_smreqbuf quiet_state) SM_REQ_ONESHOT 8 7 0)\<rparr>)"

lemma oneshot_state_reachable: "sm_reachable fuel oneshot_state"
proof -
  have "sm_step fuel quiet_state oneshot_state"
    using sm_step.request [of quiet_state oneshot_request fuel]
    by (simp add: oneshot_state_def oneshot_request_def request_ok_def quiet_state_def init_sm_buf_def sm_req_codes
        sensor_ix_def ZE_NUMSENSORS_def)
  with quiet_reachable show ?thesis by (rule sm_reachable.step)
qed

lemma oneshot_state_served:
  "\<exists>t. serve_request 0 oneshot_state = Inr t \<and> sn_carrier_thread_started (sensor_at t 8) \<noteq> 0"
  by (simp add: serve_request_def get_request_helper_def get_request_def get_request_buf_item_def
      oneshot_state_def put_request_buf_item_def quiet_state_def init_sm_buf_def SM_RBUF_SIZE_def note_issued_def
      serve_oneshot_def get_sensor_def sensor_at_def blank_sensor_def sm_req_codes sensor_ix_def ZE_NUMSENSORS_def
      android_sensor_activate_def sensor_codes ask_def quiet_world_def event_rate_def DEFAULT_FREQ_def c_div_def
      sm_new_oneshot_def emit_def upd_sensor_def start_carrier_def Let_def plain_utlist_def upto.simps)

theorem oneshot_carrier_faults_witness:
  "\<exists>t. serve_request 0 oneshot_state = Inr t
     \<and> carrier_run \<lparr>ci_globalexit = False, ci_malloc = True, ci_ntp = 0, ci_list = plain_utlist\<rparr> 8 3 AtTest t = Inl BadConversion"
proof -
  let ?c = "\<lparr>ci_globalexit = False, ci_malloc = True, ci_ntp = 0, ci_list = plain_utlist\<rparr>"
  obtain t where t: "serve_request 0 oneshot_state = Inr t" "sn_carrier_thread_started (sensor_at t 8) \<noteq> 0"
    using oneshot_state_served by blast
  have r: "requests (sm_smreqbuf oneshot_state) = [oneshot_request]"
    using put_request_room_list [of "sm_smreqbuf quiet_state" id SM_REQ_ONESHOT 8 7 0] quiet_buffers(2)
      init_sm_buf_wf [of True]
    by (simp add: oneshot_state_def oneshot_request_def quiet_state_def init_sm_buf_def)
  have at: "sensor_at oneshot_state 8 = blank_sensor 8"
    by (simp add: oneshot_state_def note_issued_def quiet_state_def sensor_at_def upto.simps)
  have "carrier_run ?c (rq_sensor oneshot_request) 3 AtTest t = Inl BadConversion"
    by (rule oneshot_carrier_faults [OF oneshot_state_reachable r _ _ _ t(1)])
      (use t(2) at in \<open>simp_all add: oneshot_request_def blank_sensor_def\<close>)
  with t(1) show ?thesis by (auto simp: oneshot_request_def)
qed

end
