(* ===== verification/Delivery.thy ===== *)
theory Delivery
  imports ThreadInvariant
begin

text \<open>
  What one event turns into: the exact responses \<open>process_event\<close> puts, in order, and the streams afterwards, when there is
  memory and room in the response buffer. \<open>advance\<close> and \<open>update_response\<close> are the specification of a
  stream that is fed a sample.
\<close>

section \<open>The specification\<close>

definition packet_of :: "sensor_event \<Rightarrow> int \<Rightarrow> coap_message \<Rightarrow> sm_packet" where
  "packet_of ev ts conf =
     (case sensor_vals (ev_type ev) of
        None \<Rightarrow> \<lparr>pk_ntpts = ev_timestamp ev, pk_rtpts = ts, pk_conf = conf, pk_data = None, pk_length = 0\<rparr>
      | Some (nf, vals) \<Rightarrow> \<lparr>pk_ntpts = ev_timestamp ev, pk_rtpts = ts, pk_conf = conf,
          pk_data = Some (data_layout vals nf [ev] [ts] 1), pk_length = int (8 + nf * 20)\<rparr>)"

definition next_ts :: "stream \<Rightarrow> int" where
  "next_ts st = i32 (st_last_rtpts st + 1000 div st_freq st)"

definition advance :: "sensor_event \<Rightarrow> stream \<Rightarrow> stream" where
  "advance ev st = st\<lparr>st_event_buffer := [ev], st_event_rtpts_buffer := [next_ts st], st_last_rtpts := next_ts st,
     st_last_wts := ev_timestamp ev, st_samples_sent := i32 (st_samples_sent st + 1)\<rparr>"

definition update_response :: "sensor_event \<Rightarrow> stream \<Rightarrow> sm_response" where
  "update_response ev st = response STREAM_UPDATE (st_reg st) (Some (packet_of ev (next_ts st) (st_retransmit st)))"

definition oneshot_response :: "sensor_event \<Rightarrow> int \<Rightarrow> sm_response" where
  "oneshot_response ev one = response ONESHOT one (Some (packet_of ev 0 COAP_MESSAGE_CON))"

section \<open>Sending\<close>

definition mem_ok :: "sm_state \<Rightarrow> bool" where
  "mem_ok s \<longleftrightarrow> (\<forall>n. w_malloc (sm_world s) n)"

text \<open>The parts of the state that delivering an event does not touch.\<close>

definition keeps :: "sm_state \<Rightarrow> sm_state \<Rightarrow> bool" where
  "keeps s t \<longleftrightarrow> sm_smreqbuf t = sm_smreqbuf s \<and> sm_adqueue t = sm_adqueue s \<and> sm_events t = sm_events s
     \<and> sm_carrq t = sm_carrq s \<and> mem_ok t = mem_ok s \<and> length (sm_sensors t) = length (sm_sensors s)"

lemma keeps_refl [simp]: "keeps s s"
  by (simp add: keeps_def)

lemma keeps_trans: "keeps s t \<Longrightarrow> keeps t u \<Longrightarrow> keeps s u"
  by (simp add: keeps_def)

lemma keeps_upd [simp]: "keeps s (upd_sensor i f t) = keeps s t" "keeps (upd_sensor i f s) t = keeps s t"
  by (simp_all add: keeps_def mem_ok_def)

lemma keeps_hw: "hw_frame s t \<Longrightarrow> keeps s t"
  using rest_of_state_eqD [OF hw_frame_rest] rest_of_state_world [OF hw_frame_rest] hw_frame_length
  by (simp add: keeps_def mem_ok_def)

text \<open>The buffer after some responses, by the queue contract.\<close>

definition after_responses :: "sm_state \<Rightarrow> sm_response list \<Rightarrow> sm_state \<Rightarrow> bool" where
  "after_responses s rs t \<longleftrightarrow> resbuf_wf (sm_notbuf t) \<and> responses (sm_notbuf t) = responses (sm_notbuf s) @ rs"

lemma after_responses_trans:
  "after_responses s rs t \<Longrightarrow> after_responses t qs u \<Longrightarrow> after_responses s (rs @ qs) u"
  by (simp add: after_responses_def)

lemma after_responses_counter: "after_responses s rs t \<Longrightarrow> counter (sm_notbuf t) = counter (sm_notbuf s) + length rs"
  by (metis after_responses_def length_append length_ring_list)

lemma send_packet_one:
  assumes "mem_ok s" and "counter (sm_notbuf s) < COAP_RBUF_SIZE" and "resbuf_wf (sm_notbuf s)"
  shows "\<exists>t. send_packet fuel s [ev] [ts] 1 conf rt tk = Inr t \<and> keeps s t \<and> sm_sensors t = sm_sensors s
    \<and> after_responses s [response rt tk (Some (packet_of ev ts conf))] t"
proof -
  define s2 where "s2 = snd (ask w_malloc (snd (ask w_malloc s)))"
  have ok: "fst (ask w_malloc s)" "fst (ask w_malloc (snd (ask w_malloc s)))"
    using assms(1) by (simp_all add: ask_def mem_ok_def)
  have "\<exists>pk. sm_encode s [ev] [ts] 1 = Inr (Some pk, s2) \<and> pk\<lparr>pk_conf := conf\<rparr> = packet_of ev ts conf"
    using ok
    by (cases "sensor_vals (ev_type ev)")
      (auto simp: sm_encode_def encode_eq Let_def split_def s2_def packet_of_def)
  then obtain pk where pk: "sm_encode s [ev] [ts] 1 = Inr (Some pk, s2)" "pk\<lparr>pk_conf := conf\<rparr> = packet_of ev ts conf"
    by blast
  have s2: "sm_notbuf s2 = sm_notbuf s" "keeps s s2" "sm_sensors s2 = sm_sensors s"
    by (simp_all add: s2_def keeps_def mem_ok_def ask_def)
  let ?t = "s2\<lparr>sm_notbuf := ring_insert COAP_RBUF_SIZE (response rt tk (Some (packet_of ev ts conf))) (sm_notbuf s2)\<rparr>"
  have "send_packet fuel s [ev] [ts] 1 conf rt tk = Inr ?t"
    using pk helper_room [of s2] assms(2) s2(1) by (simp add: send_packet_def set_conf_def)
  moreover have "keeps s ?t" using s2(2) by (simp add: keeps_def mem_ok_def)
  moreover have "after_responses s [response rt tk (Some (packet_of ev ts conf))] ?t"
    using assms(2,3) s2(1) by (simp add: after_responses_def ring_laws)
  ultimately show ?thesis using s2(3) by auto
qed

section \<open>The oneshots\<close>

lemma answer_oneshots_all:
  assumes "mem_ok s" and "resbuf_wf (sm_notbuf s)" and "counter (sm_notbuf s) + length os \<le> COAP_RBUF_SIZE"
    and "length (sm_sensors s) = ZE_NUMSENSORS" and "sensor_ix (ev_type ev)"
    and "sn_oneshots (sensor_at s (ev_type ev)) = os"
  shows "\<exists>t. answer_oneshots fuel ev os s = Inr t \<and> keeps s t
    \<and> after_responses s (map (oneshot_response ev) os) t
    \<and> sm_sensors t = sm_sensors (upd_sensor (ev_type ev) (\<lambda>sn. sn\<lparr>sn_oneshots := []\<rparr>) s)"
  using assms
proof (induction os arbitrary: s)
  case Nil
  then have "sm_sensors (upd_sensor (ev_type ev) (\<lambda>sn. sn\<lparr>sn_oneshots := []\<rparr>) s) = sm_sensors s"
    by (simp add: upd_sensor_def sensor_at_def sensor_ix_def nat_less_iff list_update_same_conv)
  with Nil show ?case by (simp add: after_responses_def)
next
  case (Cons one os)
  let ?i = "ev_type ev"
  have room: "counter (sm_notbuf s) < COAP_RBUF_SIZE" using Cons.prems(3) by simp
  obtain t where t: "send_packet fuel s [ev] [0] 1 COAP_MESSAGE_CON ONESHOT one = Inr t" "keeps s t"
    "sm_sensors t = sm_sensors s" "after_responses s [oneshot_response ev one] t"
    using send_packet_one [OF Cons.prems(1) room Cons.prems(2)] unfolding oneshot_response_def by blast
  let ?u = "upd_sensor ?i (\<lambda>sn. sn\<lparr>sn_oneshots := os\<rparr>) t"
  have u: "after_responses s [oneshot_response ev one] ?u"
    using t(4) by (simp add: after_responses_def upd_sensor_def)
  have "\<exists>v. answer_oneshots fuel ev os ?u = Inr v \<and> keeps ?u v
    \<and> after_responses ?u (map (oneshot_response ev) os) v
    \<and> sm_sensors v = sm_sensors (upd_sensor ?i (\<lambda>sn. sn\<lparr>sn_oneshots := []\<rparr>) ?u)"
  proof (rule Cons.IH)
    show "counter (sm_notbuf ?u) + length os \<le> COAP_RBUF_SIZE"
      using Cons.prems(3) after_responses_counter [OF u] by simp
    show "sn_oneshots (sensor_at ?u ?i) = os"
      using Cons.prems(4,5) t(3) by (simp add: sensor_at_upd)
  qed (use Cons.prems t u in \<open>auto simp: keeps_def mem_ok_def after_responses_def\<close>)
  then obtain v where v: "answer_oneshots fuel ev os ?u = Inr v" "keeps ?u v"
    "after_responses ?u (map (oneshot_response ev) os) v"
    "sm_sensors v = sm_sensors (upd_sensor ?i (\<lambda>sn. sn\<lparr>sn_oneshots := []\<rparr>) ?u)" by blast
  have "sm_sensors v = sm_sensors (upd_sensor ?i (\<lambda>sn. sn\<lparr>sn_oneshots := []\<rparr>) s)"
    using v(4) t(3) Cons.prems(4,5)
    by (simp add: upd_sensor_def sensor_at_def sensor_ix_def nat_less_iff)
  moreover have "keeps s v"
    using t(2) v(2) by (simp add: keeps_trans [OF t(2)])
  ultimately show ?case
    using t(1) v(1) after_responses_trans [OF u v(3)] by (intro exI [of _ v]) simp
qed


section \<open>The streams\<close>

lemma notify_stream_one:
  assumes "stream_ok st" and "mem_ok s" and "counter (sm_notbuf s) < COAP_RBUF_SIZE" and "resbuf_wf (sm_notbuf s)"
  shows "\<exists>t. notify_stream fuel s ev st = Inr (advance ev st, t) \<and> keeps s t \<and> sm_sensors t = sm_sensors s
    \<and> after_responses s [update_response ev st] t"
proof -
  let ?st = "(advance ev st)\<lparr>st_samples_sent := st_samples_sent st, st_event_buffer_level := 1\<rparr>"
  have st: "0 < st_freq st" "st_repeat st = REPETITION_OFF" "st_event_buffer_level st = 0"
    "length (st_event_buffer st) = 1" "length (st_event_rtpts_buffer st) = 1"
    using assms(1) by (simp_all add: stream_ok_def SOURCE_BUFFER_SIZE_def)
  have b: "buffer_sample ev st = Inr ?st"
  proof -
    obtain a b where "st_event_buffer st = [a]" "st_event_rtpts_buffer st = [b]"
      using st(4,5) by (metis One_nat_def length_0_conv length_Suc_conv)
    with st show ?thesis
      by (simp add: buffer_sample_def write_at_def next_rtpts_def next_ts_def advance_def SOURCE_BUFFER_SIZE_def
          RTP_TSCLOCK_FREQ_def c_div_nonneg)
  qed
  obtain t where t: "send_packet fuel s [ev] [next_ts st] 1 (st_retransmit st) STREAM_UPDATE (st_reg st) = Inr t"
    "keeps s t" "sm_sensors t = sm_sensors s" "after_responses s [update_response ev st] t"
    using send_packet_one [OF assms(2-4)] unfolding update_response_def by blast
  have "notify_stream fuel s ev st = Inr (advance ev st, t)"
    using b t(1) st
    by (cases st) (simp add: notify_stream_def notify_once_def SOURCE_BUFFER_SIZE_def advance_def next_ts_def)
  with t show ?thesis by blast
qed

lemma notify_streams_all:
  assumes "mem_ok s" and "resbuf_wf (sm_notbuf s)" and "counter (sm_notbuf s) + length rest \<le> COAP_RBUF_SIZE"
    and "length (sm_sensors s) = ZE_NUMSENSORS" and "sensor_ix (ev_type ev)"
    and "sn_streams (sensor_at s (ev_type ev)) = pre @ rest" and "\<forall>st\<in>set rest. stream_ok st"
    and "k = length pre"
  shows "\<exists>t. notify_streams fuel ev k rest s = Inr t \<and> keeps s t
    \<and> after_responses s (map (update_response ev) rest) t
    \<and> sm_sensors t = sm_sensors (upd_sensor (ev_type ev) (\<lambda>sn. sn\<lparr>sn_streams := pre @ map (advance ev) rest\<rparr>) s)"
  using assms
proof (induction rest arbitrary: s pre k)
  case Nil
  then have "sm_sensors (upd_sensor (ev_type ev) (\<lambda>sn. sn\<lparr>sn_streams := pre\<rparr>) s) = sm_sensors s"
    by (simp add: upd_sensor_def sensor_at_def sensor_ix_def nat_less_iff list_update_same_conv)
  with Nil show ?case by (simp add: after_responses_def)
next
  case (Cons st rest)
  let ?i = "ev_type ev"
  have room: "counter (sm_notbuf s) < COAP_RBUF_SIZE" and ok: "stream_ok st" using Cons.prems(3,7) by simp_all
  obtain t where t: "notify_stream fuel s ev st = Inr (advance ev st, t)" "keeps s t" "sm_sensors t = sm_sensors s"
    "after_responses s [update_response ev st] t"
    using notify_stream_one [OF ok Cons.prems(1) room Cons.prems(2)] by blast
  let ?u = "upd_sensor ?i (\<lambda>sn. sn\<lparr>sn_streams := (sn_streams sn)[k := advance ev st]\<rparr>) t"
  have u: "after_responses s [update_response ev st] ?u"
    using t(4) by (simp add: after_responses_def upd_sensor_def)
  have at: "sn_streams (sensor_at ?u ?i) = (pre @ [advance ev st]) @ rest"
    using Cons.prems(4,5,6,8) t(3) sensor_at_upd [of t ?i ?i]
    by (simp add: sensor_at_def)
  have "\<exists>v. notify_streams fuel ev (Suc k) rest ?u = Inr v \<and> keeps ?u v
    \<and> after_responses ?u (map (update_response ev) rest) v
    \<and> sm_sensors v = sm_sensors (upd_sensor ?i
        (\<lambda>sn. sn\<lparr>sn_streams := (pre @ [advance ev st]) @ map (advance ev) rest\<rparr>) ?u)"
  proof (rule Cons.IH)
    show "counter (sm_notbuf ?u) + length rest \<le> COAP_RBUF_SIZE"
      using Cons.prems(3) after_responses_counter [OF u] by simp
    show "sn_streams (sensor_at ?u ?i) = (pre @ [advance ev st]) @ rest" by (rule at)
  qed (use Cons.prems t u in \<open>auto simp: keeps_def mem_ok_def after_responses_def\<close>)
  then obtain v where v: "notify_streams fuel ev (Suc k) rest ?u = Inr v" "keeps ?u v"
    "after_responses ?u (map (update_response ev) rest) v"
    "sm_sensors v = sm_sensors (upd_sensor ?i
        (\<lambda>sn. sn\<lparr>sn_streams := (pre @ [advance ev st]) @ map (advance ev) rest\<rparr>) ?u)" by blast
  have "sm_sensors v = sm_sensors (upd_sensor ?i (\<lambda>sn. sn\<lparr>sn_streams := pre @ map (advance ev) (st # rest)\<rparr>) s)"
    using v(4) t(3) Cons.prems(4,5)
    by (simp add: upd_sensor_def sensor_at_def sensor_ix_def nat_less_iff)
  moreover have "keeps s v"
    using t(2) v(2) by (simp add: keeps_trans [OF t(2)])
  ultimately show ?case
    using t(1) v(1) after_responses_trans [OF u v(3)] by (intro exI [of _ v]) simp
qed


section \<open>A whole event\<close>

definition logs_room :: "sm_state \<Rightarrow> bool" where
  "logs_room s \<longleftrightarrow> (\<forall>l\<in>{sm_accel_log s, sm_prox_log s, sm_light_log s, sm_orient_log s, sm_gyro_log s}.
     lg_counter l < NUM_SAMPLES)"

lemma record_sample_room:
  assumes "logs_room s"
  shows "\<exists>t. record_sample ev s = Inr t \<and> keeps s t \<and> sm_sensors t = sm_sensors s \<and> sm_notbuf t = sm_notbuf s"
  using assms
  by (auto simp: record_sample_def log_sample_def logs_room_def keeps_def mem_ok_def ask_def Let_def)

lemma serve_oneshots_all:
  assumes "sm_inv s" and "mem_ok s" and "sensor_ix (ev_type ev)"
  defines "sn \<equiv> sensor_at s (ev_type ev)"
  assumes "counter (sm_notbuf s) + length (sn_oneshots sn) \<le> COAP_RBUF_SIZE"
  shows "\<exists>t. serve_oneshots fuel ev s = Inr t \<and> keeps s t
    \<and> after_responses s (map (oneshot_response ev) (sn_oneshots sn)) t
    \<and> all_streams t = all_streams s \<and> sensors_ok t \<and> sn_oneshots (sensor_at t (ev_type ev)) = []
    \<and> (\<forall>j. sensor_ix j \<and> j \<noteq> ev_type ev \<longrightarrow> sn_oneshots (sensor_at t j) = sn_oneshots (sensor_at s j))"
proof -
  let ?i = "ev_type ev"
  have len: "length (sm_sensors s) = ZE_NUMSENSORS" and wf: "resbuf_wf (sm_notbuf s)"
    using assms(1) by (simp_all add: sm_inv_def sensors_ok_def buffers_ok_def)
  show ?thesis
  proof (cases "sn_oneshots sn = []")
    case True
    with wf assms(1) show ?thesis
      by (intro exI [of _ s]) (simp add: serve_oneshots_def sn_def after_responses_def sm_inv_sensors)
  next
    case False
    obtain t where t: "answer_oneshots fuel ev (sn_oneshots sn) s = Inr t" "keeps s t"
      "after_responses s (map (oneshot_response ev) (sn_oneshots sn)) t"
      "sm_sensors t = sm_sensors (upd_sensor ?i (\<lambda>sn. sn\<lparr>sn_oneshots := []\<rparr>) s)"
      using answer_oneshots_all [OF assms(2) wf assms(5) len assms(3), of fuel] sn_def by blast
    let ?u = "upd_sensor ?i (\<lambda>sn. sn\<lparr>sn_oneshots := []\<rparr>) s"
    have oku: "sensors_ok ?u"
      using assms(1,3) by (intro sensors_ok_upd) (simp_all add: sm_inv_sensors sm_inv_at)
    have allu: "all_streams ?u = all_streams s"
    proof -
      have "(all_streams s)[nat ?i := sn_streams (sensor_at s ?i)] = all_streams s"
        using all_streams_nth [OF len assms(3)] by (metis list_update_id)
      then show ?thesis by (simp add: all_streams_upd)
    qed
    have att: "sensor_at t j = sensor_at ?u j" for j using t(4) by (simp add: sensor_at_def)
    have wt: "utlists_ok (sm_world t)"
      using t(1) answer_oneshots_safe [OF assms(1,3), of fuel "sn_oneshots sn"] by (simp add: sm_inv_def sensors_ok_def)
    have okt: "sensors_ok t" "all_streams t = all_streams s" "length (sm_sensors t) = ZE_NUMSENSORS"
      using oku allu t(4) wt len by (simp_all add: sensors_ok_def all_streams_def)
    have one: "sn_oneshots (sensor_at t ?i) = []"
      "\<forall>j. sensor_ix j \<and> j \<noteq> ?i \<longrightarrow> sn_oneshots (sensor_at t j) = sn_oneshots (sensor_at s j)"
      using len assms(3) by (auto simp: att sensor_at_upd)
    show ?thesis
    proof (cases "sn_streams (sensor_at t ?i) = []")
      case True
      obtain r v where v: "android_sensor_turnoff t ?i = Inr (r, v)"
        using turnoff_returns [OF assms(3)] by blast
      note fr = turnoff_frame [OF v]
      have "after_responses s (map (oneshot_response ev) (sn_oneshots sn)) v"
        using t(3) rest_of_state_eqD(1) [OF hw_frame_rest [OF fr]] by (simp add: after_responses_def)
      with v t False True okt one keeps_trans [OF t(2) keeps_hw [OF fr]] show ?thesis
        by (intro exI [of _ v])
          (simp add: serve_oneshots_def sn_def all_streams_frame [OF fr] sensors_ok_frame [OF fr]
            hw_frame_sensor_at [OF fr okt(3)] assms(3))
    next
      case False': False
      with t False okt one show ?thesis
        by (intro exI [of _ t]) (simp add: serve_oneshots_def sn_def)
    qed
  qed
qed

lemma process_event_all:
  assumes inv: "sm_inv s" and mem: "mem_ok s" and ix: "sensor_ix (ev_type ev)" and room: "logs_room s"
  defines "sn \<equiv> sensor_at s (ev_type ev)"
  assumes buf: "counter (sm_notbuf s) + length (sn_oneshots sn) + length (sn_streams sn) \<le> COAP_RBUF_SIZE"
  shows "\<exists>t. process_event fuel qselect ev s = Inr t \<and> keeps s t
    \<and> responses (sm_notbuf t) = responses (sm_notbuf s) @ map (oneshot_response ev) (sn_oneshots sn)
        @ map (update_response ev) (sn_streams sn)
    \<and> all_streams t = (all_streams s)[nat (ev_type ev) := map (advance ev) (sn_streams sn)]
    \<and> sn_oneshots (sensor_at t (ev_type ev)) = []
    \<and> (\<forall>j. sensor_ix j \<and> j \<noteq> ev_type ev \<longrightarrow> sn_oneshots (sensor_at t j) = sn_oneshots (sensor_at s j))"
proof -
  let ?i = "ev_type ev"
  obtain s1 where s1: "record_sample ev s = Inr s1" "keeps s s1" "sm_sensors s1 = sm_sensors s" "sm_notbuf s1 = sm_notbuf s"
    using record_sample_room [OF room] by blast
  have inv1: "sm_inv s1" using record_sample_safe [OF inv, of ev] s1(1) by simp
  define s2 where "s2 = (if qselect = SAMPLES_QUEUE
      then upd_sensor ?i (\<lambda>sn. sn\<lparr>sn_event_cache := ev, sn_cache_valid := 1\<rparr>) s1 else s1)"
  have len1: "length (sm_sensors s1) = ZE_NUMSENSORS" using sensors_ok_length [OF sm_inv_sensors [OF inv1]] .
  have inv2: "sm_inv s2" using inv1 ix by (simp add: s2_def sm_inv_upd sm_inv_at)
  have at2: "sn_oneshots (sensor_at s2 j) = sn_oneshots (sensor_at s j)"
    "sn_streams (sensor_at s2 j) = sn_streams (sensor_at s j)" if "sensor_ix j" for j
    using sensor_at_upd [OF len1 ix that] s1(3) by (auto simp: s2_def sensor_at_def split: if_splits)
  have all2: "all_streams s2 = all_streams s"
  proof (rule nth_equalityI)
    show "length (all_streams s2) = length (all_streams s)"
      using s1(3) by (simp add: s2_def all_streams_def)
    fix k assume "k < length (all_streams s2)"
    then have k: "sensor_ix (int k)" using len1 by (simp add: s2_def all_streams_def sensor_ix_def split: if_splits)
    show "all_streams s2 ! k = all_streams s ! k"
      using at2(2) [OF k] all_streams_nth [OF sensors_ok_length [OF sm_inv_sensors [OF inv2]] k]
        all_streams_nth [OF sensors_ok_length [OF sm_inv_sensors [OF inv]] k] by simp
  qed
  have s2: "keeps s s2" "sm_notbuf s2 = sm_notbuf s" "mem_ok s2"
    using s1 mem by (auto simp: s2_def keeps_def mem_ok_def)
  obtain s3 where s3: "serve_oneshots fuel ev s2 = Inr s3" "keeps s2 s3"
    "after_responses s2 (map (oneshot_response ev) (sn_oneshots sn)) s3"
    "all_streams s3 = all_streams s" "sensors_ok s3" "sn_oneshots (sensor_at s3 ?i) = []"
    "\<forall>j. sensor_ix j \<and> j \<noteq> ?i \<longrightarrow> sn_oneshots (sensor_at s3 j) = sn_oneshots (sensor_at s j)"
    using serve_oneshots_all [OF inv2 s2(3) ix] buf at2 ix all2 s2(2) unfolding sn_def by fastforce
  have len3: "length (sm_sensors s3) = ZE_NUMSENSORS" using s3(5) by (rule sensors_ok_length)
  have sts: "sn_streams (sensor_at s3 ?i) = sn_streams sn"
    using all_streams_nth [OF len3 ix] s3(4) all_streams_nth [OF sensors_ok_length [OF sm_inv_sensors [OF inv]] ix]
    by (simp add: sn_def)
  have ok3: "\<forall>st\<in>set (sn_streams sn). stream_ok st"
    using sm_inv_at [OF inv ix] by (simp add: sensor_ok_def sn_def)
  have room3: "counter (sm_notbuf s3) + length (sn_streams sn) \<le> COAP_RBUF_SIZE"
    using buf after_responses_counter [OF s3(3)] s2(2) by simp
  have wf3: "resbuf_wf (sm_notbuf s3)" "mem_ok s3"
    using s3(2,3) s2(3) by (simp_all add: after_responses_def keeps_def)
  obtain t where t: "notify_streams fuel ev 0 (sn_streams sn) s3 = Inr t" "keeps s3 t"
    "after_responses s3 (map (update_response ev) (sn_streams sn)) t"
    "sm_sensors t = sm_sensors (upd_sensor ?i (\<lambda>sn'. sn'\<lparr>sn_streams := map (advance ev) (sn_streams sn)\<rparr>) s3)"
    using notify_streams_all [OF wf3(2,1) room3 len3 ix _ ok3, of "[]" 0] sts by auto
  have "process_event fuel qselect ev s = Inr t"
    using s1(1) s3(1) t(1) sts ix by (simp add: process_event_def get_sensor_def Let_def flip: s2_def)
  moreover have "keeps s t"
    using keeps_trans [OF keeps_trans [OF s2(1) s3(2)] t(2)] .
  moreover have "responses (sm_notbuf t) = responses (sm_notbuf s) @ map (oneshot_response ev) (sn_oneshots sn)
      @ map (update_response ev) (sn_streams sn)"
    using s3(3) t(3) s2(2) by (simp add: after_responses_def)
  moreover have "all_streams t = (all_streams s)[nat ?i := map (advance ev) (sn_streams sn)]"
    using t(4) s3(4) all_streams_upd [of ?i "\<lambda>sn'. sn'\<lparr>sn_streams := map (advance ev) (sn_streams sn)\<rparr>" s3]
    by (simp add: all_streams_def)
  moreover have "sn_oneshots (sensor_at t j) = sn_oneshots (sensor_at s3 j)" if "sensor_ix j" for j
    using t(4) sensor_at_upd [OF len3 ix that, of "\<lambda>sn'. sn'\<lparr>sn_streams := map (advance ev) (sn_streams sn)\<rparr>"]
    by (simp add: sensor_at_def split: if_splits)
  ultimately show ?thesis using s3(6,7) ix by (intro exI [of _ t]) auto
qed


section \<open>Runs of samples\<close>

text \<open>The streams fed with one event after the other, the server emptying the buffer in between.\<close>

fun feed :: "nat \<Rightarrow> sensor_event list \<Rightarrow> sm_state \<Rightarrow> sm_state outcome" where
  "feed fuel [] s = Inr s"
| "feed fuel (ev # evs) s =
     bindR (notify_streams fuel ev 0 (sn_streams (sensor_at s (ev_type ev))) s) (\<lambda>t.
     feed fuel evs (t\<lparr>sm_notbuf := take_responses COAP_RBUF_SIZE (sm_notbuf t)\<rparr>))"

lemma advance_simps [simp]:
  "st_reg (advance ev st) = st_reg st" "st_freq (advance ev st) = st_freq st"
  "st_last_rtpts (advance ev st) = next_ts st" "st_samples_sent (advance ev st) = i32 (st_samples_sent st + 1)"
  by (simp_all add: advance_def)

lemma advance_ok: "stream_ok st \<Longrightarrow> stream_ok (advance ev st)"
  by (simp add: stream_ok_def advance_def SOURCE_BUFFER_SIZE_def)

abbreviation advances :: "sensor_event list \<Rightarrow> stream \<Rightarrow> stream" where
  "advances evs st \<equiv> foldl (\<lambda>st ev. advance ev st) st evs"

lemma advances_keeps [simp]: "st_reg (advances evs st) = st_reg st" "st_freq (advances evs st) = st_freq st"
  by (induction evs arbitrary: st) simp_all

lemma advances_counts:
  assumes "0 < st_freq st" and "in_i32 (st_last_rtpts st)" and "in_i32 (st_samples_sent st)"
    and "st_last_rtpts st + int (length evs) * (1000 div st_freq st) < 2 ^ 31"
    and "st_samples_sent st + int (length evs) < 2 ^ 31"
  shows "st_last_rtpts (advances evs st) = st_last_rtpts st + int (length evs) * (1000 div st_freq st)
    \<and> st_samples_sent (advances evs st) = st_samples_sent st + int (length evs)"
  using assms
proof (induction evs arbitrary: st)
  case (Cons ev evs)
  have step: "0 \<le> 1000 div st_freq st" using Cons.prems(1) by (simp add: pos_imp_zdiv_nonneg_iff)
  then have tail: "0 \<le> int (length evs) * (1000 div st_freq st)" by simp
  have sum: "int (length (ev # evs)) * (1000 div st_freq st)
      = 1000 div st_freq st + int (length evs) * (1000 div st_freq st)"
    by (simp add: distrib_right)
  have r1: "in_i32 (st_last_rtpts st + 1000 div st_freq st)" "in_i32 (st_samples_sent st + 1)"
    unfolding in_i32_def
    using Cons.prems(2-5)[unfolded in_i32_def] step tail sum by (simp_all, linarith)
  have n: "next_ts st = st_last_rtpts st + 1000 div st_freq st" "i32 (st_samples_sent st + 1) = st_samples_sent st + 1"
    using r1 by (simp_all add: next_ts_def i32_id)
  have "st_last_rtpts (advances evs (advance ev st))
      = st_last_rtpts (advance ev st) + int (length evs) * (1000 div st_freq (advance ev st))
    \<and> st_samples_sent (advances evs (advance ev st)) = st_samples_sent (advance ev st) + int (length evs)"
    by (rule Cons.IH) (use Cons.prems r1 n sum in simp_all)
  then show ?case using n sum by simp
qed simp

lemma feed_streams:
  assumes "mem_ok s" and "resbuf_wf (sm_notbuf s)" and "responses (sm_notbuf s) = []"
    and "length (sm_sensors s) = ZE_NUMSENSORS" and "sensor_ix i"
    and "sn_streams (sensor_at s i) = sts" and "\<forall>st\<in>set sts. stream_ok st" and "length sts \<le> COAP_RBUF_SIZE"
    and "\<forall>ev\<in>set evs. ev_type ev = i"
  shows "\<exists>t. feed fuel evs s = Inr t \<and> sn_streams (sensor_at t i) = map (advances evs) sts"
  using assms
proof (induction evs arbitrary: s sts)
  case (Cons ev evs)
  have ty: "ev_type ev = i" using Cons.prems(9) by simp
  have c0: "counter (sm_notbuf s) = 0" using Cons.prems(3) by simp
  obtain t where t: "notify_streams fuel ev 0 sts s = Inr t" "keeps s t"
    "after_responses s (map (update_response ev) sts) t"
    "sm_sensors t = sm_sensors (upd_sensor i (\<lambda>sn. sn\<lparr>sn_streams := map (advance ev) sts\<rparr>) s)"
    using notify_streams_all [of s sts ev "[]" 0 fuel] Cons.prems ty c0 by auto
  let ?u = "t\<lparr>sm_notbuf := take_responses COAP_RBUF_SIZE (sm_notbuf t)\<rparr>"
  have wf: "resbuf_wf (sm_notbuf t)" and rs: "responses (sm_notbuf t) = map (update_response ev) sts"
    using t(3) Cons.prems(3) by (simp_all add: after_responses_def del: ring_list_empty_iff)
  have at: "sn_streams (sensor_at ?u i) = map (advance ev) sts"
    using t(4) sensor_at_upd [OF Cons.prems(4,5,5), of "\<lambda>sn. sn\<lparr>sn_streams := map (advance ev) sts\<rparr>"]
    by (simp add: sensor_at_def)
  have "\<exists>v. feed fuel evs ?u = Inr v \<and> sn_streams (sensor_at v i) = map (advances evs) (map (advance ev) sts)"
  proof (rule Cons.IH)
    show "mem_ok ?u" using t(2) Cons.prems(1) by (simp add: keeps_def mem_ok_def)
    show "resbuf_wf (sm_notbuf ?u)" using wf by (simp add: take_responses_wf)
    have "responses (sm_notbuf ?u) = drop COAP_RBUF_SIZE (map (update_response ev) sts)"
      using take_responses_list [OF wf, of COAP_RBUF_SIZE] rs by simp
    then show "responses (sm_notbuf ?u) = []" using Cons.prems(8) by (simp del: ring_list_empty_iff)
  qed (use Cons.prems t at in \<open>auto simp: advance_ok\<close>)
  with t(1) Cons.prems(6) ty show ?case by (simp add: comp_def)
qed simp

section \<open>Properties\<close>

lemma busy_state_inv: "sm_inv (busy_state os) \<and> mem_ok (busy_state os) \<and> logs_room (busy_state os)
    \<and> responses (sm_notbuf (busy_state os)) = []"
proof -
  have "rest_of_state (busy_state os) = rest_of_state quiet_state" by (simp add: busy_state_def)
  then have "sm_inv (busy_state os)"
    using sm_inv_rest [OF sm_reachable_inv [OF quiet_reachable]] busy_state_ok by blast
  moreover have "mem_ok (busy_state os)" "logs_room (busy_state os)"
    by (simp_all add: mem_ok_def logs_room_def busy_state_def upd_sensor_def quiet_state_def quiet_world_def
        empty_log_def NUM_SAMPLES_def)
  moreover have "responses (sm_notbuf (busy_state os)) = []"
    using quiet_buffers(1) by (simp add: busy_state_def upd_sensor_def) (simp add: quiet_state_def init_coap_buf_def)
  ultimately show ?thesis by blast
qed

text \<open>
  C1. With memory, room in the sample logs, and room in the response buffer for all of them, one
  event of a sensor becomes exactly these responses, in this order behind what was there: one ONESHOT of type CON for
  each pending oneshot of that sensor, oldest first, and one STREAM_UPDATE for each of its streams, in the order of
  the list, with the packet of that sample and the stream's next time stamp and message type. Afterwards no oneshot of
  the sensor is pending, each of its streams has advanced by one sample, and no other sensor's streams or oneshots have changed.
\<close>

theorem process_event_delivers:
  assumes "sm_inv s" and "mem_ok s" and "sensor_ix (ev_type ev)" and "logs_room s"
    and "counter (sm_notbuf s) + length (sn_oneshots (sensor_at s (ev_type ev)))
      + length (sn_streams (sensor_at s (ev_type ev))) \<le> 20"
  shows "\<exists>t. process_event fuel qselect ev s = Inr t
    \<and> responses (sm_notbuf t) = responses (sm_notbuf s)
        @ map (oneshot_response ev) (sn_oneshots (sensor_at s (ev_type ev)))
        @ map (update_response ev) (sn_streams (sensor_at s (ev_type ev)))
    \<and> all_streams t = (all_streams s)[nat (ev_type ev) := map (advance ev) (sn_streams (sensor_at s (ev_type ev)))]
    \<and> sn_oneshots (sensor_at t (ev_type ev)) = []
    \<and> (\<forall>j. sensor_ix j \<and> j \<noteq> ev_type ev \<longrightarrow> sn_oneshots (sensor_at t j) = sn_oneshots (sensor_at s j))"
proof -
  have "counter (sm_notbuf s) + length (sn_oneshots (sensor_at s (ev_type ev)))
      + length (sn_streams (sensor_at s (ev_type ev))) \<le> COAP_RBUF_SIZE"
    using assms(5) by (simp add: COAP_RBUF_SIZE_def)
  from process_event_all [OF assms(1-4) this, of fuel qselect] show ?thesis by blast
qed

theorem process_event_delivers_witness:
  "\<exists>t. process_event 0 SAMPLES_QUEUE (zero_event\<lparr>ev_type := 1\<rparr>) (busy_state [9]) = Inr t
     \<and> map rs_ticket (responses (sm_notbuf t)) = [9, 7, 8]"
proof -
  define ev where "ev = zero_event\<lparr>ev_type := 1\<rparr>"
  have ty: "ev_type ev = 1" by (simp add: ev_def)
  have b: "sm_inv (busy_state [9])" "mem_ok (busy_state [9])" "logs_room (busy_state [9])"
    "responses (sm_notbuf (busy_state [9])) = []"
    using busy_state_inv [of "[9]"] by blast+
  have ix: "sensor_ix (ev_type ev)" by (simp add: ty)
  have room: "counter (sm_notbuf (busy_state [9])) + length (sn_oneshots (sensor_at (busy_state [9]) (ev_type ev)))
      + length (sn_streams (sensor_at (busy_state [9]) (ev_type ev))) \<le> 20"
    using b(4) by (simp add: ty busy_state_at)
  obtain t where t: "process_event 0 SAMPLES_QUEUE ev (busy_state [9]) = Inr t"
    "responses (sm_notbuf t) = responses (sm_notbuf (busy_state [9]))
        @ map (oneshot_response ev) (sn_oneshots (sensor_at (busy_state [9]) (ev_type ev)))
        @ map (update_response ev) (sn_streams (sensor_at (busy_state [9]) (ev_type ev)))"
    using process_event_delivers [OF b(1,2) ix b(3) room, of 0 SAMPLES_QUEUE]
    by (elim exE conjE) (rule that)
  have "map rs_ticket (responses (sm_notbuf t)) = [9, 7, 8]"
    unfolding t(2) b(4) ty busy_state_at by (simp add: oneshot_response_def update_response_def)
  with t(1) show ?thesis unfolding ev_def by (intro exI [of _ t] conjI)
qed

text \<open>
  The media clock of a stream: after \<open>n\<close> samples of its sensor the last RTP time stamp has grown by
  exactly \<open>n\<close> times the period \<open>1000 / freq\<close> (truncated, in milliseconds), and the number of samples sent by \<open>n\<close>,
  for as long as both fit an \<open>int\<close>; this for all the streams of the sensor at once, up to 20 of them.
\<close>

theorem stream_clock:
  assumes "sm_inv s" and "mem_ok s" and "responses (sm_notbuf s) = []" and "sensor_ix i"
    and "length (sn_streams (sensor_at s i)) \<le> 20" and "\<forall>ev\<in>set evs. ev_type ev = i"
    and "k < length (sn_streams (sensor_at s i))" and "st = sn_streams (sensor_at s i) ! k"
    and "0 \<le> st_last_rtpts st" and "0 \<le> st_samples_sent st"
    and "st_last_rtpts st + int (length evs) * (1000 div st_freq st) < 2 ^ 31"
    and "st_samples_sent st + int (length evs) < 2 ^ 31"
  shows "\<exists>t st'. feed fuel evs s = Inr t \<and> sn_streams (sensor_at t i) ! k = st' \<and> st_reg st' = st_reg st
    \<and> st_last_rtpts st' = st_last_rtpts st + int (length evs) * (1000 div st_freq st)
    \<and> st_samples_sent st' = st_samples_sent st + int (length evs)"
proof -
  have ok: "\<forall>st\<in>set (sn_streams (sensor_at s i)). stream_ok st"
    using sm_inv_at [OF assms(1,4)] by (simp add: sensor_ok_def)
  have st: "0 < st_freq st" using ok assms(7,8) by (simp add: stream_ok_def)
  have pos: "0 \<le> int (length evs) * (1000 div st_freq st)"
    using st by (simp add: pos_imp_zdiv_nonneg_iff)
  have i: "in_i32 (st_last_rtpts st)" "in_i32 (st_samples_sent st)"
    using assms(9-12) pos by (simp_all add: in_i32_def)
  have wf: "resbuf_wf (sm_notbuf s)" "length (sm_sensors s) = ZE_NUMSENSORS"
    using assms(1) by (simp_all add: sm_inv_def buffers_ok_def sensors_ok_def)
  obtain t where "feed fuel evs s = Inr t" "sn_streams (sensor_at t i) = map (advances evs) (sn_streams (sensor_at s i))"
    using feed_streams [OF assms(2) wf(1) assms(3) wf(2) assms(4) refl ok _ assms(6)] assms(5)
    by (auto simp: COAP_RBUF_SIZE_def)
  with advances_counts [OF st i assms(11,12)] assms(7,8) show ?thesis by simp
qed

theorem stream_clock_witness:
  "\<exists>t st'. feed 0 [zero_event\<lparr>ev_type := 1\<rparr>, zero_event\<lparr>ev_type := 1\<rparr>] (busy_state []) = Inr t
     \<and> sn_streams (sensor_at t 1) ! 1 = st' \<and> st_last_rtpts st' = 500 \<and> st_samples_sent st' = 2"
proof -
  let ?evs = "[zero_event\<lparr>ev_type := 1\<rparr>, zero_event\<lparr>ev_type := 1\<rparr>]"
  have b: "sm_inv (busy_state [])" "mem_ok (busy_state [])" "responses (sm_notbuf (busy_state [])) = []"
    using busy_state_inv [of "[]"] by blast+
  have h: "length (sn_streams (sensor_at (busy_state []) 1)) \<le> 20" "\<forall>ev\<in>set ?evs. ev_type ev = 1"
    "1 < length (sn_streams (sensor_at (busy_state []) 1))"
    "started_stream 0 8 20 = sn_streams (sensor_at (busy_state []) 1) ! 1"
    "0 \<le> st_last_rtpts (started_stream 0 8 20)" "0 \<le> st_samples_sent (started_stream 0 8 20)"
    "st_last_rtpts (started_stream 0 8 20) + int (length ?evs) * (1000 div st_freq (started_stream 0 8 20)) < 2 ^ 31"
    "st_samples_sent (started_stream 0 8 20) + int (length ?evs) < 2 ^ 31"
    by (simp_all add: busy_state_at)
  obtain t st' where "feed 0 ?evs (busy_state []) = Inr t" "sn_streams (sensor_at t 1) ! 1 = st'"
    "st_last_rtpts st' = st_last_rtpts (started_stream 0 8 20)
      + int (length ?evs) * (1000 div st_freq (started_stream 0 8 20))"
    "st_samples_sent st' = st_samples_sent (started_stream 0 8 20) + int (length ?evs)"
    using stream_clock [OF b sensor_ix_1(1) h, of 0] by blast
  then show ?thesis by simp
qed


text \<open>The cache of a sensor after some events have been written to it.\<close>

definition cache_after :: "sensor_event list \<Rightarrow> sm_state \<Rightarrow> int \<Rightarrow> sensor_event" where
  "cache_after evs s i = last (sn_event_cache (sensor_at s i) # filter (\<lambda>ev. ev_type ev = i) evs)"

lemma fetch_sample_cache:
  "length (sm_sensors s) = ZE_NUMSENSORS \<Longrightarrow> fetch_sample es s = (r, t) \<Longrightarrow>
   \<exists>skipped rest. es = map Some skipped @ rest \<and> list_all event_based skipped \<and> sm_events t = tl rest
     \<and> r = (case rest of Some ev # _ \<Rightarrow> Some ev | _ \<Rightarrow> None) \<and> (\<forall>ev. r = Some ev \<longrightarrow> \<not> event_based ev)
     \<and> (\<forall>i. sensor_ix i \<longrightarrow> sn_event_cache (sensor_at t i) = cache_after skipped s i
          \<and> sn_streams (sensor_at t i) = sn_streams (sensor_at s i))"
proof (induction es s rule: fetch_sample.induct)
  case (3 event es s)
  show ?case
  proof (cases "event_based event")
    case False
    with 3 show ?thesis
      by (intro exI [of _ "[]"] exI [of _ "Some event # es"]) (auto simp: cache_after_def sensor_at_def)
  next
    case True
    let ?s = "write_cache event s"
    have len: "length (sm_sensors ?s) = ZE_NUMSENSORS" using 3(2) by (simp add: write_cache_def)
    have f: "fetch_sample es ?s = (r, t)" using 3(3) True by simp
    obtain skipped rest where ih: "es = map Some skipped @ rest" "list_all event_based skipped" "sm_events t = tl rest"
      "r = (case rest of Some ev # _ \<Rightarrow> Some ev | _ \<Rightarrow> None)" "\<forall>ev. r = Some ev \<longrightarrow> \<not> event_based ev"
      "\<forall>i. sensor_ix i \<longrightarrow> sn_event_cache (sensor_at t i) = cache_after skipped ?s i
          \<and> sn_streams (sensor_at t i) = sn_streams (sensor_at ?s i)"
      using 3(1) [OF True len f] by blast
    have "cache_after skipped ?s i = cache_after (event # skipped) s i
        \<and> sn_streams (sensor_at ?s i) = sn_streams (sensor_at s i)" if "sensor_ix i" for i
      using sensor_at_upd [OF 3(2) event_based_ix [OF True] that]
      by (auto simp: write_cache_def write_last_event_SYN_def cache_after_def)
    with ih True show ?thesis
      by (intro exI [of _ "event # skipped"] exI [of _ rest]) simp
  qed
qed (auto simp: cache_after_def sensor_at_def intro: exI [of _ "[]"])

text \<open>
  The real values of the proximity and orientation sensors never reach a stream from the sample queue: a
  fetch takes out the longest run of them at the front, leaves the latest of each sensor in that sensor's cache and no other
  cache changed, and gives the first event behind the run, which is of another sensor, or none.
\<close>

theorem real_values_only_cached:
  assumes "sm_inv s" and "fetch_event SAMPLES_QUEUE s = (r, t)"
  shows "\<exists>skipped rest. sm_events s = map Some skipped @ rest \<and> list_all event_based skipped \<and> sm_events t = tl rest
    \<and> r = (case rest of Some ev # _ \<Rightarrow> Some ev | _ \<Rightarrow> None) \<and> (\<forall>ev. r = Some ev \<longrightarrow> \<not> event_based ev)
    \<and> (\<forall>i. sensor_ix i \<longrightarrow> sn_event_cache (sensor_at t i) = cache_after skipped s i
         \<and> sn_streams (sensor_at t i) = sn_streams (sensor_at s i))"
  using fetch_sample_cache [OF sensors_ok_length [OF sm_inv_sensors [OF assms(1)]]] assms(2)
  by (simp add: fetch_event_def)

definition prox_event :: "int \<Rightarrow> sensor_event" where
  "prox_event t = zero_event\<lparr>ev_type := ASENSOR_TYPE_PROXIMITY, ev_timestamp := t\<rparr>"

definition light_event :: sensor_event where
  "light_event = zero_event\<lparr>ev_type := ASENSOR_TYPE_LIGHT\<rparr>"

definition queued_state :: sm_state where
  "queued_state = quiet_state\<lparr>sm_events := [Some (prox_event 1), Some (prox_event 2), Some light_event]\<rparr>"

theorem real_values_only_cached_witness:
  "fst (fetch_event SAMPLES_QUEUE queued_state) = Some light_event \<and>
   (\<exists>skipped rest. sm_events queued_state = map Some skipped @ rest \<and> list_all event_based skipped)"
proof -
  have inv: "sm_inv queued_state"
    unfolding queued_state_def
    by (rule sm_inv_events [OF sm_reachable_inv [OF quiet_reachable]])
      (auto simp: prox_event_def light_event_def sensor_codes sensor_ix_def ZE_NUMSENSORS_def)
  obtain r t where f: "fetch_event SAMPLES_QUEUE queued_state = (r, t)" by force
  have "fst (fetch_event SAMPLES_QUEUE queued_state) = Some light_event"
    by (simp add: fetch_event_def queued_state_def event_based_def prox_event_def light_event_def sensor_codes)
  with real_values_only_cached [OF inv f] show ?thesis by blast
qed

end
