(* ===== verification/Liveness.thy ===== *)
theory Liveness
  imports ThreadFrame Delivery
begin

text \<open>
  Progress of the Streaming Manager thread: when there is memory, the CoAP server takes a response during every timed wait,
  the sample logs have room and no oneshots are about, every iteration returns and serves the oldest request.
\<close>

section \<open>A system in good order\<close>

definition logs_below :: "nat \<Rightarrow> sm_state \<Rightarrow> bool" where
  "logs_below n s \<longleftrightarrow> lg_counter (sm_accel_log s) + n \<le> NUM_SAMPLES \<and> lg_counter (sm_orient_log s) + n \<le> NUM_SAMPLES
     \<and> lg_counter (sm_light_log s) + n \<le> NUM_SAMPLES \<and> lg_counter (sm_prox_log s) + n \<le> NUM_SAMPLES
     \<and> lg_counter (sm_gyro_log s) + n \<le> NUM_SAMPLES"

definition no_oneshots :: "sm_state \<Rightarrow> bool" where
  "no_oneshots s \<longleftrightarrow> (\<forall>sn\<in>set (sm_sensors s). sn_oneshots sn = [])"

text \<open>\<open>n\<close> is the number of samples there is room for.\<close>

definition calm :: "nat \<Rightarrow> sm_state \<Rightarrow> bool" where
  "calm n s \<longleftrightarrow> sm_inv s \<and> mem_ok s \<and> (\<forall>k. fst (w_wait (sm_world s) k) = 0) \<and> logs_below n s \<and> no_oneshots s"

abbreviation returns :: "(sm_state \<Rightarrow> bool) \<Rightarrow> sm_state outcome \<Rightarrow> bool" where
  "returns P r \<equiv> outcome_sat {} P r"

text \<open>What the streams of each sensor are: their tickets and frequencies, in order.\<close>

abbreviation stream_subs :: "stream list \<Rightarrow> (int \<times> int) list" where
  "stream_subs \<equiv> map (\<lambda>st. (st_reg st, st_freq st))"

definition subscriptions :: "sm_state \<Rightarrow> (int \<times> int) list list" where
  "subscriptions s = map stream_subs (all_streams s)"

text \<open>What a request should do to them.\<close>

definition serve_spec :: "(int \<times> int) list list \<Rightarrow> sm_request \<Rightarrow> (int \<times> int) list list" where
  "serve_spec subs q =
     (let others = filter (\<lambda>(ticket, freq). ticket \<noteq> rq_ticket q) (subs ! nat (rq_sensor q))
      in if rq_rtype q = SM_REQ_START then subs[nat (rq_sensor q) := others @ [(rq_ticket q, rq_freq q)]]
         else if rq_rtype q = SM_REQ_STOP then subs[nat (rq_sensor q) := others]
         else subs)"

lemma subs_without: "stream_subs (stream_without reg sts) = filter (\<lambda>(ticket, freq). ticket \<noteq> reg) (stream_subs sts)"
  by (simp add: stream_without_def filter_map comp_def)

lemma subs_started: "stream_subs [started_stream r reg freq] = [(reg, freq)]"
  by (simp add: started_stream_def)

lemma subscriptions_streams: "all_streams t = all_streams s \<Longrightarrow> subscriptions t = subscriptions s"
  by (simp add: subscriptions_def)

lemma subscriptions_sensors: "sm_sensors t = sm_sensors s \<Longrightarrow> subscriptions t = subscriptions s"
  by (simp add: subscriptions_def all_streams_def)

lemma subscriptions_queues [simp]:
  "subscriptions (s\<lparr>sm_events := es\<rparr>) = subscriptions s" "subscriptions (s\<lparr>sm_carrq := q\<rparr>) = subscriptions s"
  by (simp_all add: subscriptions_def all_streams_def)

lemma subscriptions_at:
  assumes "length (sm_sensors s) = ZE_NUMSENSORS" and "sensor_ix i"
  shows "subscriptions s ! nat i = stream_subs (sn_streams (sensor_at s i))"
  using assms by (simp add: subscriptions_def all_streams_def sensor_at_def sensor_ix_def nat_less_iff)

lemma subscriptions_upd:
  "subscriptions (upd_sensor i f s) = (subscriptions s)[nat i := stream_subs (sn_streams (f (sensor_at s i)))]"
  by (simp add: subscriptions_def all_streams_def upd_sensor_def map_update)

lemma subscriptions_upd_same:
  assumes "stream_subs (sn_streams (f (sensor_at s i))) = stream_subs (sn_streams (sensor_at s i))"
  shows "subscriptions (upd_sensor i f s) = subscriptions s"
  unfolding subscriptions_upd assms
  by (metis (no_types, lifting) all_streams_def list_update_id map_update sensor_at_def subscriptions_def)

text \<open>Everything but the invariant is kept by what changes neither the logs nor the oneshots.\<close>

lemma calm_keep:
  assumes "calm n s" and "sm_inv t" and "world_frame s t" and "no_oneshots t"
    and "sm_accel_log t = sm_accel_log s" "sm_orient_log t = sm_orient_log s" "sm_light_log t = sm_light_log s"
    "sm_prox_log t = sm_prox_log s" "sm_gyro_log t = sm_gyro_log s"
  shows "calm n t"
proof -
  have "(sm_world t)\<lparr>w_tick := 0, w_calls := [], w_issued := [], w_taken := []\<rparr>
      = (sm_world s)\<lparr>w_tick := 0, w_calls := [], w_issued := [], w_taken := []\<rparr>"
    using assms(3) by (simp add: world_frame_def)
  then have "w_malloc (sm_world t) = w_malloc (sm_world s)" "w_wait (sm_world t) = w_wait (sm_world s)"
    by (cases "sm_world s"; cases "sm_world t"; simp)+
  with assms show ?thesis by (simp add: calm_def mem_ok_def logs_below_def)
qed

section \<open>Putting a response\<close>

lemma put_response_answered:
  assumes "calm n s"
  shows "fst (put_response s rt tk pk) = 0"
proof -
  have b: "buffers_ok s" using assms sm_inv_buffers [of s] by (simp add: calm_def)
  obtain r t where p: "put_response s rt tk pk = (r, t)" by force
  have w: "fst (fst (ask w_wait s)) = 0" using assms by (simp add: calm_def ask_def)
  show ?thesis
  proof (cases "counter (sm_notbuf s) < COAP_RBUF_SIZE")
    case True
    then show ?thesis by (simp add: put_response_room_eq)
  next
    case False
    with w show ?thesis
      by (simp add: put_response_def split_def Let_def wait_of_def put_response_full_ok)
  qed
qed

lemma put_response_rest:
  "sm_accel_log (snd (put_response s rt tk pk)) = sm_accel_log s \<and> sm_orient_log (snd (put_response s rt tk pk)) = sm_orient_log s
    \<and> sm_light_log (snd (put_response s rt tk pk)) = sm_light_log s \<and> sm_prox_log (snd (put_response s rt tk pk)) = sm_prox_log s
    \<and> sm_gyro_log (snd (put_response s rt tk pk)) = sm_gyro_log s"
  by (simp add: put_response_def split_def Let_def ask_def)

text \<open>The helper does not enter its loop.\<close>

lemma calm_helper:
  assumes "calm n s"
  obtains t where "put_response_helper fuel s rt tk pk = Inr (1, t)" "calm n t" "sm_sensors t = sm_sensors s"
    "sm_smreqbuf t = sm_smreqbuf s" "sm_events t = sm_events s"
proof -
  obtain t where p: "put_response s rt tk pk = (0, t)" using put_response_answered [OF assms, of rt tk pk] by (metis prod.collapse)
  have inv: "sm_inv s" "buffers_ok s" "sm_adqueue s = ADNull" using assms sm_inv_buffers [of s] by (simp_all add: calm_def)
  note e = put_response_effect [OF inv(2) p]
  have h: "put_response_helper fuel s rt tk pk = Inr (1, t)"
    using p e inv(3) by (simp add: put_response_helper_def deadlock_loop_done ETIMEDOUT_def)
  have "sm_inv t" "sm_events t = sm_events s"
    using helper_safe [OF inv(1), of fuel rt tk pk] h by simp_all
  moreover have "world_frame s t" using h by (rule put_response_helper_world)
  moreover have "no_oneshots t" using assms e by (simp add: calm_def no_oneshots_def)
  ultimately have "calm n t" using put_response_rest [of s rt tk pk] p by (intro calm_keep [OF assms]) simp_all
  with h e that \<open>sm_events t = sm_events s\<close> show ?thesis by blast
qed

lemma calm_ask [simp]: "calm n (snd (ask f s)) = calm n s"
  by (simp add: calm_def mem_ok_def logs_below_def no_oneshots_def ask_def sm_inv_ask [unfolded ask_def, simplified])

lemma calm_send:
  assumes "calm n s"
  obtains t where "send_packet fuel s [ev] [ts] 1 conf rt tk = Inr t" "calm n t" "sm_sensors t = sm_sensors s"
    "sm_smreqbuf t = sm_smreqbuf s"
proof -
  let ?s2 = "snd (ask w_malloc (snd (ask w_malloc s)))"
  have ok: "fst (ask w_malloc s)" "fst (ask w_malloc (snd (ask w_malloc s)))"
    using assms by (simp_all add: ask_def mem_ok_def calm_def)
  obtain pk where pk: "sm_encode s [ev] [ts] 1 = Inr (Some pk, ?s2)"
    using ok by (cases "sensor_vals (ev_type ev)") (auto simp: sm_encode_def encode_eq Let_def split_def)
  have "calm n ?s2" using assms by simp
  then obtain t where "put_response_helper fuel ?s2 rt tk (Some (pk\<lparr>pk_conf := conf\<rparr>)) = Inr (1, t)" "calm n t"
    "sm_sensors t = sm_sensors ?s2" "sm_smreqbuf t = sm_smreqbuf ?s2"
    by (rule calm_helper)
  with pk that [of t] show ?thesis by (simp add: send_packet_def set_conf_def)
qed

section \<open>Serving the oldest request\<close>

lemma no_oneshots_map: "no_oneshots s \<longleftrightarrow> (\<forall>os\<in>set (map sn_oneshots (sm_sensors s)). os = [])"
  by (simp add: no_oneshots_def)

text \<open>What starting or stopping a stream leaves: all but the sensors and the next question.\<close>

lemma calm_stream_op:
  assumes "calm n s" and "sensors_ok t" and "rest_of_state t = rest_of_state s" and "world_frame s t"
    and "map sn_oneshots (sm_sensors t) = map sn_oneshots (sm_sensors s)"
  shows "calm n t" and "sm_smreqbuf t = sm_smreqbuf s"
proof -
  note r = rest_of_state_eqD [OF assms(3)]
  have "sm_inv t" using assms(1-3) sm_inv_rest unfolding calm_def by blast
  moreover have "no_oneshots t" using assms(1,5) by (simp add: calm_def no_oneshots_map)
  ultimately show "calm n t" using r assms(4) by (intro calm_keep [OF assms(1)])
  show "sm_smreqbuf t = sm_smreqbuf s" by (rule r)
qed

lemma calm_start:
  assumes "calm n s" and "sensor_ix (rq_sensor q)" and "0 < rq_freq q"
  obtains t where "serve_start fuel s q = Inr t" "calm n t" "sm_smreqbuf t = sm_smreqbuf s"
    "subscriptions t = (subscriptions s)[nat (rq_sensor q) :=
      filter (\<lambda>(ticket, freq). ticket \<noteq> rq_ticket q) (subscriptions s ! nat (rq_sensor q)) @ [(rq_ticket q, rq_freq q)]]"
proof -
  have ok: "sensors_ok s" and m: "fst (ask w_malloc s)"
    using assms(1) by (simp_all add: calm_def sm_inv_sensors mem_ok_def ask_def)
  obtain b t r where t: "sm_start_stream s (rq_sensor q) (rq_ticket q) (rq_freq q) = Inr (b, t)" "sensors_ok t"
    "rest_of_state t = rest_of_state s"
    "all_streams t = (all_streams s)[nat (rq_sensor q) :=
      stream_without (rq_ticket q) (sn_streams (sensor_at s (rq_sensor q))) @ [started_stream r (rq_ticket q) (rq_freq q)]]"
    using start_stream_effect [OF ok assms(2,3) m, of "rq_ticket q"] by blast
  have sub: "subscriptions t = (subscriptions s)[nat (rq_sensor q) :=
      filter (\<lambda>(ticket, freq). ticket \<noteq> rq_ticket q) (subscriptions s ! nat (rq_sensor q)) @ [(rq_ticket q, rq_freq q)]]"
    unfolding subscriptions_at [OF sensors_ok_length [OF ok] assms(2)]
    unfolding subscriptions_def t(4) map_update map_append subs_without subs_started ..
  note c = calm_stream_op [OF assms(1) t(2,3) worlds.start_stream_R [OF t(1)] pendings.start_stream_R [OF t(1)]]
  obtain u where u: "put_response_helper fuel t STREAM_STOPPED (rq_ticket q) None = Inr (1, u)" "calm n u" "sm_smreqbuf u = sm_smreqbuf t"
    "sm_sensors u = sm_sensors t"
    by (rule calm_helper [OF c(1)])
  note us = subscriptions_sensors [OF u(4)]
  show ?thesis
    by (rule that [of "if b then t else u"]) (use t(1) c u us sub in \<open>simp_all add: serve_start_def\<close>)
qed

lemma calm_stop:
  assumes "calm n s" and "sensor_ix (rq_sensor q)"
  obtains t where "serve_stop fuel s q = Inr t" "calm n t" "sm_smreqbuf t = sm_smreqbuf s"
    "subscriptions t = (subscriptions s)[nat (rq_sensor q) :=
      filter (\<lambda>(ticket, freq). ticket \<noteq> rq_ticket q) (subscriptions s ! nat (rq_sensor q))]"
proof (cases "rq_ticket q \<in> set (regs (sn_streams (sensor_at s (rq_sensor q))))")
  case False
  have l: "length (sm_sensors s) = ZE_NUMSENSORS" using assms(1) by (simp add: calm_def sm_inv_sensors sensors_ok_length)
  have "filter (\<lambda>(ticket, freq). ticket \<noteq> rq_ticket q) (stream_subs (sn_streams (sensor_at s (rq_sensor q))))
      = stream_subs (sn_streams (sensor_at s (rq_sensor q)))"
    using False by (auto intro!: filter_True simp: image_iff)
  then have "subscriptions s = (subscriptions s)[nat (rq_sensor q) :=
      filter (\<lambda>(ticket, freq). ticket \<noteq> rq_ticket q) (subscriptions s ! nat (rq_sensor q))]"
    unfolding subscriptions_at [OF l assms(2)] by (metis l assms(2) list_update_id subscriptions_at)
  with stop_stream_unknown [OF assms(2) False] assms(1) show ?thesis by (intro that [of s]) (simp_all add: serve_stop_def)
next
  case True
  have ok: "sensors_ok s" using assms(1) by (simp add: calm_def sm_inv_sensors)
  have "sensor_at s (rq_sensor q) \<in> set (sm_sensors s)"
    using assms(2) sensors_ok_length [OF ok] by (auto simp: sensor_at_def sensor_ix_def nat_less_iff)
  then have none: "sn_oneshots (sensor_at s (rq_sensor q)) = []" using assms(1) by (simp add: calm_def no_oneshots_def)
  obtain t where t: "sm_stop_stream s (rq_sensor q) (rq_ticket q) = Inr (0, t)" "sensors_ok t" "rest_of_state t = rest_of_state s"
    "all_streams t = (all_streams s)[nat (rq_sensor q) := stream_without (rq_ticket q) (sn_streams (sensor_at s (rq_sensor q)))]"
    using stop_stream_effect [OF ok assms(2) True] none by blast
  have sub: "subscriptions t = (subscriptions s)[nat (rq_sensor q) :=
      filter (\<lambda>(ticket, freq). ticket \<noteq> rq_ticket q) (subscriptions s ! nat (rq_sensor q))]"
    unfolding subscriptions_at [OF sensors_ok_length [OF ok] assms(2)]
    unfolding subscriptions_def t(4) map_update subs_without ..
  note c = calm_stream_op [OF assms(1) t(2,3) worlds.stop_stream_R [OF t(1)] pendings.stop_stream_R [OF t(1)]]
  obtain u where u: "put_response_helper fuel t STREAM_STOPPED (rq_ticket q) None = Inr (1, u)" "calm n u" "sm_smreqbuf u = sm_smreqbuf t"
    "sm_sensors u = sm_sensors t"
    by (rule calm_helper [OF c(1)])
  note us = subscriptions_sensors [OF u(4)]
  show ?thesis by (rule that [of u]) (use t(1) c u us sub in \<open>simp_all add: serve_stop_def SM_ERROR_def\<close>)
qed

lemma calm_serve:
  assumes "calm n s" and "\<forall>q\<in>set (requests (sm_smreqbuf s)). rq_rtype q \<noteq> SM_REQ_ONESHOT"
  obtains t where "serve_request fuel s = Inr t" "calm n t" "requests (sm_smreqbuf t) = tl (requests (sm_smreqbuf s))"
    "subscriptions t = foldl serve_spec (subscriptions s) (take 1 (requests (sm_smreqbuf s)))"
proof -
  have inv: "sm_inv s" "buffers_ok s" "sm_adqueue s = ADNull" using assms(1) sm_inv_buffers [of s] by (simp_all add: calm_def)
  obtain q s1 where g: "get_request_helper s = Inr (q, s1)" "sm_inv s1" "rq_rtype q = SM_REQ_INVALID \<or> request_ok q"
    using get_request_helper_safe [OF inv(1)] by blast
  have g': "get_request s = (q, s1)" using g(1) inv(3) by (simp add: get_request_helper_def)
  have s1: "s1 = s\<lparr>sm_smreqbuf := sm_smreqbuf s1\<rparr>" using g' by (auto simp: get_request_def split_def Let_def)
  note e = get_request_effect [OF inv(2) g']
  have "sm_accel_log s1 = sm_accel_log s \<and> sm_orient_log s1 = sm_orient_log s \<and> sm_light_log s1 = sm_light_log s
      \<and> sm_prox_log s1 = sm_prox_log s \<and> sm_gyro_log s1 = sm_gyro_log s"
    by (subst (1 2 3 4 5) s1) simp
  moreover have "no_oneshots s1" using e assms(1) by (simp add: calm_def no_oneshots_def)
  ultimately have c1: "calm n s1" using worlds.request [OF g(1)] by (intro calm_keep [OF assms(1) g(2)]) simp_all
  have r1: "requests (sm_smreqbuf s1) = tl (requests (sm_smreqbuf s))" using e by (simp add: drop_Suc)
  have no: "rq_rtype q \<noteq> SM_REQ_ONESHOT"
    using e assms(2) by (auto simp: sm_req_codes simp del: ring_list_empty_iff split: if_splits)
  have sub1: "subscriptions s1 = subscriptions s" using e by (intro subscriptions_sensors) simp
  have spec: "foldl serve_spec (subscriptions s) (take 1 (requests (sm_smreqbuf s))) = serve_spec (subscriptions s) q"
  proof (cases "requests (sm_smreqbuf s)")
    case Nil
    with e have "rq_rtype q = SM_REQ_INVALID" by simp
    with Nil show ?thesis by (simp add: serve_spec_def sm_req_codes del: ring_list_empty_iff)
  next
    case (Cons q' qs)
    with e have "q' = q" by simp
    with Cons show ?thesis by simp
  qed
  consider "rq_rtype q = SM_REQ_START" | "rq_rtype q = SM_REQ_STOP"
    | "rq_rtype q \<noteq> SM_REQ_START" "rq_rtype q \<noteq> SM_REQ_STOP" by blast
  then show ?thesis
  proof cases
    case 1
    then have "sensor_ix (rq_sensor q)" "0 < rq_freq q" using g(3) by (auto simp: request_ok_def sm_req_codes)
    then obtain t where t: "serve_start fuel s1 q = Inr t" "calm n t" "sm_smreqbuf t = sm_smreqbuf s1"
      "subscriptions t = (subscriptions s1)[nat (rq_sensor q) :=
        filter (\<lambda>(ticket, freq). ticket \<noteq> rq_ticket q) (subscriptions s1 ! nat (rq_sensor q)) @ [(rq_ticket q, rq_freq q)]]"
      by (rule calm_start [OF c1])
    have "subscriptions t = serve_spec (subscriptions s) q" unfolding t(4) sub1 serve_spec_def using 1 by (simp add: Let_def)
    with 1 g(1) r1 t(1-3) show ?thesis by (intro that [of t]) (simp_all add: serve_request_def spec [unfolded One_nat_def])
  next
    case 2
    then have "sensor_ix (rq_sensor q)" using g(3) by (auto simp: request_ok_def sm_req_codes)
    then obtain t where t: "serve_stop fuel s1 q = Inr t" "calm n t" "sm_smreqbuf t = sm_smreqbuf s1"
      "subscriptions t = (subscriptions s1)[nat (rq_sensor q) :=
        filter (\<lambda>(ticket, freq). ticket \<noteq> rq_ticket q) (subscriptions s1 ! nat (rq_sensor q))]"
      by (rule calm_stop [OF c1])
    have "subscriptions t = serve_spec (subscriptions s) q"
      unfolding t(4) sub1 serve_spec_def using 2 by (simp add: Let_def sm_req_codes)
    with 2 g(1) r1 t(1-3) show ?thesis by (intro that [of t]) (simp_all add: serve_request_def spec [unfolded One_nat_def] sm_req_codes)
  next
    case 3
    then have "serve_spec (subscriptions s) q = subscriptions s1" by (simp add: serve_spec_def Let_def sub1)
    with 3 no g(1) c1 r1 show ?thesis by (intro that [of s1]) (simp_all add: serve_request_def spec [unfolded One_nat_def])
  qed
qed

section \<open>The rounds\<close>

lemma calm_record:
  assumes "calm (Suc n) s"
  obtains t where "record_sample ev s = Inr t" "calm n t" "sm_smreqbuf t = sm_smreqbuf s" "sm_sensors t = sm_sensors s"
proof -
  have "logs_room s" using assms by (simp add: calm_def logs_below_def logs_room_def)
  then obtain t where t: "record_sample ev s = Inr t" "sm_sensors t = sm_sensors s" "sm_smreqbuf t = sm_smreqbuf s"
    using record_sample_room [of s ev] by (auto simp: keeps_def)
  have "sm_inv t" using record_sample_safe [of s ev] t(1) assms by (simp add: calm_def)
  moreover have "world_frame s t" using t(1) by (rule worlds.record_sample_R)
  moreover have "logs_below n t"
    using t(1) assms by (auto simp: record_sample_def log_sample_def calm_def logs_below_def ask_def Let_def split: if_splits)
  ultimately have "calm n t"
    using t(2) assms calm_keep [of n "s\<lparr>sm_accel_log := sm_accel_log t, sm_orient_log := sm_orient_log t,
      sm_light_log := sm_light_log t, sm_prox_log := sm_prox_log t, sm_gyro_log := sm_gyro_log t\<rparr>" t]
    by (simp add: calm_def mem_ok_def logs_below_def no_oneshots_def world_frame_def)
  with t that show ?thesis by blast
qed

lemma calm_upd:
  assumes "calm n s" and "sensor_ok (f (sensor_at s i))" and "\<And>sn. sn_oneshots (f sn) = sn_oneshots sn"
  shows "calm n (upd_sensor i f s)"
proof (rule calm_keep [OF assms(1)])
  show "sm_inv (upd_sensor i f s)" using assms(1,2) by (simp add: calm_def sm_inv_upd)
  show "no_oneshots (upd_sensor i f s)" using assms(1,3) unfolding calm_def no_oneshots_map
    by (simp only: upd_sensor_oneshots) blast
qed (simp_all add: world_frame_def, simp_all add: upd_sensor_def)

lemma calm_notify:
  assumes "calm n s" and "stream_ok st"
  obtains st' t where "notify_stream fuel s ev st = Inr (st', t)" "calm n t" "sm_sensors t = sm_sensors s"
    "sm_smreqbuf t = sm_smreqbuf s" "stream_ok st'" "st_reg st' = st_reg st" "st_freq st' = st_freq st"
proof -
  obtain st1 where st1: "buffer_sample ev st = Inr st1" "st_event_buffer_level st1 = SOURCE_BUFFER_SIZE"
    "length (st_event_buffer st1) = SOURCE_BUFFER_SIZE" "length (st_event_rtpts_buffer st1) = SOURCE_BUFFER_SIZE"
    using buffer_sample_safe [OF assms(2)] by blast
  then obtain e ts where l: "st_event_buffer st1 = [e]" "st_event_rtpts_buffer st1 = [ts]"
    by (auto simp: SOURCE_BUFFER_SIZE_def length_Suc_conv)
  obtain t where t: "send_packet fuel s [e] [ts] 1 (st_retransmit st1) STREAM_UPDATE (st_reg st1) = Inr t" "calm n t"
    "sm_sensors t = sm_sensors s" "sm_smreqbuf t = sm_smreqbuf s"
    by (rule calm_send [OF assms(1)])
  have rep: "st_repeat st = REPETITION_OFF" using assms(2) by (simp add: stream_ok_def)
  obtain st' where n: "notify_stream fuel s ev st = Inr (st', t)"
    using t(1) st1 rep l by (simp add: notify_stream_def notify_once_def SOURCE_BUFFER_SIZE_def)
  have "stream_ok st' \<and> st_reg st' = st_reg st"
    using notify_stream_safe [OF _ assms(2), of s fuel ev] n assms(1) by (simp add: calm_def)
  moreover have "st_freq st' = st_freq st"
    using n rep by (auto simp: notify_stream_def notify_once_def buffer_sample_def bindR_Inr_iff split: if_splits)
  ultimately show ?thesis using n t that by blast
qed

lemma calm_notify_streams:
  assumes "calm n s" and "sensor_ix (ev_type ev)"
    and "sn_streams (sensor_at s (ev_type ev)) = pre @ rest" and "k = length pre"
  shows "\<exists>t. notify_streams fuel ev k rest s = Inr t \<and> calm n t \<and> sm_smreqbuf t = sm_smreqbuf s
    \<and> subscriptions t = subscriptions s"
  using assms
proof (induction rest arbitrary: s pre k)
  case (Cons st rest)
  let ?i = "ev_type ev"
  have inv: "sm_inv s" using Cons.prems(1) by (simp add: calm_def)
  have sok: "sensor_ok (sensor_at s ?i)" using inv Cons.prems(2) by (rule sm_inv_at)
  then have "stream_ok st" using Cons.prems(3) by (simp add: sensor_ok_def)
  then obtain st' s1 where s1: "notify_stream fuel s ev st = Inr (st', s1)" "calm n s1" "sm_sensors s1 = sm_sensors s"
    "sm_smreqbuf s1 = sm_smreqbuf s" "stream_ok st'" "st_reg st' = st_reg st" "st_freq st' = st_freq st"
    by (rule calm_notify [OF Cons.prems(1)])
  have at: "sensor_at s1 ?i = sensor_at s ?i" using s1(3) by (simp add: sensor_at_def)
  let ?u = "upd_sensor ?i (\<lambda>sn. sn\<lparr>sn_streams := (sn_streams sn)[k := st']\<rparr>) s1"
  have "calm n ?u" using s1 at sok Cons.prems(3,4) by (intro calm_upd sensor_ok_stream_upd) auto
  moreover have "sn_streams (sensor_at ?u ?i) = (pre @ [st']) @ rest"
    using Cons.prems at s1(3) by (simp add: sensor_at_upd sensors_ok_length [OF sm_inv_sensors [OF inv]])
  ultimately obtain t where t: "notify_streams fuel ev (Suc k) rest ?u = Inr t" "calm n t" "sm_smreqbuf t = sm_smreqbuf ?u"
    "subscriptions t = subscriptions ?u"
    using Cons.IH [of ?u "pre @ [st']" "Suc k"] Cons.prems(2,4) by auto
  have "subscriptions ?u = subscriptions s1"
    by (rule subscriptions_upd_same) (simp add: at Cons.prems(3,4) s1(6,7))
  with s1 t subscriptions_sensors [OF s1(3)] show ?case by simp
qed simp

lemma calm_process:
  assumes "calm (Suc n) s" and "sensor_ix (ev_type ev)"
  shows "\<exists>t. process_event fuel qselect ev s = Inr t \<and> calm n t \<and> sm_smreqbuf t = sm_smreqbuf s
    \<and> subscriptions t = subscriptions s"
proof -
  let ?i = "ev_type ev"
  obtain s1 where s1: "record_sample ev s = Inr s1" "calm n s1" "sm_smreqbuf s1 = sm_smreqbuf s" "sm_sensors s1 = sm_sensors s"
    by (rule calm_record [OF assms(1)])
  define s2 where "s2 = (if qselect = SAMPLES_QUEUE
    then upd_sensor ?i (\<lambda>sn. sn\<lparr>sn_event_cache := ev, sn_cache_valid := 1\<rparr>) s1 else s1)"
  have ix1: "sensor_ok (sensor_at s1 ?i)" using s1(2) assms(2) by (simp add: calm_def sm_inv_at)
  have c2: "calm n s2" "sm_smreqbuf s2 = sm_smreqbuf s"
    using s1 ix1 by (simp_all add: s2_def calm_upd)
  have sub2: "subscriptions s2 = subscriptions s"
    using subscriptions_sensors [OF s1(4)]
      subscriptions_upd_same [of "\<lambda>sn. sn\<lparr>sn_event_cache := ev, sn_cache_valid := 1\<rparr>" s1 ?i] by (simp add: s2_def)
  have "length (sm_sensors s2) = ZE_NUMSENSORS"
    using c2(1) sensors_ok_length [OF sm_inv_sensors] by (simp add: calm_def)
  then have "sensor_at s2 ?i \<in> set (sm_sensors s2)"
    using assms(2) by (auto simp: sensor_at_def sensor_ix_def nat_less_iff)
  then have "serve_oneshots fuel ev s2 = Inr s2"
    using c2(1) by (simp add: serve_oneshots_def calm_def no_oneshots_def)
  moreover obtain t where "notify_streams fuel ev 0 (sn_streams (sensor_at s2 ?i)) s2 = Inr t" "calm n t"
    "sm_smreqbuf t = sm_smreqbuf s2" "subscriptions t = subscriptions s2"
    using calm_notify_streams [OF c2(1) assms(2), of "[]" "sn_streams (sensor_at s2 ?i)" 0 fuel] by auto
  ultimately show ?thesis
    using s1(1) assms(2) c2(2) sub2 by (simp add: process_event_def get_sensor_def s2_def [symmetric] Let_def)
qed

text \<open>Fetching an event changes neither the logs nor the oneshots, and the request buffer not at all.\<close>

lemma fetch_keeps:
  fixes s :: sm_state
  defines "keeps_rest t \<equiv> map sn_oneshots (sm_sensors t) = map sn_oneshots (sm_sensors s) \<and> sm_smreqbuf t = sm_smreqbuf s
    \<and> sm_accel_log t = sm_accel_log s \<and> sm_orient_log t = sm_orient_log s \<and> sm_light_log t = sm_light_log s
    \<and> sm_prox_log t = sm_prox_log s \<and> sm_gyro_log t = sm_gyro_log s \<and> subscriptions t = subscriptions s"
  shows "keeps_rest (snd (fetch_event qselect s))"
proof -
  have sub: "subscriptions (write_cache ev u) = subscriptions u" for ev u
    unfolding write_cache_def by (rule subscriptions_upd_same) (simp add: write_last_event_SYN_def)
  have cache: "keeps_rest (write_cache ev u)" if "keeps_rest u" for ev u
    using that unfolding keeps_rest_def sub
    by (simp add: write_cache_def write_last_event_SYN_def upd_sensor_oneshots)
      (simp add: upd_sensor_def)
  have "keeps_rest (snd (fetch_sample es u))" if "keeps_rest u" for es u
    using that
  proof (induction es u rule: fetch_sample.induct)
    case (3 event es u)
    then show ?case using cache by (cases "event_based event") (simp_all add: keeps_rest_def)
  qed (simp_all add: keeps_rest_def)
  moreover have "keeps_rest s" "keeps_rest (snd (fetch_carrier s))"
    by (simp_all add: keeps_rest_def fetch_carrier_def Let_def split_def)
  ultimately show ?thesis by (cases qselect) (simp_all add: fetch_event_def)
qed

lemma calm_fetch:
  assumes "calm n s"
  shows "calm n (snd (fetch_event qselect s))"
  using fetch_keeps [where s = s and qselect = qselect] fetch_event_inv [of s qselect] worlds.fetch_event_R [of s qselect] assms
  by (intro calm_keep [OF assms]) (simp_all add: round_inv_def calm_def no_oneshots_map del: set_map)

lemma calm_round:
  assumes "calm (Suc n) s"
  shows "\<exists>t. sample_round fuel qselect s = Inr t \<and> calm n t \<and> sm_smreqbuf t = sm_smreqbuf s \<and> subscriptions t = subscriptions s"
proof -
  obtain ev s1 where f: "fetch_event qselect s = (ev, s1)" by force
  have c: "calm (Suc n) s1" "sm_smreqbuf s1 = sm_smreqbuf s" "subscriptions s1 = subscriptions s"
    using calm_fetch [OF assms, of qselect] fetch_keeps [where s = s and qselect = qselect] f by simp_all
  show ?thesis
  proof (cases ev)
    case None
    with c f show ?thesis by (simp add: sample_round_def calm_def logs_below_def)
  next
    case (Some e)
    have "sensor_ix (ev_type e)"
      using fetch_event_inv [of s qselect] assms f Some by (simp add: round_inv_def calm_def)
    from calm_process [OF c(1) this, of fuel qselect] f c(2,3) Some show ?thesis by (simp add: sample_round_def)
  qed
qed

lemma calm_rounds:
  "calm (n + m) s \<Longrightarrow> \<exists>t. sample_rounds fuel m qselect s = Inr t \<and> calm n t \<and> sm_smreqbuf t = sm_smreqbuf s
    \<and> subscriptions t = subscriptions s"
proof (induction m arbitrary: s qselect)
  case (Suc m)
  then obtain u where u: "sample_round fuel qselect s = Inr u" "calm (n + m) u" "sm_smreqbuf u = sm_smreqbuf s"
    "subscriptions u = subscriptions s"
    using calm_round [of "n + m" s fuel qselect] by auto
  from Suc.IH [OF u(2), of "other_queue qselect"] u show ?case by auto
qed simp

lemma calm_iteration:
  assumes "calm (n + QUEUE_REQ_RATIO) s" and "\<forall>q\<in>set (requests (sm_smreqbuf s)). rq_rtype q \<noteq> SM_REQ_ONESHOT"
  obtains t where "thread_iteration fuel s = Inr t" "calm n t" "requests (sm_smreqbuf t) = tl (requests (sm_smreqbuf s))"
    "subscriptions t = foldl serve_spec (subscriptions s) (take 1 (requests (sm_smreqbuf s)))"
proof -
  obtain u where u: "serve_request fuel s = Inr u" "calm (n + QUEUE_REQ_RATIO) u"
    "requests (sm_smreqbuf u) = tl (requests (sm_smreqbuf s))"
    "subscriptions u = foldl serve_spec (subscriptions s) (take 1 (requests (sm_smreqbuf s)))"
    by (rule calm_serve [OF assms])
  obtain t where t: "sample_rounds fuel QUEUE_REQ_RATIO SAMPLES_QUEUE u = Inr t" "calm n t" "sm_smreqbuf t = sm_smreqbuf u"
    "subscriptions t = subscriptions u"
    using calm_rounds [OF u(2)] by blast
  have "thread_iteration fuel s = Inr t" using u(1) t(1) by (simp add: thread_iteration_def)
  with that t u(3,4) show ?thesis by simp
qed

section \<open>Properties\<close>

text \<open>\<open>n\<close> iterations with nothing from outside in between.\<close>

fun iterations :: "nat \<Rightarrow> nat \<Rightarrow> sm_state \<Rightarrow> sm_state outcome" where
  "iterations fuel 0 s = Inr s"
| "iterations fuel (Suc n) s = bindR (thread_iteration fuel s) (iterations fuel n)"

text \<open>
  C13. Every request is served. From a reachable state with memory, where the CoAP server takes a response whenever
  the thread waits for it, no oneshot is pending or asked for, and the logs have room for the samples of the iterations, any number
  \<open>k\<close> of iterations returns. The first \<open>k\<close> requests have then left the request buffer, in their order, and have had their effect, in that
  order: a START has added a stream with its ticket and frequency at the end of the list of its sensor, in the place of one with that ticket, a STOP has
  removed the stream with its ticket, and the samples in between have added and removed none.
\<close>

theorem requests_served:
  assumes "sm_reachable fuel s"
    and "\<forall>n. w_malloc (sm_world s) n" and "\<forall>n. fst (w_wait (sm_world s) n) = 0"
    and "\<forall>sn\<in>set (sm_sensors s). sn_oneshots sn = []"
    and "\<forall>q\<in>set (requests (sm_smreqbuf s)). rq_rtype q \<noteq> SM_REQ_ONESHOT"
    and "\<forall>l\<in>{sm_accel_log s, sm_orient_log s, sm_light_log s, sm_prox_log s, sm_gyro_log s}.
      lg_counter l + k * QUEUE_REQ_RATIO \<le> NUM_SAMPLES"
  shows "\<exists>t. iterations fuel k s = Inr t \<and> requests (sm_smreqbuf t) = drop k (requests (sm_smreqbuf s))
    \<and> subscriptions t = foldl serve_spec (subscriptions s) (take k (requests (sm_smreqbuf s)))"
proof -
  have "\<exists>t. iterations fuel k s = Inr t \<and> requests (sm_smreqbuf t) = drop k (requests (sm_smreqbuf s))
      \<and> subscriptions t = foldl serve_spec (subscriptions s) (take k (requests (sm_smreqbuf s)))"
    if "calm (k * QUEUE_REQ_RATIO) s" "\<forall>q\<in>set (requests (sm_smreqbuf s)). rq_rtype q \<noteq> SM_REQ_ONESHOT" for k s
    using that
  proof (induction k arbitrary: s)
    case (Suc k)
    let ?rs = "requests (sm_smreqbuf s)"
    from Suc have "calm (k * QUEUE_REQ_RATIO + QUEUE_REQ_RATIO) s" by (simp add: add.commute)
    then obtain u where u: "thread_iteration fuel s = Inr u" "calm (k * QUEUE_REQ_RATIO) u"
      "requests (sm_smreqbuf u) = tl ?rs" "subscriptions u = foldl serve_spec (subscriptions s) (take 1 ?rs)"
      using Suc.prems(2) by (rule calm_iteration)
    have "\<forall>q\<in>set (requests (sm_smreqbuf u)). rq_rtype q \<noteq> SM_REQ_ONESHOT"
      using Suc.prems(2) unfolding u(3) by (metis list.sel(2) list.set_sel(2))
    from Suc.IH [OF u(2) this] obtain t where t: "iterations fuel k u = Inr t" "requests (sm_smreqbuf t) = drop k (tl ?rs)"
      "subscriptions t = foldl serve_spec (subscriptions u) (take k (tl ?rs))"
      unfolding u(3) by blast
    have split: "take (Suc k) ?rs = take 1 ?rs @ take k (tl ?rs)" by (cases ?rs) (simp_all del: ring_list_empty_iff)
    have "subscriptions t = foldl serve_spec (subscriptions s) (take (Suc k) ?rs)" unfolding t(3) u(4) split by simp
    with t u(1) show ?case by (simp add: drop_Suc del: ring_list_empty_iff)
  qed simp
  moreover have "calm (k * QUEUE_REQ_RATIO) s"
    using sm_reachable_inv [OF assms(1)] assms by (simp add: calm_def mem_ok_def no_oneshots_def logs_below_def)
  ultimately show ?thesis using assms(5) by blast
qed

theorem requests_served_witness:
  "\<exists>t. iterations 0 1 asked_state = Inr t \<and> requests (sm_smreqbuf t) = [] \<and> subscriptions t ! 1 = [(7, 10)]"
proof -
  have w: "w_malloc (sm_world asked_state) = w_malloc quiet_world" "w_wait (sm_world asked_state) = w_wait quiet_world"
    by (simp_all add: asked_state_def quiet_state_def)
  have r: "requests (sm_smreqbuf asked_state) = [start_request]"
    using put_request_room_list [of "sm_smreqbuf quiet_state" id SM_REQ_START 1 7 10] quiet_buffers(2)
      init_sm_buf_wf [of True]
    by (simp add: asked_state_def start_request_def quiet_state_def init_sm_buf_def)
  have "\<exists>t. iterations 0 1 asked_state = Inr t \<and> requests (sm_smreqbuf t) = drop 1 (requests (sm_smreqbuf asked_state))
      \<and> subscriptions t = foldl serve_spec (subscriptions asked_state) (take 1 (requests (sm_smreqbuf asked_state)))"
  proof (rule requests_served [OF asked_reachable])
    show "\<forall>sn\<in>set (sm_sensors asked_state). sn_oneshots sn = []"
      by (simp add: asked_state_def quiet_state_def blank_sensor_def)
    show "\<forall>l\<in>{sm_accel_log asked_state, sm_orient_log asked_state, sm_light_log asked_state, sm_prox_log asked_state,
        sm_gyro_log asked_state}. lg_counter l + 1 * QUEUE_REQ_RATIO \<le> NUM_SAMPLES"
      by (simp add: asked_state_def quiet_state_def empty_log_def QUEUE_REQ_RATIO_def NUM_SAMPLES_def)
  qed (use r in \<open>simp_all add: w quiet_world_def start_request_def sm_req_codes del: ring_list_empty_iff\<close>)
  moreover have "subscriptions asked_state = replicate 15 []"
    by (simp add: subscriptions_def all_streams_def asked_state_def quiet_state_def blank_sensor_def comp_def map_replicate_const)
  ultimately show ?thesis unfolding r by (auto simp: serve_spec_def start_request_def)
qed

end
