(* ===== verification/ServerStats.thy ===== *)
theory ServerStats
  imports CoapServer
begin

text \<open>
  What the CoAP server thread writes to the log when it ends, with the copy of a resource's name into a buffer of 50 bytes
  and the line buffer of 100 bytes of \<open>ze_coap_server_root.h\<close>. The resources and their
  subscribers are libcoap's; the counters of \<open>globals_test.h\<close>, which is not in the repository, are a record.
\<close>

section \<open>Formatting\<close>

text \<open>\<open>%d\<close>.\<close>

fun dec_digits :: "nat \<Rightarrow> byte list" where
  "dec_digits q = (if q < 10 then [digit q] else dec_digits (q div 10) @ [digit (q mod 10)])"

declare dec_digits.simps [simp del]

definition fmt_d :: "int \<Rightarrow> byte list" where
  "fmt_d v = (let x = i32 v in (if x < 0 then [45] else []) @ dec_digits (nat \<bar>x\<bar>))"

text \<open>\<open>sprintf(logstr, ...)\<close> and \<open>FWRITE\<close>: the text and its NUL must fit in the buffer.\<close>

definition LOGSTR_SIZE :: nat where "LOGSTR_SIZE = 100"

definition log_line :: "byte list \<Rightarrow> byte list outcome" where
  "log_line txt = (if length txt + 1 \<le> LOGSTR_SIZE then Inr txt else Inl OutOfBounds)"

fun log_lines :: "byte list list \<Rightarrow> byte list list outcome" where
  "log_lines [] = Inr []"
| "log_lines (l # ls) = bindR (log_line l) (\<lambda>l'. bindR (log_lines ls) (\<lambda>ls'. Inr (l' # ls')))"

definition newline :: "byte list" where "newline = [10]"

section \<open>Copying a name\<close>

text \<open>\<open>i\<close> bytes are copied, \<open>n\<close> are left; then the NUL. The copy does not know how long \<open>dest\<close> is.\<close>

fun strscpy_loop :: "nat \<Rightarrow> nat \<Rightarrow> byte list \<Rightarrow> byte list \<Rightarrow> (byte list \<times> nat) outcome" where
  "strscpy_loop i 0 dest src = bindR (poke i [0] dest) (\<lambda>d. Inr (d, i))"
| "strscpy_loop i (Suc n) dest src =
     (if i < length src then bindR (poke i [src ! i] dest) (\<lambda>d. strscpy_loop (Suc i) n d src) else Inl OutOfBounds)"

definition s_strscpy :: "byte list \<Rightarrow> byte list \<Rightarrow> nat \<Rightarrow> (byte list \<times> nat) outcome" where
  "s_strscpy dest src len = strscpy_loop 0 len dest src"

section \<open>The statistics\<close>

record net_counters =
  UDP_OUT_counter :: int
  UDP_OUT_octects :: int
  OUT_NON_counter :: int
  OUT_NON_octects :: int
  OUT_CON_counter :: int
  OUT_CON_octects :: int
  OUT_RST_counter :: int
  OUT_RST_octects :: int
  OUT_ACK_counter :: int
  OUT_ACK_octects :: int
  UDP_IN_counter :: int
  UDP_IN_octects :: int
  IN_NON_counter :: int
  IN_NON_octects :: int
  IN_CON_counter :: int
  IN_CON_octects :: int
  IN_RST_counter :: int
  IN_RST_octects :: int
  IN_ACK_counter :: int
  IN_ACK_octects :: int
  RETR_counter :: int
  ACCEL_RETR_counter :: int
  LIGHT_RETR_counter :: int
  GYRO_RETR_counter :: int
  PROX_RETR_counter :: int
  Duplicate_Count :: int

text \<open>The root clears them all before it sets anything up.\<close>

definition reset_counters :: net_counters where
  "reset_counters = \<lparr>UDP_OUT_counter = 0, UDP_OUT_octects = 0, OUT_NON_counter = 0, OUT_NON_octects = 0, OUT_CON_counter = 0,
     OUT_CON_octects = 0, OUT_RST_counter = 0, OUT_RST_octects = 0, OUT_ACK_counter = 0, OUT_ACK_octects = 0,
     UDP_IN_counter = 0, UDP_IN_octects = 0, IN_NON_counter = 0, IN_NON_octects = 0, IN_CON_counter = 0, IN_CON_octects = 0,
     IN_RST_counter = 0, IN_RST_octects = 0, IN_ACK_counter = 0, IN_ACK_octects = 0, RETR_counter = 0, ACCEL_RETR_counter = 0,
     LIGHT_RETR_counter = 0, GYRO_RETR_counter = 0, PROX_RETR_counter = 0, Duplicate_Count = 0\<rparr>"

text \<open>A resource of the context: its name, which is not terminated, and the registrations in its list of subscribers.\<close>

record resource_entry =
  ru_uri :: "byte list"
  ru_subscribers :: "int list"

fun report_subscribers :: "registrations \<Rightarrow> byte list \<Rightarrow> int \<Rightarrow> int list \<Rightarrow> byte list list outcome" where
  "report_subscribers regs t subi [] = Inr []"
| "report_subscribers regs t subi (sub # next) =
     (case regs sub of
        None \<Rightarrow> Inl UseAfterFree
      | Some r \<Rightarrow>
          bindR (log_line (ascii ''-- Resource:'' @ takeWhile (\<lambda>b. b \<noteq> 0) t @ ascii '' registration:'' @ fmt_d subi @ newline)) (\<lambda>l1.
          bindR (log_line (ascii ''Data packets sent (first time):'' @ fmt_d (rg_datapackcount r) @ newline)) (\<lambda>l2.
          bindR (report_subscribers regs t (subi + 1) next) (\<lambda>ls. Inr (l1 # l2 # ls)))))"

definition NAME_SIZE :: nat where "NAME_SIZE = 50"

fun report_resources :: "registrations \<Rightarrow> resource_entry list \<Rightarrow> byte list list outcome" where
  "report_resources regs [] = Inr []"
| "report_resources regs (s # next) =
     bindR (s_strscpy (replicate NAME_SIZE 0) (ru_uri s) (length (ru_uri s))) (\<lambda>(t, _).
     bindR (report_subscribers regs t 1 (ru_subscribers s)) (\<lambda>ls.
     bindR (report_resources regs next) (\<lambda>ls'. Inr (ls @ ls'))))"

definition counter_line :: "string \<Rightarrow> int \<Rightarrow> byte list" where
  "counter_line label v = ascii label @ fmt_d v @ newline"

definition octets_line :: "string \<Rightarrow> int \<Rightarrow> byte list" where
  "octets_line label v = ascii label @ fmt_d v @ ascii '' (CoAP hdr incl)'' @ newline"

definition counter_lines :: "net_counters \<Rightarrow> int \<Rightarrow> int \<Rightarrow> byte list list" where
  "counter_lines c sr_sent rr_rec =
     [counter_line ''UDP datagrams sent:'' (UDP_OUT_counter c),
      counter_line ''UDP payload octects sent:'' (UDP_OUT_octects c),
      counter_line ''NON messages sent:'' (OUT_NON_counter c),
      octets_line ''NON octects sent:'' (OUT_NON_octects c),
      counter_line ''CON messages sent:'' (OUT_CON_counter c),
      octets_line ''CON octects sent:'' (OUT_CON_octects c),
      counter_line ''RST messages sent:'' (OUT_RST_counter c),
      octets_line ''RST octects sent:'' (OUT_RST_octects c),
      counter_line ''ACK messages sent:'' (OUT_ACK_counter c),
      octets_line ''ACK octects sent:'' (OUT_ACK_octects c),
      counter_line ''UDP datagrams received:'' (UDP_IN_counter c),
      counter_line ''UDP payload octects received:'' (UDP_IN_octects c),
      counter_line ''NON messages received:'' (IN_NON_counter c),
      octets_line ''NON octects received:'' (IN_NON_octects c),
      counter_line ''CON messages received:'' (IN_CON_counter c),
      octets_line ''CON octects received:'' (IN_CON_octects c),
      counter_line ''RST messages received:'' (IN_RST_counter c),
      octets_line ''RST octects received:'' (IN_RST_octects c),
      counter_line ''ACK messages received:'' (IN_ACK_counter c),
      octets_line ''ACK octects received:'' (IN_ACK_octects c),
      counter_line ''Total SR sent:'' sr_sent,
      counter_line ''Total RR received:'' rr_rec,
      counter_line ''Total retransmissions performed:'' (RETR_counter c),
      counter_line ''Accel retransmissions:'' (ACCEL_RETR_counter c),
      counter_line ''Gyro retransmissions:'' (GYRO_RETR_counter c),
      counter_line ''Prox retransmissions:'' (PROX_RETR_counter c),
      counter_line ''Light retransmissions:'' (LIGHT_RETR_counter c)]"

definition server_stats :: "net_counters \<Rightarrow> int \<Rightarrow> resource_entry list \<Rightarrow> server \<Rightarrow> byte list list outcome" where
  "server_stats c rr_rec resources sv =
     bindR (log_lines [ascii ''-- CoAP level stats start ------'' @ newline,
       ascii ''Response queue residual size:'' @ fmt_d (int (counter (sv_notbuf sv))) @ newline]) (\<lambda>a.
     bindR (report_resources (sv_regs sv) resources) (\<lambda>b.
     bindR (log_lines (counter_lines c (sv_SR_SENT_counter sv) rr_rec)) (\<lambda>d.
     bindR (log_line (ascii ''-- CoAP level stats end ------'' @ newline @ newline)) (\<lambda>e. Inr (a @ b @ d @ [e])))))"

section \<open>Lengths\<close>

lemma length_dec_digits: "0 < n \<Longrightarrow> q < 10 ^ n \<Longrightarrow> length (dec_digits q) \<le> n"
proof (induction q arbitrary: n rule: dec_digits.induct)
  case (1 q)
  show ?case
  proof (cases "q < 10")
    case True
    with 1 show ?thesis by (simp add: dec_digits.simps [of q])
  next
    case False
    then obtain m where n: "n = Suc m" "0 < m" using 1(2,3) by (cases n; cases "n = 1") auto
    then have "q div 10 < 10 ^ m" using 1(3) by (simp add: less_mult_imp_div_less mult.commute)
    with 1(1) False n show ?thesis by (simp add: dec_digits.simps [of q])
  qed
qed

lemma length_fmt_d: "length (fmt_d v) \<le> 11"
proof -
  have "in_i32 (i32 v)" by simp
  then have "nat \<bar>i32 v\<bar> < 10 ^ 10" by (auto simp: in_i32_def)
  from length_dec_digits [OF _ this] have "length (dec_digits (nat \<bar>i32 v\<bar>)) \<le> 10" by simp
  then show ?thesis by (cases "i32 v < 0") (simp_all add: fmt_d_def Let_def)
qed

lemma length_fmt_d_le [simp]: "11 \<le> n \<Longrightarrow> length (fmt_d v) \<le> n"
  using length_fmt_d [of v] by simp

lemma length_newline [simp]: "length newline = 1" by (simp add: newline_def)

lemma length_counter_line: "length (counter_line l v) \<le> length l + 12"
  by (simp add: counter_line_def)

lemma length_octets_line: "length (octets_line l v) \<le> length l + 28"
  by (simp add: octets_line_def)

lemma log_lines_fit: "\<forall>l\<in>set ls. length l < LOGSTR_SIZE \<Longrightarrow> log_lines ls = Inr ls"
  by (induction ls) (auto simp: log_line_def)

lemma counter_lines_fit: "\<forall>l\<in>set (counter_lines c a b). length l < LOGSTR_SIZE"
proof -
  have "length (counter_line l v) < LOGSTR_SIZE" "length (octets_line l v) < LOGSTR_SIZE" if "length l \<le> 40" for l v
    using that length_counter_line [of l v] length_octets_line [of l v] by (simp_all add: LOGSTR_SIZE_def)
  then show ?thesis by (simp add: counter_lines_def)
qed

text \<open>The copy writes the name and a NUL, or past the end of the buffer.\<close>

lemma strscpy_loop_eq:
  assumes "length pre = i" and "i + n \<le> length src"
  shows "strscpy_loop i n (pre @ post) src =
    (if n < length post then Inr (pre @ take n (drop i src) @ 0 # drop (Suc n) post, i + n) else Inl OutOfBounds)"
  using assms
proof (induction n arbitrary: i pre post)
  case 0
  then show ?case by (cases post) (auto simp: poke_def)
next
  case (Suc n)
  show ?case
  proof (cases post)
    case (Cons b post')
    then have p: "poke i [src ! i] (pre @ post) = Inr ((pre @ [src ! i]) @ post')"
      using Suc.prems by (simp add: poke_def)
    have "drop i src = src ! i # drop (Suc i) src" using Suc.prems by (simp add: Cons_nth_drop_Suc)
    with Suc p Cons show ?thesis using Suc.IH [of "pre @ [src ! i]" "Suc i" post'] by simp
  qed (use Suc.prems in \<open>simp add: poke_def\<close>)
qed

lemma s_strscpy_eq:
  "s_strscpy dest src (length src) =
    (if length src < length dest then Inr (src @ 0 # drop (Suc (length src)) dest, length src) else Inl OutOfBounds)"
  using strscpy_loop_eq [of "[]" 0 "length src" src dest] by (simp add: s_strscpy_def)

lemma report_subscribers_fit:
  assumes "\<forall>sub\<in>set subs. regs sub \<noteq> None" and "length (takeWhile (\<lambda>b. b \<noteq> 0) t) < NAME_SIZE"
  shows "\<exists>ls. report_subscribers regs t subi subs = Inr ls \<and> length ls = 2 * length subs \<and> (\<forall>l\<in>set ls. length l < LOGSTR_SIZE)"
  using assms(1)
proof (induction subs arbitrary: subi)
  case (Cons sub subs)
  then obtain r where r: "regs sub = Some r" by auto
  obtain ls where ls: "report_subscribers regs t (subi + 1) subs = Inr ls" "length ls = 2 * length subs"
    "\<forall>l\<in>set ls. length l < LOGSTR_SIZE" using Cons.IH [of "subi + 1"] Cons.prems by force
  have "length (takeWhile (\<lambda>b. b \<noteq> 0) t) + (length (fmt_d subi) + 28) \<le> 100"
    using assms(2) length_fmt_d [of subi] unfolding NAME_SIZE_def by linarith
  moreover have "length (fmt_d (rg_datapackcount r)) < 68"
    using le_less_trans [OF length_fmt_d [of "rg_datapackcount r"], of 68] by simp
  ultimately show ?case using r ls by (simp add: log_line_def LOGSTR_SIZE_def)
qed simp

lemma takeWhile_name: "length (takeWhile (\<lambda>b. b \<noteq> 0) (src @ 0 # rest)) \<le> length src"
proof -
  have "takeWhile (\<lambda>b. b \<noteq> 0) (src @ 0 # rest) = takeWhile (\<lambda>b. b \<noteq> 0) src"
    by (induction src) auto
  then show ?thesis by (simp add: length_takeWhile_le)
qed

lemma report_resources_fit:
  assumes "\<forall>s\<in>set resources. length (ru_uri s) < NAME_SIZE \<and> (\<forall>sub\<in>set (ru_subscribers s). regs sub \<noteq> None)"
  shows "\<exists>ls. report_resources regs resources = Inr ls \<and> length ls = 2 * length (concat (map ru_subscribers resources))
    \<and> (\<forall>l\<in>set ls. length l < LOGSTR_SIZE)"
  using assms
proof (induction resources)
  case (Cons s rest)
  let ?t = "ru_uri s @ 0 # drop (Suc (length (ru_uri s))) (replicate NAME_SIZE 0)"
  have c: "s_strscpy (replicate NAME_SIZE 0) (ru_uri s) (length (ru_uri s)) = Inr (?t, length (ru_uri s))"
    using Cons.prems by (simp add: s_strscpy_eq)
  have "length (takeWhile (\<lambda>b. b \<noteq> 0) ?t) < NAME_SIZE"
    using le_less_trans [OF takeWhile_name, of "ru_uri s" NAME_SIZE] Cons.prems by (simp del: drop_replicate)
  then obtain ls where "report_subscribers regs ?t 1 (ru_subscribers s) = Inr ls"
    "length ls = 2 * length (ru_subscribers s)" "\<forall>l\<in>set ls. length l < LOGSTR_SIZE"
    using report_subscribers_fit [of "ru_subscribers s" regs ?t 1] Cons.prems by auto
  moreover obtain ls' where "report_resources regs rest = Inr ls'" "length ls' = 2 * length (concat (map ru_subscribers rest))"
    "\<forall>l\<in>set ls'. length l < LOGSTR_SIZE" using Cons by auto
  ultimately show ?case using c by auto
qed simp

lemma report_resources_overflow:
  assumes "s \<in> set resources" and "NAME_SIZE \<le> length (ru_uri s)"
  shows "\<exists>e. report_resources regs resources = Inl e"
  using assms(1)
proof (induction resources)
  case (Cons s' rest)
  then consider "s' = s" | "s \<in> set rest" by auto
  then show ?case
  proof cases
    case 1
    with assms(2) show ?thesis by (simp add: s_strscpy_eq)
  next
    case 2
    with Cons.IH show ?thesis
      by (cases "s_strscpy (replicate NAME_SIZE 0) (ru_uri s') (length (ru_uri s'))")
        (auto simp: bindR_Inl_iff split_def, metis sum.exhaust)
  qed
qed simp

lemma stats_head:
  "log_lines [ascii ''-- CoAP level stats start ------'' @ newline, ascii ''Response queue residual size:'' @ fmt_d v @ newline]
    = Inr [ascii ''-- CoAP level stats start ------'' @ newline, ascii ''Response queue residual size:'' @ fmt_d v @ newline]"
  "length (fmt_d v) < 70"
  using le_less_trans [OF length_fmt_d [of v], of 70] by (simp_all add: log_line_def LOGSTR_SIZE_def)

lemma stats_tail:
  "log_line (ascii ''-- CoAP level stats end ------'' @ newline @ newline)
    = Inr (ascii ''-- CoAP level stats end ------'' @ newline @ newline)"
  by (simp add: log_line_def LOGSTR_SIZE_def)

lemma server_stats_written:
  assumes "\<forall>s\<in>set resources. length (ru_uri s) < NAME_SIZE \<and> (\<forall>sub\<in>set (ru_subscribers s). sv_regs sv sub \<noteq> None)"
  shows "\<exists>ls. server_stats c rr resources sv = Inr ls \<and> (\<forall>l\<in>set ls. length l < LOGSTR_SIZE)
      \<and> length ls = 2 * length (concat (map ru_subscribers resources)) + 30"
proof -
  obtain ls where "report_resources (sv_regs sv) resources = Inr ls"
    "length ls = 2 * length (concat (map ru_subscribers resources))" "\<forall>l\<in>set ls. length l < LOGSTR_SIZE"
    using report_resources_fit [OF assms] by blast
  moreover have "length (counter_lines c (sv_SR_SENT_counter sv) rr) = 27" by (simp add: counter_lines_def)
  ultimately show ?thesis
    using counter_lines_fit [of c "sv_SR_SENT_counter sv" rr] stats_head(2) unfolding server_stats_def stats_head(1)
    by (simp add: stats_tail log_lines_fit LOGSTR_SIZE_def ball_Un del: log_lines.simps)
qed

section \<open>Properties\<close>

text \<open>
  The statistics of the server stay within their buffers: for all values of the counters, when every subscriber is a live
  registration, they are written exactly when the name of every resource has less than 50 bytes; then every line fits in the line buffer
  of 100 bytes with its NUL, and there are two for each subscriber and 30 others.
\<close>

theorem server_stats_fit:
  assumes "\<forall>s\<in>set resources. \<forall>sub\<in>set (ru_subscribers s). sv_regs sv sub \<noteq> None"
  shows "if \<forall>s\<in>set resources. length (ru_uri s) < 50
    then \<exists>ls. server_stats c rr resources sv = Inr ls \<and> (\<forall>l\<in>set ls. length l < 100)
      \<and> length ls = 2 * length (concat (map ru_subscribers resources)) + 30
    else \<exists>e. server_stats c rr resources sv = Inl e"
proof (cases "\<forall>s\<in>set resources. length (ru_uri s) < 50")
  case True
  with assms server_stats_written [of resources sv c rr] show ?thesis by (simp add: NAME_SIZE_def LOGSTR_SIZE_def)
next
  case False
  then obtain e where "report_resources (sv_regs sv) resources = Inl e"
    using report_resources_overflow [of _ resources "sv_regs sv"] by (auto simp: NAME_SIZE_def not_less)
  then show ?thesis using False unfolding server_stats_def stats_head(1) by simp
qed

theorem server_stats_fit_witness:
  "\<exists>ls. server_stats reset_counters 0 [\<lparr>ru_uri = ascii ''light'', ru_subscribers = [105]\<rparr>] (sample_server one_registration) = Inr ls
     \<and> length ls = 32"
  using server_stats_fit [of "[\<lparr>ru_uri = ascii ''light'', ru_subscribers = [105]\<rparr>]" "sample_server one_registration" reset_counters 0]
  by (auto simp: sample_server_def)

end
