(* ===== verification/CoapLoop.thy ===== *)
theory CoapLoop
  imports ServerStats
begin

text \<open>
  The loop of \<open>ze_coap_server_core_thread\<close>: retransmissions, network requests, responses, until \<open>globalexit\<close> is set. libcoap's
  part of the context has an arbitrary type \<open>'q\<close>; its functions and the answers of the system are in \<open>loop_lib\<close>.
\<close>

section \<open>Operations\<close>

datatype select_result = Select_error bool | Select_ready bool | Select_timeout

text \<open>\<open>coap_context_t\<close>, with the references to the two buffers.\<close>

record 'q coap_context =
  cc_server :: server
  cc_smreqbuf :: request_buf
  cc_net :: 'q

text \<open>
  \<open>ll_exit K n\<close> is \<open>globalexit\<close> as the n-th question to the system finds it; \<open>coap_peek_next\<close> gives the time of the
  next message to be sent again. Dispatching a message and giving up on one run handlers of the repository: such a
  call need not come back, since a handler that puts a request into a full buffer waits in
  \<open>put_request_buf_item\<close>, without a time limit, until the streaming thread takes one out (\<open>Inl StillWaiting\<close>), and it
  can crash (\<open>Inl\<close> another fault).
\<close>

record 'q loop_lib =
  ll_exit :: "nat \<Rightarrow> bool"
  ll_ticks :: "nat \<Rightarrow> int"
  ll_select :: "nat \<Rightarrow> select_result"
  ll_peek_next :: "'q coap_context \<Rightarrow> int option"
  ll_pop_next :: "'q coap_context \<Rightarrow> int \<times> 'q coap_context"
  ll_retransmit :: "'q coap_context \<Rightarrow> int \<Rightarrow> 'q coap_context outcome"
  ll_read :: "'q coap_context \<Rightarrow> 'q coap_context"
  ll_dispatch :: "'q coap_context \<Rightarrow> 'q coap_context outcome"

type_synonym 'q loop_state = "'q coap_context \<times> nat"

definition retransmit_next :: "'q loop_lib \<Rightarrow> 'q coap_context \<Rightarrow> 'q coap_context outcome" where
  "retransmit_next K c = (let (node, c1) = ll_pop_next K c in ll_retransmit K c1 node)"

fun retransmissions :: "'q loop_lib \<Rightarrow> nat \<Rightarrow> int \<Rightarrow> int option \<Rightarrow> 'q loop_state \<Rightarrow> 'q loop_state outcome" where
  "retransmissions K 0 now nextpdu cn = Inl StillWaiting"
| "retransmissions K (Suc fuel) now nextpdu (c, n) =
     (case nextpdu of
        None \<Rightarrow> Inr (c, n)
      | Some t \<Rightarrow>
          if t \<le> now then
            if ll_exit K n then Inr (c, n + 1)
            else bindR (retransmit_next K c) (\<lambda>c1. retransmissions K fuel now (ll_peek_next K c1) (c1, n + 1))
          else Inr (c, n))"

definition serve_network :: "'q loop_lib \<Rightarrow> select_result \<Rightarrow> 'q coap_context \<Rightarrow> 'q coap_context outcome" where
  "serve_network K result c =
     (case result of
        Select_error interrupted \<Rightarrow> Inr c
      | Select_ready set_in_readfds \<Rightarrow> if set_in_readfds then ll_dispatch K (ll_read K c) else Inr c
      | Select_timeout \<Rightarrow> Inr c)"

text \<open>\<open>while (smcount < SMREQ_RATIO && !globalexit)\<close>.\<close>

fun serve_sm_requests :: "server_lib \<Rightarrow> 'q loop_lib \<Rightarrow> nat \<Rightarrow> 'q loop_state \<Rightarrow> 'q loop_state outcome" where
  "serve_sm_requests L K 0 cn = Inr cn"
| "serve_sm_requests L K (Suc m) (c, n) =
     (if ll_exit K n then Inr (c, n + 1)
      else
        let (req, b) = get_response_buf_item zero_response (sv_notbuf (cc_server c))
        in bindR (serve_response L ((cc_server c)\<lparr>sv_notbuf := b\<rparr>) req) (\<lambda>sv.
           serve_sm_requests L K m (c\<lparr>cc_server := sv\<rparr>, n + 1)))"

definition server_round :: "server_lib \<Rightarrow> 'q loop_lib \<Rightarrow> nat \<Rightarrow> 'q loop_state \<Rightarrow> 'q loop_state outcome" where
  "server_round L K fuel cn =
     (let (c, n) = cn
      in bindR (retransmissions K fuel (ll_ticks K n) (ll_peek_next K c) (c, n)) (\<lambda>(c1, n1).
         bindR (serve_network K (ll_select K n1) c1) (\<lambda>c2. serve_sm_requests L K SMREQ_RATIO (c2, n1))))"

fun server_loop :: "server_lib \<Rightarrow> 'q loop_lib \<Rightarrow> nat \<Rightarrow> nat \<Rightarrow> 'q loop_state \<Rightarrow> 'q loop_state outcome" where
  "server_loop L K fuel 0 cn = Inl StillWaiting"
| "server_loop L K fuel (Suc r) (c, n) =
     (if ll_exit K n then Inr (c, n + 1)
      else bindR (server_round L K fuel (c, n + 1)) (server_loop L K fuel r))"

text \<open>
  The thread: it stores its buffers in the context, clears its counters, loops and writes the statistics, for which the
  resources of the context and the counters of the network layer are libcoap's.
\<close>

definition ze_coap_server_core_thread :: "server_lib \<Rightarrow> 'q loop_lib \<Rightarrow> nat \<Rightarrow> nat \<Rightarrow> ('q coap_context \<Rightarrow> net_counters)
    \<Rightarrow> ('q coap_context \<Rightarrow> int) \<Rightarrow> ('q coap_context \<Rightarrow> resource_entry list)
    \<Rightarrow> request_buf \<Rightarrow> response_buf \<Rightarrow> 'q coap_context \<Rightarrow> ('q coap_context \<times> byte list list) outcome" where
  "ze_coap_server_core_thread L K fuel rounds counters rr_rec resources smreqbuf notbuf cctx =
     (let c0 = cctx\<lparr>cc_smreqbuf := smreqbuf,
            cc_server := (cc_server cctx)\<lparr>sv_notbuf := notbuf, sv_SR_SENT_counter := 0, sv_firstSRsent := 0\<rparr>\<rparr>
      in bindR (server_loop L K fuel rounds (c0, 0)) (\<lambda>(c, n).
         bindR (server_stats (counters c) (rr_rec c) (resources c) (cc_server c)) (\<lambda>ls. Inr (c, ls))))"

text \<open>\<open>test_socket_send\<close>: \<open>context\<close> is its \<open>sockfdtest\<close>, \<open>sendto\<close> gives the bytes written.\<close>

definition test_socket_send :: "int \<Rightarrow> (int \<Rightarrow> pdu \<Rightarrow> int \<Rightarrow> int) \<Rightarrow> (int \<Rightarrow> pdu \<Rightarrow> int) \<Rightarrow> int option \<Rightarrow> int option
    \<Rightarrow> pdu option \<Rightarrow> int" where
  "test_socket_send COAP_INVALID_TID sendto coap_transaction_id context dst p =
     (case (context, dst, p) of
        (Some sockfdtest, Some d, Some q) \<Rightarrow>
          if sendto sockfdtest q d \<ge> 0 then coap_transaction_id d q else COAP_INVALID_TID
      | _ \<Rightarrow> COAP_INVALID_TID)"

section \<open>Retransmissions\<close>

text \<open>
  RFC 7252 limits how often a message is sent again: there is a measure, the number of retransmissions that the queued messages have
  left, that each one lowers.
\<close>

definition limited :: "'q loop_lib \<Rightarrow> ('q coap_context \<Rightarrow> nat) \<Rightarrow> bool" where
  "limited K left \<longleftrightarrow> (\<forall>c c'. ll_peek_next K c \<noteq> None \<longrightarrow> retransmit_next K c = Inr c' \<longrightarrow> left c' < left c)"

text \<open>
  No handler waits for ever: libcoap's calls come back or the process does not survive them. It is the streaming thread that makes
  this true, by taking requests out of the buffer that the handlers fill.
\<close>

definition handlers_return :: "'q loop_lib \<Rightarrow> bool" where
  "handlers_return K \<longleftrightarrow> (\<forall>c node. ll_retransmit K c node \<noteq> Inl StillWaiting) \<and> (\<forall>c. ll_dispatch K c \<noteq> Inl StillWaiting)"

lemma handlers_return_retransmit: "handlers_return K \<Longrightarrow> retransmit_next K c \<noteq> Inl StillWaiting"
  by (simp add: handlers_return_def retransmit_next_def split_def Let_def)

lemma handlers_return_network: "handlers_return K \<Longrightarrow> serve_network K r c \<noteq> Inl StillWaiting"
  by (simp add: handlers_return_def serve_network_def split: select_result.split)

definition due :: "'q loop_lib \<Rightarrow> int \<Rightarrow> 'q coap_context \<Rightarrow> bool" where
  "due K now c \<longleftrightarrow> (\<exists>t. ll_peek_next K c = Some t \<and> t \<le> now)"

lemma retransmissions_return:
  assumes "limited K left" and "handlers_return K" and "left c < fuel"
  shows "retransmissions K fuel now (ll_peek_next K c) (c, n) \<noteq> Inl StillWaiting"
  using assms(3)
proof (induction fuel arbitrary: c n)
  case (Suc fuel)
  show ?case
  proof (cases "ll_peek_next K c")
    case (Some t)
    show ?thesis
    proof (cases "retransmit_next K c")
      case (Inl e)
      with Some handlers_return_retransmit [OF assms(2), of c] show ?thesis by auto
    next
      case (Inr c1)
      then have "left c1 < left c" using assms(1) Some by (simp add: limited_def)
      with Suc Some Inr show ?thesis by simp
    qed
  qed simp
qed simp

lemma retransmissions_end:
  "retransmissions K fuel now (ll_peek_next K c) (c, n) = Inr (c', n') \<Longrightarrow>
    n \<le> n' \<and> (due K now c' \<longrightarrow> n < n' \<and> ll_exit K (n' - 1))"
proof (induction fuel arbitrary: c n)
  case (Suc fuel)
  show ?case
  proof (cases "due K now c \<and> \<not> ll_exit K n")
    case False
    then show ?thesis using Suc.prems by (cases "ll_peek_next K c") (auto simp: due_def split: if_splits)
  next
    case True
    then obtain t where t: "ll_peek_next K c = Some t" "t \<le> now" "\<not> ll_exit K n" by (auto simp: due_def)
    then obtain c1 where "retransmissions K fuel now (ll_peek_next K c1) (c1, n + 1) = Inr (c', n')"
      using Suc.prems by (auto simp: bindR_Inr_iff)
    from Suc.IH [OF this] show ?thesis by auto
  qed
qed simp

section \<open>The service of responses\<close>

text \<open>Without a request to exit it is the round of \<open>CoapServer\<close>.\<close>

lemma serve_sm_requests_no_exit:
  "\<forall>k. \<not> ll_exit K k \<Longrightarrow> serve_sm_requests L K m (c, n)
    = bindR (serve_responses L m (cc_server c)) (\<lambda>sv. Inr (c\<lparr>cc_server := sv\<rparr>, n + m))"
proof (induction m arbitrary: c n)
  case (Suc m)
  show ?case
  proof (cases "serve_response L ((cc_server c)\<lparr>sv_notbuf := snd (get_response_buf_item zero_response (sv_notbuf (cc_server c)))\<rparr>)
      (fst (get_response_buf_item zero_response (sv_notbuf (cc_server c))))")
    case (Inr sv)
    with Suc show ?thesis by (simp add: split_def Let_def)
  qed (use Suc in \<open>simp add: split_def Let_def\<close>)
qed simp

lemma serve_response_faults: "serve_response L sv req = Inl e \<Longrightarrow> e \<noteq> StillWaiting"
proof -
  have sr: "send_report L sv reg r = Inl e \<Longrightarrow> e \<noteq> StillWaiting" for L sv reg r
  proof (cases "sl_malloc L (sv_tick sv) \<and> sl_malloc L (sv_tick sv + 1)")
    case False
    then have "form_sr_payload e (sl_malloc L (sv_tick sv)) (sl_malloc L (sv_tick sv + 1)) ntpc r = Inr None" for e ntpc
      by (cases "sl_malloc L (sv_tick sv)") (simp_all add: form_sr_payload_def)
    then show "send_report L sv reg r = Inl e \<Longrightarrow> e \<noteq> StillWaiting"
      by (auto simp: send_report_def)
  next
    case True
    then show "send_report L sv reg r = Inl e \<Longrightarrow> e \<noteq> StillWaiting"
      by (simp add: send_report_def form_sr_eq split_def Let_def del: be_bytes.simps)
  qed
  then show "serve_response L sv req = Inl e \<Longrightarrow> e \<noteq> StillWaiting"
    by (auto simp: serve_response_def serve_stopped_def serve_oneshot_response_def serve_update_def Let_def split_def
        split: if_splits option.splits)
qed

lemma serve_sm_requests_return: "serve_sm_requests L K m cn \<noteq> Inl StillWaiting"
proof (induction m arbitrary: cn)
  case (Suc m)
  then show ?case
    using serve_response_faults [of L _ _ StillWaiting]
    by (cases cn) (auto simp: Let_def split_def bindR_Inl_iff)
qed simp

lemma serve_sm_requests_asked: "serve_sm_requests L K m (c, n) = Inr (c', n') \<Longrightarrow> n \<le> n'"
proof (induction m arbitrary: c n)
  case (Suc m)
  then show ?case by (fastforce simp: Let_def split_def bindR_Inr_iff split: if_splits)
qed simp

section \<open>Leaving the loop\<close>

text \<open>More fuel changes nothing.\<close>

lemma retransmissions_mono:
  "retransmissions K fuel now p cn \<noteq> Inl StillWaiting \<Longrightarrow> fuel \<le> fuel' \<Longrightarrow>
    retransmissions K fuel' now p cn = retransmissions K fuel now p cn"
proof (induction fuel arbitrary: fuel' p cn)
  case (Suc fuel)
  obtain f where f: "fuel' = Suc f" "fuel \<le> f" using Suc.prems(2) by (cases fuel') auto
  obtain c n where cn: "cn = (c, n)" by force
  have "retransmissions K f now (ll_peek_next K c1) (c1, n + 1) = retransmissions K fuel now (ll_peek_next K c1) (c1, n + 1)"
    if "retransmissions K fuel now (ll_peek_next K c1) (c1, n + 1) \<noteq> Inl StillWaiting" for c1
    using that f(2) by (rule Suc.IH)
  with Suc.prems(1) show ?case unfolding f cn by (cases "retransmit_next K c") (simp_all split: option.splits if_splits)
qed simp

lemma server_round_mono:
  assumes "server_round L K fuel cn \<noteq> Inl StillWaiting" and "fuel \<le> fuel'"
  shows "server_round L K fuel' cn = server_round L K fuel cn"
proof -
  have "retransmissions K fuel (ll_ticks K (snd cn)) (ll_peek_next K (fst cn)) cn \<noteq> Inl StillWaiting"
    using assms(1) by (auto simp: server_round_def split_def)
  from retransmissions_mono [OF this assms(2)] show ?thesis by (simp add: server_round_def split_def)
qed

text \<open>Each round asks at least once more than it was asked before, and needs some fuel.\<close>

lemma server_round_return:
  assumes "limited K left" and "handlers_return K"
  shows "\<exists>F. \<forall>fuel\<ge>F. server_round L K fuel (c, n) = server_round L K F (c, n) \<and> server_round L K fuel (c, n) \<noteq> Inl StillWaiting"
proof -
  let ?F = "Suc (left c)"
  have "retransmissions K ?F (ll_ticks K n) (ll_peek_next K c) (c, n) \<noteq> Inl StillWaiting"
    by (rule retransmissions_return [OF assms]) simp
  then have "server_round L K ?F (c, n) \<noteq> Inl StillWaiting"
    using handlers_return_network [OF assms(2)]
    by (simp add: server_round_def split_def bindR_Inl_iff serve_sm_requests_return del: retransmissions.simps)
  then have "server_round L K fuel (c, n) = server_round L K ?F (c, n) \<and> server_round L K fuel (c, n) \<noteq> Inl StillWaiting"
    if "?F \<le> fuel" for fuel
    using server_round_mono [OF _ that] by metis
  then show ?thesis by (intro exI [of _ ?F]) blast
qed

lemma server_round_asked: "server_round L K fuel (c, n) = Inr (c', n') \<Longrightarrow> n \<le> n'"
  by (fastforce simp: server_round_def bindR_Inr_iff dest: retransmissions_end serve_sm_requests_asked)

lemma server_loop_return:
  assumes "limited K left" and "handlers_return K" and "\<forall>n\<ge>N. ll_exit K n"
  shows "\<exists>F. \<forall>fuel\<ge>F. \<forall>rounds>N - n. server_loop L K fuel rounds (c, n) \<noteq> Inl StillWaiting"
proof (induction "N - n" arbitrary: n c rule: less_induct)
  case less
  show ?case
  proof (cases "ll_exit K n")
    case True
    have "server_loop L K fuel rounds (c, n) \<noteq> Inl StillWaiting" if "N - n < rounds" for fuel rounds
      using True that by (cases rounds) simp_all
    then show ?thesis by (intro exI [of _ 0]) blast
  next
    case False
    with assms(3) have n: "n < N" using not_less by blast
    obtain F where F: "\<forall>fuel\<ge>F. server_round L K fuel (c, n + 1) = server_round L K F (c, n + 1)
        \<and> server_round L K fuel (c, n + 1) \<noteq> Inl StillWaiting"
      using server_round_return [OF assms(1,2)] by blast
    show ?thesis
    proof (cases "server_round L K F (c, n + 1)")
      case (Inl e)
      have "server_loop L K fuel rounds (c, n) \<noteq> Inl StillWaiting" if f: "F \<le> fuel" and r: "N - n < rounds" for fuel rounds
      proof -
        obtain r' where "rounds = Suc r'" using r by (cases rounds) auto
        moreover have "server_round L K fuel (c, n + 1) = Inl e" "e \<noteq> StillWaiting" using F [rule_format, OF f] Inl by auto
        ultimately show ?thesis using False by simp
      qed
      then show ?thesis by (intro exI [of _ F]) blast
    next
      case (Inr cn')
      obtain c' n' where cn': "cn' = (c', n')" by force
      have "n + 1 \<le> n'" using server_round_asked Inr cn' by simp
      with n have "N - n' < N - n" by simp
      from less [OF this, of c'] obtain F' where
        F': "\<forall>fuel\<ge>F'. \<forall>rounds>N - n'. server_loop L K fuel rounds (c', n') \<noteq> Inl StillWaiting" by blast
      have "server_loop L K fuel rounds (c, n) \<noteq> Inl StillWaiting" if f: "max F F' \<le> fuel" and r: "N - n < rounds" for fuel rounds
      proof -
        obtain r' where "rounds = Suc r'" "N - n' < r'" using r \<open>N - n' < N - n\<close> by (cases rounds) auto
        moreover have "server_round L K fuel (c, n + 1) = Inr (c', n')"
          using F [rule_format, of fuel] f Inr cn' by simp
        ultimately show ?thesis using False F' f by simp
      qed
      then show ?thesis by (intro exI [of _ "max F F'"]) blast
    qed
  qed
qed

section \<open>The invariant of the server\<close>

text \<open>What libcoap does to the registrations keeps the bounds of the server: it deletes, counts failures, and adds fresh ones.\<close>

definition libcoap_keeps :: "server_lib \<Rightarrow> 'q loop_lib \<Rightarrow> bool" where
  "libcoap_keeps L K \<longleftrightarrow> (\<forall>c c'. server_ok L (cc_server c) \<longrightarrow>
     (ll_peek_next K c \<noteq> None \<longrightarrow> retransmit_next K c = Inr c' \<longrightarrow> server_ok L (cc_server c'))
     \<and> (ll_dispatch K (ll_read K c) = Inr c' \<longrightarrow> server_ok L (cc_server c')))"

lemma libcoap_keeps_retransmit:
  "libcoap_keeps L K \<Longrightarrow> server_ok L (cc_server c) \<Longrightarrow> ll_peek_next K c \<noteq> None \<Longrightarrow> retransmit_next K c = Inr c' \<Longrightarrow>
    server_ok L (cc_server c')"
  unfolding libcoap_keeps_def by blast

lemma libcoap_keeps_network:
  assumes "libcoap_keeps L K" and "server_ok L (cc_server c)" and "serve_network K r c = Inr c'"
  shows "server_ok L (cc_server c')"
proof -
  have "c' = c \<or> ll_dispatch K (ll_read K c) = Inr c'"
    using assms(3) by (auto simp: serve_network_def split: select_result.splits if_splits)
  with assms(1,2) show ?thesis unfolding libcoap_keeps_def by blast
qed

lemma retransmissions_ok:
  assumes "libcoap_keeps L K"
  shows "server_ok L (cc_server c) \<Longrightarrow> retransmissions K fuel now (ll_peek_next K c) (c, n) = Inr (c', n') \<Longrightarrow>
    server_ok L (cc_server c')"
proof (induction fuel arbitrary: c n)
  case (Suc fuel)
  consider "c' = c" | c1 where "retransmit_next K c = Inr c1"
      "retransmissions K fuel now (ll_peek_next K c1) (c1, n + 1) = Inr (c', n')" "ll_peek_next K c \<noteq> None"
    using Suc.prems(2) by (auto simp: bindR_Inr_iff split: option.splits if_splits)
  then show ?case
  proof cases
    case (2 c1)
    have "server_ok L (cc_server c1)" by (rule libcoap_keeps_retransmit [OF assms Suc.prems(1) 2(3,1)])
    from Suc.IH [OF this 2(2)] show ?thesis .
  qed (use Suc.prems in simp)
qed simp

lemma serve_sm_requests_ok:
  assumes "server_lib_ok L"
  shows "server_ok L (cc_server c) \<Longrightarrow> serve_sm_requests L K m (c, n) = Inr (c', n') \<Longrightarrow> server_ok L (cc_server c')"
proof (induction m arbitrary: c n)
  case (Suc m)
  obtain req b where g: "get_response_buf_item zero_response (sv_notbuf (cc_server c)) = (req, b)" by force
  show ?case
  proof (cases "ll_exit K n")
    case True
    with Suc.prems show ?thesis by simp
  next
    case False
    then obtain sv where sv: "serve_response L ((cc_server c)\<lparr>sv_notbuf := b\<rparr>) req = Inr sv"
      "serve_sm_requests L K m (c\<lparr>cc_server := sv\<rparr>, n + 1) = Inr (c', n')"
      using Suc.prems(2) g by (auto simp: bindR_Inr_iff)
    have "server_ok L ((cc_server c)\<lparr>sv_notbuf := b\<rparr>)" using Suc.prems(1) by (simp add: server_ok_def)
    from serve_response_ok [OF assms this sv(1)] show ?thesis using Suc.IH [OF _ sv(2)] by simp
  qed
qed simp

lemma server_round_ok:
  assumes "server_lib_ok L" and "libcoap_keeps L K" and "server_ok L (cc_server c)" and "server_round L K fuel (c, n) = Inr (c', n')"
  shows "server_ok L (cc_server c')"
proof -
  obtain c1 n1 c2 where r: "retransmissions K fuel (ll_ticks K n) (ll_peek_next K c) (c, n) = Inr (c1, n1)"
    and w: "serve_network K (ll_select K n1) c1 = Inr c2"
    and s: "serve_sm_requests L K SMREQ_RATIO (c2, n1) = Inr (c', n')"
    using assms(4) by (auto simp: server_round_def bindR_Inr_iff)
  have "server_ok L (cc_server c1)" using retransmissions_ok [OF assms(2,3) r] .
  from libcoap_keeps_network [OF assms(2) this w] have "server_ok L (cc_server c2)" .
  from serve_sm_requests_ok [OF assms(1) this s] show ?thesis .
qed

lemma server_loop_ok:
  assumes "server_lib_ok L" and "libcoap_keeps L K"
  shows "server_ok L (cc_server c) \<Longrightarrow> server_loop L K fuel rounds (c, n) = Inr (c', n') \<Longrightarrow> server_ok L (cc_server c')"
proof (induction rounds arbitrary: c n)
  case (Suc rounds)
  show ?case
  proof (cases "ll_exit K n")
    case True
    with Suc.prems show ?thesis by simp
  next
    case False
    then obtain c1 n1 where r: "server_round L K fuel (c, n + 1) = Inr (c1, n1)" "server_loop L K fuel rounds (c1, n1) = Inr (c', n')"
      using Suc.prems(2) by (auto simp: bindR_Inr_iff)
    from Suc.IH [OF server_round_ok [OF assms Suc.prems(1) r(1)] r(2)] show ?thesis .
  qed
qed simp

section \<open>Properties\<close>

text \<open>
  C19. The server thread ends, unless a handler blocks it: when \<open>globalexit\<close> is set from some moment on, libcoap sends each message
  again only a limited number of times, and no handler waits for ever for room in the request buffer, then with enough fuel,
  whatever arrives, the loop comes to an end (it returns or the process does). The retransmissions of one round come to an
  end as well, with as much fuel as there are messages left to send again, and unless they were cut short by \<open>globalexit\<close> they
  leave no message that is due. The condition on the handlers is needed: \<open>server_thread_blocked\<close> below.
\<close>

theorem server_thread_ends:
  assumes "limited K left" and "handlers_return K" and "\<forall>n\<ge>N. ll_exit K n"
  shows "(\<exists>F. \<forall>fuel\<ge>F. \<forall>rounds>N. server_loop L K fuel rounds (c, 0) \<noteq> Inl StillWaiting)
    \<and> (case retransmissions K (Suc (left c)) now (ll_peek_next K c) (c, n) of
         Inl e \<Rightarrow> e \<noteq> StillWaiting
       | Inr (c', n') \<Rightarrow> ll_exit K (n' - 1) \<or> \<not> (\<exists>t. ll_peek_next K c' = Some t \<and> t \<le> now))"
proof (rule conjI)
  show "\<exists>F. \<forall>fuel\<ge>F. \<forall>rounds>N. server_loop L K fuel rounds (c, 0) \<noteq> Inl StillWaiting"
    using server_loop_return [OF assms, of 0 L c] by (simp only: diff_zero)
  show "case retransmissions K (Suc (left c)) now (ll_peek_next K c) (c, n) of
         Inl e \<Rightarrow> e \<noteq> StillWaiting
       | Inr (c', n') \<Rightarrow> ll_exit K (n' - 1) \<or> \<not> (\<exists>t. ll_peek_next K c' = Some t \<and> t \<le> now)"
    using retransmissions_return [OF assms(1,2) lessI, of c now n]
      retransmissions_end [of K "Suc (left c)" now c n]
    by (auto simp: due_def simp del: retransmissions.simps split: sum.split)
qed

text \<open>
  A handler that waits for ever keeps the thread from ending, even when \<open>globalexit\<close> is set while it waits and nothing has to be sent
  again: after the streaming thread has left its loop nobody takes requests out, so the handler of the request that
  finds the buffer full is such a one.
\<close>

lemma server_thread_blocked:
  assumes "\<not> ll_exit K n" and "ll_peek_next K c = None" and "ll_select K (n + 1) = Select_ready True"
    and "ll_dispatch K (ll_read K c) = Inl StillWaiting"
  shows "server_loop L K fuel rounds (c, n) = Inl StillWaiting"
  using assms by (cases rounds; cases fuel) (simp_all add: server_round_def serve_network_def)

text \<open>A libcoap with as many messages to send again as the number \<open>cc_net\<close>, and an exit after \<open>N\<close> questions.\<close>

definition sample_loop_lib :: "nat \<Rightarrow> nat loop_lib" where
  "sample_loop_lib N = \<lparr>ll_exit = (\<lambda>n. N \<le> n), ll_ticks = (\<lambda>_. 0), ll_select = (\<lambda>_. Select_ready True),
     ll_peek_next = (\<lambda>c. if cc_net c = 0 then None else Some 0), ll_pop_next = (\<lambda>c. (0, c\<lparr>cc_net := cc_net c - 1\<rparr>)),
     ll_retransmit = (\<lambda>c _. Inr c), ll_read = id, ll_dispatch = Inr\<rparr>"

definition sample_context :: "nat coap_context" where
  "sample_context = \<lparr>cc_server = sample_server one_registration, cc_smreqbuf = the (init_sm_buf True), cc_net = 2\<rparr>"

theorem server_thread_ends_witness:
  "\<exists>F. \<forall>fuel\<ge>F. \<forall>rounds>40. server_loop sample_lib (sample_loop_lib 40) fuel rounds (sample_context, 0) \<noteq> Inl StillWaiting"
proof -
  have "limited (sample_loop_lib 40) cc_net" by (simp add: limited_def sample_loop_lib_def retransmit_next_def)
  moreover have "\<forall>n\<ge>40. ll_exit (sample_loop_lib 40) n" by (simp add: sample_loop_lib_def)
  moreover have "handlers_return (sample_loop_lib 40)" by (simp add: handlers_return_def sample_loop_lib_def)
  ultimately show ?thesis by (intro server_thread_ends [THEN conjunct1])
qed

text \<open>
  C18. The whole life of the server thread, from any state in which no registration has more NON messages in a row than
  allowed and none has sent more than 1000 octets since its last sender report: when libcoap's retransmissions and dispatches keep these bounds,
  they hold when the loop ends, however many rounds it made, and the statistics report the registrations of that state.
\<close>

theorem server_thread_invariant:
  assumes "server_lib_ok L" and "libcoap_keeps L K" and "server_ok L (cc_server cctx)"
    and "ze_coap_server_core_thread L K fuel rounds counters rr resources smreqbuf notbuf cctx = Inr (c, ls)"
  shows "(\<forall>reg r. sv_regs (cc_server c) reg = Some r \<longrightarrow>
      rg_non_cnt r \<le> sl_max_non L \<and> rg_octcount r \<le> rg_last_sr_octcount r + 1000)
    \<and> server_stats (counters c) (rr c) (resources c) (cc_server c) = Inr ls"
proof -
  let ?c0 = "cctx\<lparr>cc_smreqbuf := smreqbuf,
    cc_server := (cc_server cctx)\<lparr>sv_notbuf := notbuf, sv_SR_SENT_counter := 0, sv_firstSRsent := 0\<rparr>\<rparr>"
  obtain n where l: "server_loop L K fuel rounds (?c0, 0) = Inr (c, n)"
    and s: "server_stats (counters c) (rr c) (resources c) (cc_server c) = Inr ls"
    using assms(4) by (auto simp: ze_coap_server_core_thread_def Let_def bindR_Inr_iff)
  have "server_ok L (cc_server ?c0)" using assms(3) by (simp add: server_ok_def)
  from server_loop_ok [OF assms(1,2) this l] s show ?thesis
    by (simp add: server_ok_def reg_ok_def RTCP_SR_BANDWIDTH_THRESHOLD_def)
qed

theorem server_thread_invariant_witness:
  "\<exists>c ls. ze_coap_server_core_thread sample_lib (sample_loop_lib 1) 5 2 (\<lambda>_. reset_counters) (\<lambda>_. 0)
      (\<lambda>_. [\<lparr>ru_uri = ascii ''light'', ru_subscribers = [105]\<rparr>]) (the (init_sm_buf True)) (the (init_coap_buf True)) sample_context
      = Inr (c, ls) \<and> (\<forall>reg r. sv_regs (cc_server c) reg = Some r \<longrightarrow> rg_non_cnt r \<le> 5)"
proof -
  have k: "libcoap_keeps sample_lib (sample_loop_lib 1)"
    by (auto simp: libcoap_keeps_def sample_loop_lib_def retransmit_next_def)
  have o: "server_ok sample_lib (cc_server sample_context)"
    by (simp add: server_ok_def sample_context_def sample_server_def reg_ok_def one_registration_def sample_lib_def
        RTCP_SR_BANDWIDTH_THRESHOLD_def)
  define sv where "sv = (sample_server one_registration)\<lparr>sv_notbuf := the (init_coap_buf True), sv_SR_SENT_counter := 0, sv_firstSRsent := 0\<rparr>"
  have "\<forall>s\<in>set [\<lparr>ru_uri = ascii ''light'', ru_subscribers = [105]\<rparr>]. length (ru_uri s) < NAME_SIZE
      \<and> (\<forall>sub\<in>set (ru_subscribers s). sv_regs sv sub \<noteq> None)"
    by (simp add: sv_def sample_server_def NAME_SIZE_def)
  from server_stats_written [OF this] obtain ls where
    ls: "server_stats reset_counters 0 [\<lparr>ru_uri = ascii ''light'', ru_subscribers = [105]\<rparr>] sv = Inr ls" by blast
  have "ze_coap_server_core_thread sample_lib (sample_loop_lib 1) 5 2 (\<lambda>_. reset_counters) (\<lambda>_. 0)
      (\<lambda>_. [\<lparr>ru_uri = ascii ''light'', ru_subscribers = [105]\<rparr>]) (the (init_sm_buf True)) (the (init_coap_buf True)) sample_context
      = Inr (sample_context\<lparr>cc_smreqbuf := the (init_sm_buf True), cc_server := sv\<rparr>, ls)"
    using ls
    by (simp add: ze_coap_server_core_thread_def Let_def numeral_eq_Suc server_round_def sample_loop_lib_def sample_context_def
        serve_network_def SMREQ_RATIO_def sv_def [symmetric])
  with server_thread_invariant [OF sample_lib_ok k o this] show ?thesis by (auto simp: sample_lib_def)
qed

end
