(* ===== verification/StatsText.thy ===== *)
theory StatsText
  imports Stats ServerStats Binary64
begin

text \<open>
  The averages of the statistics of the Streaming Manager thread, in the arithmetic of C's \<open>double\<close>, and the lines it writes about
  the periods of the samples, with \<open>sprintf("%e")\<close> of a \<open>double\<close>.
\<close>

section \<open>Doubles\<close>

text \<open>
  \<open>a / b\<close> rounded to \<open>p\<close> bits, also where it is above \<open>2 ^ p\<close>: then \<open>e\<close> low bits are lost.
\<close>

definition fp_wide :: "nat \<Rightarrow> nat \<Rightarrow> nat \<Rightarrow> nat \<times> nat" where
  "fp_wide p a b =
     (case find (\<lambda>e. a < 2 ^ (p + e) * b) [0..<972] of
        Some (Suc e) \<Rightarrow> (round_half_even a (2 ^ Suc e * b) * 2 ^ Suc e, 0)
      | _ \<Rightarrow> fp_round p a b)"

datatype double = Double_nan | Double_inf bool | Double bool "nat \<times> nat"

text \<open>\<open>(double)v\<close>, and the quotient of a double and an \<open>int\<close>.\<close>

definition double_of_int :: "int \<Rightarrow> double" where
  "double_of_int v = Double (v < 0) (fp_wide 53 (nat \<bar>v\<bar>) 1)"

definition double_div_int :: "double \<Rightarrow> int \<Rightarrow> double" where
  "double_div_int x n =
     (case x of
        Double_nan \<Rightarrow> Double_nan
      | Double_inf s \<Rightarrow> Double_inf (s \<noteq> (n < 0))
      | Double s (m, k) \<Rightarrow>
          if n = 0 then (if m = 0 then Double_nan else Double_inf s)
          else Double (s \<noteq> (n < 0)) (fp_wide 53 m (2 ^ k * nat \<bar>n\<bar>)))"

text \<open>\<open>accel_average = ((double)accel_incsum)/(accel_samples_taken-1)\<close>.\<close>

definition average :: "period_stats \<Rightarrow> double" where
  "average st = double_div_int (double_of_int (ps_incsum st)) (ps_count st)"

text \<open>
  The text of a double with at most 149 bits behind its point, as all numbers of the statistics are; C leaves the text of a NaN to
  the library, \<open>nan\<close> here.
\<close>

definition fmt_e_double :: "byte list \<Rightarrow> double \<Rightarrow> byte list" where
  "fmt_e_double nan x =
     (case x of
        Double_nan \<Rightarrow> nan
      | Double_inf s \<Rightarrow> if s then ascii ''-inf'' else ascii ''inf''
      | Double s (m, k) \<Rightarrow>
          (if s then ascii ''-'' else []) @
          (let n = m * 2 ^ 149 div 2 ^ k
           in if n = 0 then mant_text 0 @ exp_text 45
              else case round_e n of (q, j) \<Rightarrow> mant_text q @ exp_text j))"

section \<open>The lines\<close>

definition period_line :: "byte list \<Rightarrow> string \<Rightarrow> period_stats \<Rightarrow> byte list" where
  "period_line nan label st =
     ascii label @ ascii '' periods average '' @ fmt_e_double nan (average st)
       @ ascii '', max:'' @ fmt_e_double nan (double_of_int (ps_max st))
       @ ascii '', min:'' @ fmt_e_double nan (double_of_int (ps_min st)) @ newline"

definition report_periods :: "byte list \<Rightarrow> sm_state \<Rightarrow> byte list list outcome" where
  "report_periods nan s = log_lines
     [ascii ''-- Streaming Manager stats start ----'' @ newline,
      period_line nan ''Accel'' (sensor_stats (sm_accel_log s)),
      period_line nan ''Orient'' (sensor_stats (sm_orient_log s)),
      period_line nan ''Light'' (sensor_stats (sm_light_log s)),
      period_line nan ''Prox'' (sensor_stats (sm_prox_log s)),
      period_line nan ''Gyro'' (sensor_stats (sm_gyro_log s))]"

section \<open>The lines fit\<close>

lemma length_fmt_e_double: "length nan \<le> 13 \<Longrightarrow> length (fmt_e_double nan x) \<le> 13"
  by (auto simp: fmt_e_double_def mant_text_def exp_text_def Let_def split: double.split prod.split)

lemma period_line_fits:
  assumes "length nan \<le> 13" and "length label \<le> 6"
  shows "length (period_line nan label st) < LOGSTR_SIZE"
  using assms(2) length_fmt_e_double [OF assms(1), of "average st"]
    length_fmt_e_double [OF assms(1), of "double_of_int (ps_max st)"] length_fmt_e_double [OF assms(1), of "double_of_int (ps_min st)"]
  by (simp add: period_line_def newline_def LOGSTR_SIZE_def)

lemma report_periods_fit:
  assumes "length nan \<le> 13"
  shows "\<exists>ls. report_periods nan s = Inr ls \<and> (\<forall>l\<in>set ls. length l < LOGSTR_SIZE)"
proof -
  let ?ls = "[ascii ''-- Streaming Manager stats start ----'' @ newline,
      period_line nan ''Accel'' (sensor_stats (sm_accel_log s)), period_line nan ''Orient'' (sensor_stats (sm_orient_log s)),
      period_line nan ''Light'' (sensor_stats (sm_light_log s)), period_line nan ''Prox'' (sensor_stats (sm_prox_log s)),
      period_line nan ''Gyro'' (sensor_stats (sm_gyro_log s))]"
  have "\<forall>l\<in>set ?ls. length l < LOGSTR_SIZE"
    using period_line_fits [OF assms] by (simp add: newline_def) (simp add: LOGSTR_SIZE_def)
  moreover from this have "report_periods nan s = Inr ?ls" unfolding report_periods_def by (rule log_lines_fit)
  ultimately show ?thesis by blast
qed

section \<open>Rounding above the precision\<close>

lemma fp_wide_low: "a < 2 ^ p * b \<Longrightarrow> fp_wide p a b = fp_round p a b"
proof -
  assume "a < 2 ^ p * b"
  then have "find (\<lambda>e. a < 2 ^ (p + e) * b) [0..<972] = Some 0" by (intro find_upt_Some) simp_all
  then show ?thesis by (simp add: fp_wide_def)
qed

lemma fp_wide_relative:
  assumes "0 < p" and "0 < a" and "0 < b" and "a < 2 ^ (p + 971) * b" and "2 ^ (p - 1) * b \<le> a * 2 ^ 1074"
  shows "\<bar>fp_val (fp_wide p a b) - real a / real b\<bar> \<le> real a / real b / 2 ^ p"
proof (cases "a < 2 ^ p * b")
  case True
  with fp_round_relative [OF assms(1-3) True assms(5)] fp_wide_low show ?thesis by simp
next
  case False
  let ?P = "\<lambda>e. a < 2 ^ (p + e) * b"
  define e where "e = (LEAST e. ?P e)"
  have e: "?P e" "e \<le> 971" using LeastI [of ?P, OF assms(4)] Least_le [of ?P, OF assms(4)] by (simp_all add: e_def)
  obtain d where d: "e = Suc d" using e(1) False by (cases e) simp_all
  then have lo: "2 ^ (p + d) * b \<le> a" using not_less_Least [of d ?P] by (simp add: e_def)
  have "find ?P [0..<972] = Some e"
    using e not_less_Least [of _ ?P] unfolding e_def [symmetric] by (intro find_upt_Some) simp_all
  then have w: "fp_wide p a b = (round_half_even a (2 ^ e * b) * 2 ^ e, 0)" by (simp add: fp_wide_def d)
  define c where "c = 2 ^ e * b"
  define q where "q = round_half_even a c"
  have c0: "0 < c" using assms(3) by (simp add: c_def)
  have "2 * \<bar>int (q * c) - int a\<bar> \<le> int c" unfolding q_def by (rule round_half_even_bound [OF c0])
  from of_int_le_iff [where 'a = real, THEN iffD2, OF this] have err: "2 * \<bar>real q * real c - real a\<bar> \<le> real c" by simp
  have v: "fp_val (fp_wide p a b) = real q * 2 ^ e" by (simp add: w fp_val_def q_def c_def)
  have "real q * 2 ^ e - real a / real b = (real q * real c - real a) / real b"
    using assms(3) by (simp add: c_def field_simps)
  then have "\<bar>fp_val (fp_wide p a b) - real a / real b\<bar> = \<bar>real q * real c - real a\<bar> / real b"
    unfolding v by (simp add: abs_divide)
  also have "\<dots> \<le> real c / 2 / real b" using err by (intro divide_right_mono) simp_all
  also have "real c / 2 = 2 ^ d * real b" by (simp add: c_def d)
  also have "2 ^ d * real b / real b \<le> real a / real b / 2 ^ p"
  proof -
    have "2 ^ p * (2 ^ d * real b) \<le> real a"
      using of_nat_le_iff [where 'a = real, THEN iffD2, OF lo] by (simp add: power_add mult.assoc)
    then show ?thesis using assms(3) by (simp add: field_simps)
  qed
  finally show ?thesis .
qed

text \<open>The bits behind the point are few when the quotient is not small.\<close>

lemma fp_wide_bits:
  assumes "0 < p" and "0 < a" and "0 < b" and "2 ^ (p - 1) * b \<le> a * 2 ^ 1074" and "fp_wide p a b = (m, k)" and "b \<le> a * 2 ^ i"
  shows "k \<le> p + i"
proof (cases "a < 2 ^ p * b")
  case False
  have "find (\<lambda>e. a < 2 ^ (p + e) * b) [0..<972] \<noteq> Some 0" using False by (auto simp: find_Some_iff)
  then show ?thesis
  proof (cases "find (\<lambda>e. a < 2 ^ (p + e) * b) [0..<972]")
    case None
    with assms(5) have "fp_round p a b = (m, k)" by (simp add: fp_wide_def)
    moreover have "fp_shift p a b = 0"
    proof -
      have "2 ^ (p - 1) * b \<le> 2 ^ p * b" by (intro mult_le_mono1 power_increasing) simp_all
      with False have "2 ^ (p - 1) * b \<le> a" by linarith
      then have "2 ^ (p - 1) * b \<le> a * 2 ^ (0::nat)" by simp
      then show ?thesis unfolding fp_shift_def by (simp add: find_upt_Some [of _ 0])
    qed
    ultimately show ?thesis by (simp add: fp_round_def)
  qed (use assms(5) \<open>find _ _ \<noteq> Some 0\<close> in \<open>auto simp: fp_wide_def split: nat.splits\<close>)
next
  case True
  then have "fp_round p a b = (m, k)" using assms(5) fp_wide_low by simp
  from fp_round_error(2) [OF assms(1-3) True assms(4) this] have l: "a * 2 ^ k < 2 ^ p * b" .
  show ?thesis
  proof (rule ccontr)
    assume "\<not> k \<le> p + i"
    then have "2 ^ (p + i) \<le> (2::nat) ^ k" by (intro power_increasing) simp_all
    then have "a * 2 ^ (p + i) \<le> a * 2 ^ k" by simp
    moreover have "2 ^ p * b \<le> a * 2 ^ (p + i)" using mult_le_mono2 [OF assms(6), of "2 ^ p"] by (simp add: power_add mult_ac)
    ultimately show False using l by linarith
  qed
qed

section \<open>The averages are accurate\<close>

text \<open>Relative errors in a row.\<close>

lemma near_trans:
  fixes x y z c d :: real
  assumes "\<bar>x - y\<bar> \<le> c * y" and "\<bar>y - z\<bar> \<le> d * z" and "0 \<le> c"
  shows "\<bar>x - z\<bar> \<le> (c + d + c * d) * z"
proof -
  have "y \<le> z + d * z" using assms(2) by (simp add: abs_le_iff)
  then have "c * y \<le> c * (z + d * z)" using assms(3) by (rule mult_left_mono)
  then have "\<bar>x - z\<bar> \<le> c * (z + d * z) + d * z" using assms(1,2) by linarith
  then show ?thesis by (simp add: algebra_simps)
qed

lemma near_mono: "\<bar>x - z\<bar> \<le> c * z \<Longrightarrow> c \<le> d \<Longrightarrow> 0 \<le> z \<Longrightarrow> \<bar>x - z\<bar> \<le> d * (z :: real)"
  using mult_right_mono [of c d z] by linarith

lemma near_bounds: "\<bar>x - z\<bar> \<le> c * z \<Longrightarrow> c \<le> 1 / 2 \<Longrightarrow> 0 \<le> z \<Longrightarrow> z / 2 \<le> x \<and> x \<le> 2 * (z :: real)"
  using near_mono [of x z c "1 / 2"] by linarith

text \<open>The text of a positive double of ordinary size is within 6 parts in ten millions of it.\<close>

lemma fmt_e_double_accuracy:
  assumes "k \<le> 149" and "0 < m" and "fp_val (m, k) < 2 ^ 128"
    and "parse_e (fmt_e_double nan (Double False (m, k))) = (neg, q, x)"
  shows "\<not> neg" and "\<bar>real q * 10 powi (x - 6) - fp_val (m, k)\<bar> \<le> 6 / 10 ^ 7 * fp_val (m, k)"
proof -
  define n where "n = m * 2 ^ (149 - k)"
  have "m * 2 ^ 149 = n * 2 ^ k" using assms(1) by (simp add: n_def flip: power_add)
  then have d: "m * 2 ^ 149 div 2 ^ k = n" by simp
  have V: "fp_val (m, k) = real n / 2 ^ 149"
    using arg_cong [OF \<open>m * 2 ^ 149 = n * 2 ^ k\<close>, of real] by (simp add: fp_val_def field_simps)
  have n0: "0 < n" using assms(2) by (simp add: n_def)
  have n1: "n < 2 ^ 277"
  proof -
    have "real n < 2 ^ 128 * 2 ^ 149" using assms(3) unfolding V by (simp add: field_simps)
    then have "real n < real (2 ^ 277)" by simp
    then show ?thesis by (simp only: of_nat_less_iff)
  qed
  obtain q' j where r: "round_e n = (q', j)" by force
  note sp = round_e_spec [OF n0 n1 r]
  have "fmt_e_double nan (Double False (m, k)) = mant_text q' @ exp_text j"
    using n0 d r by (simp add: fmt_e_double_def)
  with parse_unsigned [OF sp(2,3) refl, of False] assms(4) have eq: "\<not> neg" "q = q'" "x = int j - 45" by simp_all
  then show "\<not> neg" by simp
  define u :: real where "u = 10 ^ j / 10 ^ 51"
  have "(10::real) powi (int j - int 51) = 10 powi int j / 10 powi int 51" by (rule power_int_diff) simp
  then have T: "real q * 10 powi (x - 6) = real q * u" unfolding u_def eq(3) by (simp only: power_int_of_nat) simp
  from of_int_le_iff [where 'a = real, THEN iffD2, OF sp(4)]
  have "2 * \<bar>real q * (2 ^ 149 * 10 ^ j) - real n * 10 ^ 51\<bar> \<le> 2 ^ 149 * 10 ^ j" by (simp add: eq(2))
  then have "2 * \<bar>real q * (2 ^ 149 * 10 ^ j) - real n * 10 ^ 51\<bar> / (2 ^ 149 * 10 ^ 51) \<le> 2 ^ 149 * 10 ^ j / (2 ^ 149 * 10 ^ 51)"
    by (rule divide_right_mono) simp
  also have "2 ^ 149 * 10 ^ j / (2 ^ 149 * 10 ^ 51) = u" by (simp add: u_def)
  also have "2 * \<bar>real q * (2 ^ 149 * 10 ^ j) - real n * 10 ^ 51\<bar> / (2 ^ 149 * 10 ^ 51)
      = 2 * \<bar>(real q * (2 ^ 149 * 10 ^ j) - real n * 10 ^ 51) / (2 ^ 149 * 10 ^ 51)\<bar>"
    by (simp add: abs_divide)
  also have "(real q * (2 ^ 149 * 10 ^ j) - real n * 10 ^ 51) / (2 ^ 149 * 10 ^ 51) = real q * u - fp_val (m, k)"
    unfolding V u_def by (simp add: diff_divide_distrib)
  finally have b: "2 * \<bar>real q * u - fp_val (m, k)\<bar> \<le> u" .
  have u0: "0 < u" by (simp add: u_def)
  moreover have "real (10 ^ 6) \<le> real q" using sp(1) unfolding eq(2) by (simp only: of_nat_le_iff)
  ultimately have ql: "10 ^ 6 * u \<le> real q * u" by simp
  have "real q * u - fp_val (m, k) \<le> u / 2" using b abs_ge_self [of "real q * u - fp_val (m, k)"] by simp
  then have "u / 2 \<le> 6 / 10 ^ 7 * fp_val (m, k)"
  proof -
    assume "real q * u - fp_val (m, k) \<le> u / 2"
    moreover have "w - V \<le> u / 2 \<Longrightarrow> 10 ^ 6 * u \<le> w \<Longrightarrow> u / 2 \<le> 6 / 10 ^ 7 * V" for w V :: real
      using u0 by (simp add: field_simps)
    ultimately show ?thesis using ql by blast
  qed
  with b show "\<bar>real q * 10 powi (x - 6) - fp_val (m, k)\<bar> \<le> 6 / 10 ^ 7 * fp_val (m, k)" unfolding T by simp
qed

lemma average_accuracy:
  assumes "0 < D" and "D < 2 ^ 63" and "0 < N" and "N < 2 ^ 31"
    and "double_div_int (double_of_int (int D)) (int N) = y"
  obtains m k where "y = Double False (m, k)" "k \<le> 149" "0 < m" "fp_val (m, k) < 2 ^ 128"
    "\<bar>fp_val (m, k) - real D / real N\<bar> \<le> 1 / 10 ^ 7 * (real D / real N)"
proof -
  obtain m1 k1 where x1: "fp_wide 53 D 1 = (m1, k1)" by force
  obtain m k where x2: "fp_wide 53 m1 (2 ^ k1 * N) = (m, k)" by force
  define v where "v = fp_val (m1, k1)"
  have m1: "real m1 = v * 2 ^ k1" by (simp add: v_def fp_val_def)
  have e1: "\<bar>v - real D\<bar> \<le> 1 / 2 ^ 53 * real D"
    using fp_wide_relative [of 53 D 1] assms(1,2) unfolding x1 v_def by simp
  have D: "1 \<le> real D" "real D < 2 ^ 63"
    using assms(1) of_nat_less_iff [where 'a = real, THEN iffD2, OF assms(2)] by simp_all
  then have v: "1 / 2 \<le> v" "v < 2 ^ 64" using near_bounds [OF e1] by simp_all
  have m1_lo: "2 ^ k1 \<le> m1 * 2"
  proof -
    have "2 ^ k1 \<le> real m1 * 2" unfolding m1 using v(1) by simp
    then have "real (2 ^ k1) \<le> real (m1 * 2)" by simp
    then show ?thesis by (simp only: of_nat_le_iff)
  qed
  have m1_hi: "m1 < 2 ^ 64 * 2 ^ k1"
  proof -
    have "real m1 < 2 ^ 64 * 2 ^ k1" unfolding m1 using v(2) by simp
    then have "real m1 < real (2 ^ 64 * 2 ^ k1)" by simp
    then show ?thesis by (simp only: of_nat_less_iff)
  qed
  have m1_0: "0 < m1" using m1_lo by (cases m1) simp_all
  have b0: "0 < 2 ^ k1 * N" using assms(3) by simp
  have bN: "2 ^ k1 * N \<le> m1 * 2 ^ 32"
  proof -
    have "2 ^ k1 * N \<le> m1 * 2 * 2 ^ 31" using m1_lo assms(4) by (intro mult_le_mono) simp_all
    then show ?thesis by simp
  qed
  have up: "m1 < 2 ^ (53 + 971) * (2 ^ k1 * N)"
  proof -
    have "2 ^ 64 * 2 ^ k1 * 1 \<le> 2 ^ (53 + 971) * 2 ^ k1 * N" using assms(3) by (intro mult_le_mono power_increasing) simp_all
    with m1_hi show ?thesis by (simp only: mult_ac mult_1_right)
  qed
  have lo: "2 ^ (53 - 1) * (2 ^ k1 * N) \<le> m1 * 2 ^ 1074"
  proof -
    have "2 ^ (53 - 1) * (2 ^ k1 * N) \<le> 2 ^ 52 * (m1 * 2 ^ 32)" using mult_le_mono2 [OF bN, of "2 ^ 52"] by simp
    also have "\<dots> \<le> m1 * 2 ^ 1074" by (simp add: mult.left_commute)
    finally show ?thesis .
  qed
  have "\<bar>fp_val (m, k) - real m1 / real (2 ^ k1 * N)\<bar> \<le> real m1 / real (2 ^ k1 * N) / 2 ^ 53"
    using fp_wide_relative [OF _ m1_0 b0 up lo] unfolding x2 by simp
  moreover have "real m1 / real (2 ^ k1 * N) = v / real N" unfolding m1 by simp
  ultimately have e2: "\<bar>fp_val (m, k) - v / real N\<bar> \<le> 1 / 2 ^ 53 * (v / real N)" by simp
  define a where "a = real D / real N"
  have N: "0 < real N" using assms(3) by simp
  have "\<bar>v / real N - a\<bar> = \<bar>v - real D\<bar> / real N" unfolding a_def using N by (simp add: abs_divide flip: diff_divide_distrib)
  also have "\<dots> \<le> 1 / 2 ^ 53 * real D / real N" using e1 N by (intro divide_right_mono) simp_all
  finally have e3: "\<bar>v / real N - a\<bar> \<le> 1 / 2 ^ 53 * a" by (simp add: a_def)
  have a: "0 < a" "a < 2 ^ 63" using D N unfolding a_def
    by (simp_all add: divide_less_eq less_le_trans [of "real D" "2 ^ 63"])
  have acc: "\<bar>fp_val (m, k) - a\<bar> \<le> 1 / 10 ^ 7 * a"
    by (rule near_mono [OF near_trans [OF e2 e3]]) (use a in simp_all)
  then have "0 < fp_val (m, k)" "fp_val (m, k) < 2 ^ 128" using near_bounds [OF acc] a by simp_all
  moreover from this have "0 < m" by (cases m) (simp_all add: fp_val_def)
  moreover have "k \<le> 149" using fp_wide_bits [OF _ m1_0 b0 lo x2 bN] by simp
  moreover have "y = Double False (m, k)"
    using assms(3) unfolding assms(5) [symmetric] unfolding double_of_int_def double_div_int_def by (simp add: x1 [simplified] x2)
  ultimately show ?thesis using that acc unfolding a_def by blast
qed

section \<open>Properties\<close>

text \<open>
  C39. The average period that is written is the mean of the periods: for the log of a sensor with at least two samples, whose time
  stamps never go back, are less than 2^31 nanoseconds apart and not all equal, the text of the average is that of a positive
  number, which differs from the time between the first and the last sample, divided by the number of periods, by at most one part
  in a million, after the conversion to double, the division and the rounding to seven digits.
\<close>

theorem average_text_accurate:
  assumes "paced l" and "2 \<le> lg_taken l" and "lg_taken l \<le> NUM_SAMPLES" and "gents l 0 < gents l (lg_taken l - 1)"
    and "parse_e (fmt_e_double nan (average (sensor_stats l))) = (neg, q, x)"
  shows "\<not> neg \<and> \<bar>real q * 10 powi (x - 6) - real_of_int (gents l (lg_taken l - 1) - gents l 0) / real (lg_taken l - 1)\<bar>
    \<le> real_of_int (gents l (lg_taken l - 1) - gents l 0) / real (lg_taken l - 1) / 10 ^ 6"
proof -
  define D where "D = nat (gents l (lg_taken l - 1) - gents l 0)"
  define N where "N = lg_taken l - 1"
  have D: "gents l (lg_taken l - 1) - gents l 0 = int D" "0 < D" "D < 2 ^ 63"
    using assms(1,4) by (simp_all add: D_def paced_def nat_less_iff)
  have N: "0 < N" "N < 2 ^ 31" "int (lg_taken l) - 1 = int N" using assms(2,3) by (simp_all add: N_def NUM_SAMPLES_def)
  have s: "average (sensor_stats l) = double_div_int (double_of_int (int D)) (int N)"
    using stats_correct [OF assms(1,2)] D(1) N(3) by (simp add: average_def)
  obtain m k where y: "average (sensor_stats l) = Double False (m, k)" "k \<le> 149" "0 < m" "fp_val (m, k) < 2 ^ 128"
    "\<bar>fp_val (m, k) - real D / real N\<bar> \<le> 1 / 10 ^ 7 * (real D / real N)"
    using average_accuracy [OF D(2,3) N(1,2) s [symmetric]] by blast
  note t = fmt_e_double_accuracy [OF y(2-4) assms(5) [unfolded y(1)]]
  define a where "a = real D / real N"
  have "0 < a" using D(2) N(1) by (simp add: a_def)
  have "\<bar>real q * 10 powi (x - 6) - a\<bar> \<le> 1 / 10 ^ 6 * a"
    by (rule near_mono [OF near_trans [OF t(2) y(5) [folded a_def]]]) (use \<open>0 < a\<close> in simp_all)
  moreover have "real_of_int (gents l (lg_taken l - 1) - gents l 0) = real D" using D(1) by simp
  ultimately show ?thesis using t(1) unfolding N_def [symmetric] a_def by (simp only:) simp
qed

theorem average_text_accurate_witness:
  "\<exists>q x. parse_e (fmt_e_double [] (average (sensor_stats three_samples))) = (False, q, x)
     \<and> \<bar>real q * 10 powi (x - 6) - 25\<bar> \<le> 25 / 10 ^ 6"
proof -
  obtain neg q x where p: "parse_e (fmt_e_double [] (average (sensor_stats three_samples))) = (neg, q, x)"
    using prod_cases3 by blast
  have "2 \<le> lg_taken three_samples" "lg_taken three_samples \<le> NUM_SAMPLES"
    "gents three_samples 0 < gents three_samples (lg_taken three_samples - 1)"
    by (simp_all add: three_samples_def gents_def NUM_SAMPLES_def)
  from average_text_accurate [OF three_samples_paced this p]
  have "\<not> neg" "\<bar>real q * 10 powi (x - 6) - 25\<bar> \<le> 25 / 10 ^ 6" by (simp_all add: three_samples_def gents_def)
  with p show ?thesis by auto
qed

end
