(* ===== verification/Root.thy ===== *)
theory Root
  imports ServerStats ThreadInvariant
begin

text \<open>
  \<open>ze_coap_server_root.c\<close>: the set-up of the components, the launch of the two threads, and their end. The answers of the
  network functions, of \<open>malloc\<close>, of \<open>pthread_create\<close> and of the Java thread are in \<open>root_env\<close>; what happens to components and
  threads is recorded in order.
\<close>

section \<open>State\<close>

record addrinfo =
  ai_addrlen :: nat
  ai_family :: int
  ai_addr :: int

text \<open>
  \<open>ro_thread_end E th\<close> tells how a thread ends: \<open>None\<close> when its function returns, and otherwise why it does not (it waits for ever, it
  crashes, it exits the process).
\<close>

datatype thread = StreamingMngr | CoAPServer

record root_env =
  ro_getaddrinfo :: "addrinfo list option"
  ro_test_getaddrinfo :: "addrinfo list option"
  ro_addr_size :: nat
  ro_new_context :: "addrinfo \<Rightarrow> coap_ctx option"
  ro_sockfdtest :: int
  ro_socket :: "int \<Rightarrow> int"
  ro_bind :: "int \<Rightarrow> addrinfo \<Rightarrow> int"
  ro_malloc_smctx :: bool
  ro_malloc_smreqbuf :: bool
  ro_malloc_notbuf :: bool
  ro_fopen :: bool
  ro_create_sm :: int
  ro_create_server :: int
  ro_interrupted :: "nat \<Rightarrow> bool"
  ro_thread_end :: "thread \<Rightarrow> fault option"

datatype component = Cctx | Smctx | Smreqbuf | Notbuf
datatype root_event = Alloc component | Free component | Spawn thread | Join thread | Log_open | Log_close

text \<open>The second socket of the context: the descriptor the context holds, and whether it is open.\<close>

record test_socket =
  ts_sockfdtest :: int
  ts_open :: bool

record sm_thread_args =
  sa_smctx :: "sensor list"
  sa_smreqbuf :: request_buf
  sa_notbuf :: response_buf

record coap_thread_args =
  ca_cctx :: coap_ctx
  ca_smreqbuf :: request_buf
  ca_notbuf :: response_buf

record root_state =
  rt_counters :: net_counters
  rt_test :: test_socket
  rt_smargs :: "sm_thread_args option"
  rt_coapargs :: "coap_thread_args option"
  rt_globalexit :: int
  rt_events :: "root_event list"

definition rt_do :: "root_event list \<Rightarrow> root_state \<Rightarrow> root_state" where
  "rt_do es s = s\<lparr>rt_events := rt_events s @ es\<rparr>"

section \<open>The network\<close>

text \<open>The results of \<open>getaddrinfo\<close> are tried until one gives a context.\<close>

fun try_addresses :: "nat \<Rightarrow> (addrinfo \<Rightarrow> 'c option) \<Rightarrow> addrinfo list \<Rightarrow> 'c option" where
  "try_addresses addr_size coap_new_context [] = None"
| "try_addresses addr_size coap_new_context (rp # next) =
     (if ai_addrlen rp \<le> addr_size then
        (case coap_new_context rp of Some ctx \<Rightarrow> Some ctx | None \<Rightarrow> try_addresses addr_size coap_new_context next)
      else try_addresses addr_size coap_new_context next)"

definition get_coap_context :: "root_env \<Rightarrow> coap_ctx option" where
  "get_coap_context E =
     (case ro_getaddrinfo E of
        None \<Rightarrow> None
      | Some result \<Rightarrow> try_addresses (ro_addr_size E) (ro_new_context E) result)"

text \<open>
  Without a fitting address the local \<open>addr\<close> is never written, and its family is read. \<open>None\<close> is the end of the function without a
  return value; a socket that cannot be bound is closed, and its descriptor stays in the context.
\<close>

definition open_test_socket :: "root_env \<Rightarrow> test_socket \<Rightarrow> (int option \<times> test_socket) outcome" where
  "open_test_socket E c =
     (case ro_test_getaddrinfo E of
        None \<Rightarrow> Inr (Some 0, c)
      | Some result \<Rightarrow>
          (case find (\<lambda>rp. ai_addrlen rp \<le> ro_addr_size E) result of
             None \<Rightarrow> Inl Uninitialised
           | Some addr \<Rightarrow>
               let fd = ro_socket E (ai_family addr)
               in if fd < 0 then Inr (None, \<lparr>ts_sockfdtest = fd, ts_open = False\<rparr>)
                  else if ro_bind E fd addr < 0 then Inr (None, \<lparr>ts_sockfdtest = fd, ts_open = False\<rparr>)
                  else Inr (Some 1, \<lparr>ts_sockfdtest = fd, ts_open = True\<rparr>)))"

text \<open>\<open>get_streaming_manager\<close> (\<open>ze_streaming_manager.c\<close>): zeroed memory; the sensors are what the model keeps of it.\<close>

definition get_streaming_manager :: "bool \<Rightarrow> sensor list option" where
  "get_streaming_manager ok = (if ok then Some (replicate ZE_NUMSENSORS (blank_sensor 0)) else None)"

section \<open>The root\<close>

text \<open>\<open>while (!globalexit) { sleep(1); ... }\<close>.\<close>

fun wait_exit :: "root_env \<Rightarrow> nat \<Rightarrow> nat \<Rightarrow> root_state \<Rightarrow> root_state outcome" where
  "wait_exit E 0 n s = Inl StillWaiting"
| "wait_exit E (Suc fuel) n s =
     (if rt_globalexit s \<noteq> 0 then Inr s
      else wait_exit E fuel (n + 1) (if ro_interrupted E n then s\<lparr>rt_globalexit := 1\<rparr> else s))"

text \<open>
  \<open>pthread_join\<close> comes back only when the thread returns. A thread that crashes takes the process with it; the root notices it
  here at the latest.
\<close>

definition join_thread :: "root_env \<Rightarrow> thread \<Rightarrow> root_state \<Rightarrow> unit outcome \<times> root_state" where
  "join_thread E th s = (case ro_thread_end E th of Some e \<Rightarrow> (Inl e, s) | None \<Rightarrow> (Inr (), rt_do [Join th] s))"

definition join_threads :: "root_env \<Rightarrow> root_state \<Rightarrow> unit outcome \<times> root_state" where
  "join_threads E s =
     (case join_thread E StreamingMngr s of
        (Inl e, s1) \<Rightarrow> (Inl e, s1)
      | (Inr _, s1) \<Rightarrow> join_thread E CoAPServer s1)"

text \<open>The launch of the threads over the components, and what follows it.\<close>

definition run_threads :: "root_env \<Rightarrow> nat \<Rightarrow> root_state \<Rightarrow> int outcome \<times> root_state" where
  "run_threads E fuel s =
     (let s0 = s\<lparr>rt_globalexit := 0\<rparr>
      in if ro_create_sm E \<noteq> 0 then (Inl (Exit 1), s0)
         else let s1 = rt_do [Spawn StreamingMngr] s0
         in if ro_create_server E \<noteq> 0 then (Inl (Exit 1), s1)
            else let s2 = rt_do [Spawn CoAPServer] s1
            in case wait_exit E fuel 0 s2 of
                 Inl e \<Rightarrow> (Inl e, s2)
               | Inr s3 \<Rightarrow>
                   (case join_threads E s3 of
                      (Inl e, s4) \<Rightarrow> (Inl e, s4)
                    | (Inr _, s4) \<Rightarrow> (Inr 1, rt_do [Free Cctx, Free Smctx, Free Smreqbuf, Free Notbuf, Log_close] s4)))"

definition ze_server_root :: "root_env \<Rightarrow> nat \<Rightarrow> root_state \<Rightarrow> int outcome \<times> root_state" where
  "ze_server_root E fuel s =
     (let s0 = s\<lparr>rt_counters := reset_counters\<rparr>
      in case get_coap_context E of
           None \<Rightarrow> (Inr (-1), s0)
         | Some cctx \<Rightarrow>
      let s1 = rt_do [Alloc Cctx] s0
      in case open_test_socket E \<lparr>ts_sockfdtest = ro_sockfdtest E, ts_open = False\<rparr> of
           Inl e \<Rightarrow> (Inl e, s1)
         | Inr (_, test) \<Rightarrow>
      let s2 = s1\<lparr>rt_test := test\<rparr>
      in case get_streaming_manager (ro_malloc_smctx E) of
           None \<Rightarrow> (Inr (-1), s2)
         | Some smctx \<Rightarrow>
      let s3 = rt_do [Alloc Smctx] s2
      in case init_sm_buf (ro_malloc_smreqbuf E) of
           None \<Rightarrow> (Inr (-1), s3)
         | Some smreqbuf \<Rightarrow>
      let s4 = rt_do [Alloc Smreqbuf] s3
      in case init_coap_buf (ro_malloc_notbuf E) of
           None \<Rightarrow> (Inr (-1), s4)
         | Some notbuf \<Rightarrow>
      let s5 = rt_do [Alloc Notbuf] s4
      in if \<not> ro_fopen E then (Inr (-1), s5)
         else
           let s6 = rt_do [Log_open] s5;
               cctx1 = ze_coap_init_resources cctx
           in run_threads E fuel (s6\<lparr>rt_smargs := Some \<lparr>sa_smctx = smctx, sa_smreqbuf = smreqbuf, sa_notbuf = notbuf\<rparr>,
                rt_coapargs := Some \<lparr>ca_cctx = cctx1, ca_smreqbuf = smreqbuf, ca_notbuf = notbuf\<rparr>\<rparr>))"

section \<open>The set-up\<close>

text \<open>The addresses are tried in order: the context is that of the first address that fits and can be opened.\<close>

lemma try_addresses_first:
  "try_addresses k new rps = (case List.map_filter (\<lambda>rp. if ai_addrlen rp \<le> k then new rp else None) rps of
    [] \<Rightarrow> None | c # cs \<Rightarrow> Some c)"
  by (induction rps) (auto simp: List.map_filter_simps split: option.splits)

definition opened :: "root_env \<Rightarrow> (int option \<times> test_socket) outcome" where
  "opened E = open_test_socket E \<lparr>ts_sockfdtest = ro_sockfdtest E, ts_open = False\<rparr>"

text \<open>The components are there and the log is open.\<close>

definition set_up :: "root_env \<Rightarrow> bool" where
  "set_up E \<longleftrightarrow> get_coap_context E \<noteq> None \<and> (\<exists>rt. opened E = Inr rt) \<and> ro_malloc_smctx E \<and> ro_malloc_smreqbuf E
     \<and> ro_malloc_notbuf E \<and> ro_fopen E"

definition fresh_smreqbuf :: request_buf where "fresh_smreqbuf = the (init_sm_buf True)"
definition fresh_notbuf :: response_buf where "fresh_notbuf = the (init_coap_buf True)"

lemma init_bufs [simp]:
  "init_sm_buf ok = (if ok then Some fresh_smreqbuf else None)" "init_coap_buf ok = (if ok then Some fresh_notbuf else None)"
  by (simp_all add: fresh_smreqbuf_def fresh_notbuf_def init_sm_buf_def init_coap_buf_def)

definition launched :: "root_env \<Rightarrow> root_state \<Rightarrow> root_state" where
  "launched E s = s\<lparr>rt_counters := reset_counters, rt_test := (case opened E of Inr (_, t) \<Rightarrow> t | Inl _ \<Rightarrow> rt_test s),
     rt_events := rt_events s @ [Alloc Cctx, Alloc Smctx, Alloc Smreqbuf, Alloc Notbuf, Log_open],
     rt_smargs := Some \<lparr>sa_smctx = replicate ZE_NUMSENSORS (blank_sensor 0), sa_smreqbuf = fresh_smreqbuf,
       sa_notbuf = fresh_notbuf\<rparr>,
     rt_coapargs := Some \<lparr>ca_cctx = ze_coap_init_resources (the (get_coap_context E)), ca_smreqbuf = fresh_smreqbuf,
       ca_notbuf = fresh_notbuf\<rparr>\<rparr>"

lemma root_set_up: "set_up E \<Longrightarrow> ze_server_root E fuel s = run_threads E fuel (launched E s)"
proof -
  assume set_up: "set_up E"
  then obtain c r t where e: "get_coap_context E = Some c" "opened E = Inr (r, t)" by (auto simp: set_up_def)
  have m: "ro_malloc_smctx E" "ro_malloc_smreqbuf E" "ro_malloc_notbuf E" "ro_fopen E" using set_up by (simp_all add: set_up_def)
  show ?thesis
    unfolding ze_server_root_def launched_def opened_def [symmetric] Let_def e option.case sum.case prod.case
    by (simp add: m get_streaming_manager_def rt_do_def)
qed

text \<open>Otherwise it ends with what it has allocated so far, in order, and starts nothing.\<close>

lemma root_not_set_up:
  assumes "\<not> set_up E"
  obtains r n where "fst (ze_server_root E fuel s) = r" "r = Inr (-1) \<or> r = Inl Uninitialised"
    "rt_events (snd (ze_server_root E fuel s)) = rt_events s @ take n [Alloc Cctx, Alloc Smctx, Alloc Smreqbuf, Alloc Notbuf]"
    "0 < n \<longleftrightarrow> get_coap_context E \<noteq> None"
    "rt_smargs (snd (ze_server_root E fuel s)) = rt_smargs s"
proof -
  let ?R = "ze_server_root E fuel s"
  have u: "opened E = Inl e \<Longrightarrow> e = Uninitialised" for e
    by (auto simp: opened_def open_test_socket_def Let_def split: option.splits if_splits)
  consider (ctx) "get_coap_context E = None"
    | (test) c where "get_coap_context E = Some c" "opened E = Inl Uninitialised"
    | (mgr) c rt where "get_coap_context E = Some c" "opened E = Inr rt" "\<not> ro_malloc_smctx E"
    | (req) c rt where "get_coap_context E = Some c" "opened E = Inr rt" "ro_malloc_smctx E" "\<not> ro_malloc_smreqbuf E"
    | (notb) c rt where "get_coap_context E = Some c" "opened E = Inr rt" "ro_malloc_smctx E" "ro_malloc_smreqbuf E" "\<not> ro_malloc_notbuf E"
    | (log) c rt where "get_coap_context E = Some c" "opened E = Inr rt" "ro_malloc_smctx E" "ro_malloc_smreqbuf E" "ro_malloc_notbuf E"
        "\<not> ro_fopen E"
  proof -
    have "opened E = Inl Uninitialised \<or> (\<exists>rt. opened E = Inr rt)" using u by (cases "opened E") simp_all
    moreover have "get_coap_context E = None \<or> (\<exists>c. get_coap_context E = Some c)" by auto
    ultimately show thesis using assms that unfolding set_up_def by blast
  qed
  then show ?thesis
  proof cases
    case ctx
    show ?thesis by (rule that [of "Inr (-1)" 0]) (simp_all add: ctx ze_server_root_def)
  next
    case test
    show ?thesis by (rule that [of "Inl Uninitialised" 1])
      (simp_all add: test test(2) [unfolded opened_def] ze_server_root_def rt_do_def)
  next
    case mgr
    show ?thesis by (rule that [of "Inr (-1)" 1])
      (simp_all add: mgr mgr(2) [unfolded opened_def] ze_server_root_def rt_do_def get_streaming_manager_def split_def)
  next
    case req
    show ?thesis by (rule that [of "Inr (-1)" 2])
      (simp_all add: req req(2) [unfolded opened_def] ze_server_root_def rt_do_def get_streaming_manager_def split_def)
  next
    case notb
    show ?thesis by (rule that [of "Inr (-1)" 3])
      (simp_all add: notb notb(2) [unfolded opened_def] ze_server_root_def rt_do_def get_streaming_manager_def split_def numeral_eq_Suc)
  next
    case log
    show ?thesis by (rule that [of "Inr (-1)" 4])
      (simp_all add: log log(2) [unfolded opened_def] ze_server_root_def rt_do_def get_streaming_manager_def split_def numeral_eq_Suc)
  qed
qed

section \<open>Waiting for the end\<close>

lemma wait_exit_set: "rt_globalexit s \<noteq> 0 \<Longrightarrow> 0 < fuel \<Longrightarrow> wait_exit E fuel n s = Inr s"
  by (cases fuel) simp_all

lemma wait_exit_interrupted:
  assumes "ro_interrupted E (n + k)" and "\<forall>j<k. \<not> ro_interrupted E (n + j)" and "rt_globalexit s = 0" and "k + 1 < fuel"
  shows "wait_exit E fuel n s = Inr (s\<lparr>rt_globalexit := 1\<rparr>)"
  using assms
proof (induction k arbitrary: n fuel)
  case 0
  then show ?case by (cases fuel) (simp_all add: wait_exit_set)
next
  case (Suc k)
  then obtain f where f: "fuel = Suc f" "k + 1 < f" by (cases fuel) auto
  have "wait_exit E f (n + 1) s = Inr (s\<lparr>rt_globalexit := 1\<rparr>)"
    using Suc.prems f by (intro Suc.IH) auto
  moreover have "\<not> ro_interrupted E n" using Suc.prems(2) by auto
  ultimately show ?case using f Suc.prems(3) by simp
qed


lemma wait_exit_keeps: "wait_exit E fuel n s = Inr t \<Longrightarrow> \<exists>v. t = s\<lparr>rt_globalexit := v\<rparr>"
proof (induction fuel arbitrary: n s)
  case (Suc fuel)
  show ?case
  proof (cases "rt_globalexit s = 0")
    case True
    then have "wait_exit E fuel (n + 1) (if ro_interrupted E n then s\<lparr>rt_globalexit := 1\<rparr> else s) = Inr t"
      using Suc.prems by simp
    from Suc.IH [OF this] show ?thesis by (auto split: if_splits)
  next
    case False
    with Suc.prems have "t = s\<lparr>rt_globalexit := rt_globalexit s\<rparr>" by simp
    then show ?thesis by blast
  qed
qed simp

section \<open>The order of events\<close>

text \<open>
  A monitor of the events: a component is allocated once and freed only when it is there and no thread runs; a thread is started over
  all four components, and only a running thread is joined.
\<close>

fun in_order :: "component list \<Rightarrow> thread list \<Rightarrow> root_event list \<Rightarrow> bool" where
  "in_order there running [] \<longleftrightarrow> True"
| "in_order there running (Alloc c # es) \<longleftrightarrow> c \<notin> set there \<and> in_order (c # there) running es"
| "in_order there running (Free c # es) \<longleftrightarrow> c \<in> set there \<and> running = [] \<and> in_order (removeAll c there) running es"
| "in_order there running (Spawn th # es) \<longleftrightarrow>
     {Cctx, Smctx, Smreqbuf, Notbuf} \<subseteq> set there \<and> th \<notin> set running \<and> in_order there (th # running) es"
| "in_order there running (Join th # es) \<longleftrightarrow> th \<in> set running \<and> in_order there (removeAll th running) es"
| "in_order there running (Log_open # es) \<longleftrightarrow> in_order there running es"
| "in_order there running (Log_close # es) \<longleftrightarrow> running = [] \<and> in_order there running es"

lemma in_order_prefix: "in_order there running (es @ fs) \<Longrightarrow> in_order there running es"
proof (induction es arbitrary: there running)
  case (Cons e es)
  then show ?case by (cases e) auto
qed simp

text \<open>What keeps the root from coming back: the first thread, in the order of the joins, that does not return.\<close>

definition not_joined :: "root_env \<Rightarrow> fault option" where
  "not_joined E = (case ro_thread_end E StreamingMngr of Some e \<Rightarrow> Some e | None \<Rightarrow> ro_thread_end E CoAPServer)"

lemma join_threads_cases:
  "not_joined E = None \<Longrightarrow> join_threads E s = (Inr (), rt_do [Join StreamingMngr, Join CoAPServer] s)"
  "not_joined E = Some e \<Longrightarrow>
    join_threads E s = (Inl e, rt_do (if ro_thread_end E StreamingMngr = None then [Join StreamingMngr] else []) s)"
  by (cases s; auto simp: not_joined_def join_threads_def join_thread_def rt_do_def split: option.splits)+

definition run_events :: "root_event list set" where
  "run_events = {[], [Spawn StreamingMngr], [Spawn StreamingMngr, Spawn CoAPServer],
     [Spawn StreamingMngr, Spawn CoAPServer, Join StreamingMngr],
     [Spawn StreamingMngr, Spawn CoAPServer, Join StreamingMngr, Join CoAPServer, Free Cctx, Free Smctx, Free Smreqbuf,
      Free Notbuf, Log_close]}"

lemma run_threads_events:
  "\<exists>es\<in>run_events. rt_events (snd (run_threads E fuel s)) = rt_events s @ es"
proof (cases "wait_exit E fuel 0 (rt_do [Spawn CoAPServer] (rt_do [Spawn StreamingMngr] (s\<lparr>rt_globalexit := 0\<rparr>)))")
  case (Inr t)
  from wait_exit_keeps [OF Inr] Inr show ?thesis
    by (cases "not_joined E") (auto simp: run_threads_def run_events_def join_threads_cases Let_def rt_do_def)
qed (auto simp: run_threads_def run_events_def Let_def rt_do_def)

lemma run_threads_keeps:
  "rt_smargs (snd (run_threads E fuel s)) = rt_smargs s" "rt_test (snd (run_threads E fuel s)) = rt_test s"
proof -
  let ?s2 = "rt_do [Spawn CoAPServer] (rt_do [Spawn StreamingMngr] (s\<lparr>rt_globalexit := 0\<rparr>))"
  have k: "rt_smargs t = rt_smargs s \<and> rt_test t = rt_test s" if "wait_exit E fuel 0 ?s2 = Inr t" for t
    using wait_exit_keeps [OF that] by (auto simp: rt_do_def)
  have j: "rt_smargs (snd (join_threads E u)) = rt_smargs u" "rt_test (snd (join_threads E u)) = rt_test u" for u
    by (cases "not_joined E"; simp add: join_threads_cases rt_do_def)+
  show "rt_smargs (snd (run_threads E fuel s)) = rt_smargs s" "rt_test (snd (run_threads E fuel s)) = rt_test s"
    using k j unfolding run_threads_def Let_def
    by (cases "wait_exit E fuel 0 ?s2"; simp add: rt_do_def split_def split: sum.split)+
qed

text \<open>The test socket plays no part in the result.\<close>

lemma wait_exit_test: "wait_exit E fuel n (s\<lparr>rt_test := t\<rparr>) = map_sum id (\<lambda>u. u\<lparr>rt_test := t\<rparr>) (wait_exit E fuel n s)"
proof (induction fuel arbitrary: n s)
  case (Suc fuel)
  have u: "s\<lparr>rt_test := t, rt_globalexit := 1\<rparr> = s\<lparr>rt_globalexit := 1, rt_test := t\<rparr>" by simp
  show ?case by (simp add: Suc.IH u)
qed simp

lemma run_threads_test: "fst (run_threads E fuel (s\<lparr>rt_test := t\<rparr>)) = fst (run_threads E fuel s)"
proof -
  let ?f = "\<lambda>s. rt_do [Spawn CoAPServer] (rt_do [Spawn StreamingMngr] (s\<lparr>rt_globalexit := 0\<rparr>))"
  have "?f (s\<lparr>rt_test := t\<rparr>) = (?f s)\<lparr>rt_test := t\<rparr>" by (simp add: rt_do_def)
  then have "wait_exit E fuel 0 (?f (s\<lparr>rt_test := t\<rparr>)) = map_sum id (\<lambda>u. u\<lparr>rt_test := t\<rparr>) (wait_exit E fuel 0 (?f s))"
    by (simp only: wait_exit_test)
  moreover have "fst (join_threads E u) = (case not_joined E of None \<Rightarrow> Inr () | Some e \<Rightarrow> Inl e)" for u
    by (cases "not_joined E") (simp_all add: join_threads_cases)
  ultimately show ?thesis unfolding run_threads_def Let_def
    by (cases "wait_exit E fuel 0 (?f s)") (simp_all add: split_def split: sum.split)
qed

section \<open>Properties\<close>

text \<open>
  C17. In every run of the root, with whatever answers of the system and however it ends: no component is allocated or freed twice, the
  threads start only when all four components are there, each thread is joined at most once, and a component is freed, and the log closed,
  only when no thread runs.
\<close>

theorem component_lifetimes: "in_order [] [] (rt_events (snd (ze_server_root E fuel (s\<lparr>rt_events := []\<rparr>))))"
proof (cases "set_up E")
  case True
  obtain es where es: "rt_events (snd (run_threads E fuel (launched E (s\<lparr>rt_events := []\<rparr>))))
      = rt_events (launched E (s\<lparr>rt_events := []\<rparr>)) @ es" "es \<in> run_events"
    using run_threads_events by blast
  then have "in_order [] [] ([Alloc Cctx, Alloc Smctx, Alloc Smreqbuf, Alloc Notbuf, Log_open] @ es)"
    unfolding run_events_def by (elim insertE emptyE) simp_all
  then show ?thesis using es(1) root_set_up [OF True] by (simp add: launched_def)
next
  case False
  obtain n where e: "rt_events (snd (ze_server_root E fuel (s\<lparr>rt_events := []\<rparr>)))
      = rt_events (s\<lparr>rt_events := []\<rparr>) @ take n [Alloc Cctx, Alloc Smctx, Alloc Smreqbuf, Alloc Notbuf]"
    using root_not_set_up [OF False] by blast
  have "in_order [] [] (take n [Alloc Cctx, Alloc Smctx, Alloc Smreqbuf, Alloc Notbuf]
      @ drop n [Alloc Cctx, Alloc Smctx, Alloc Smreqbuf, Alloc Notbuf])"
    unfolding append_take_drop_id by simp
  from in_order_prefix [OF this] show ?thesis unfolding e by simp
qed


definition sample_env :: root_env where
  "sample_env = \<lparr>ro_getaddrinfo = Some [\<lparr>ai_addrlen = 100, ai_family = 2, ai_addr = 0\<rparr>, \<lparr>ai_addrlen = 16, ai_family = 2, ai_addr = 1\<rparr>],
     ro_test_getaddrinfo = Some [\<lparr>ai_addrlen = 16, ai_family = 2, ai_addr = 1\<rparr>], ro_addr_size = 28,
     ro_new_context = (\<lambda>rp. Some (empty_ctx Map.empty)), ro_sockfdtest = 0, ro_socket = (\<lambda>_. 5), ro_bind = (\<lambda>_ _. 0),
     ro_malloc_smctx = True, ro_malloc_smreqbuf = True, ro_malloc_notbuf = True, ro_fopen = True, ro_create_sm = 0,
     ro_create_server = 0, ro_interrupted = (\<lambda>n. n = 3), ro_thread_end = (\<lambda>_. None)\<rparr>"

definition sample_root :: root_state where
  "sample_root = \<lparr>rt_counters = reset_counters, rt_test = \<lparr>ts_sockfdtest = 0, ts_open = False\<rparr>, rt_smargs = None,
     rt_coapargs = None, rt_globalexit = 0, rt_events = []\<rparr>"

lemma sample_env_opened: "opened sample_env = Inr (Some 1, \<lparr>ts_sockfdtest = 5, ts_open = True\<rparr>)"
  by (simp add: opened_def open_test_socket_def sample_env_def)

lemma sample_env_set_up: "set_up sample_env"
  using sample_env_opened by (simp add: set_up_def get_coap_context_def) (simp add: sample_env_def)


text \<open>
  A set-up that fails after the context was opened leaves everything behind: the root returns -1 (or reads the address of the test socket
  that was never written), no thread has been started, the context and all components allocated so far are still allocated, nothing
  was freed, and the listening socket stays open.
\<close>

theorem failed_set_up_leaks:
  assumes "\<not> set_up E" and "get_coap_context E \<noteq> None" and "rt_events s = []"
  shows "fst (ze_server_root E fuel s) \<in> {Inr (-1), Inl Uninitialised}
    \<and> Alloc Cctx \<in> set (rt_events (snd (ze_server_root E fuel s)))
    \<and> (\<forall>c th. Free c \<notin> set (rt_events (snd (ze_server_root E fuel s))) \<and> Spawn th \<notin> set (rt_events (snd (ze_server_root E fuel s))))"
proof -
  obtain n where e: "rt_events (snd (ze_server_root E fuel s)) = take n [Alloc Cctx, Alloc Smctx, Alloc Smreqbuf, Alloc Notbuf]"
    "0 < n" "fst (ze_server_root E fuel s) \<in> {Inr (-1), Inl Uninitialised}"
  proof -
    obtain r n where "fst (ze_server_root E fuel s) = r" "r = Inr (-1) \<or> r = Inl Uninitialised"
      "rt_events (snd (ze_server_root E fuel s)) = rt_events s @ take n [Alloc Cctx, Alloc Smctx, Alloc Smreqbuf, Alloc Notbuf]"
      "0 < n \<longleftrightarrow> get_coap_context E \<noteq> None"
      using root_not_set_up [OF assms(1)] by blast
    with assms(2,3) show thesis by (intro that [of n]) auto
  qed
  moreover have "set (take n [Alloc Cctx, Alloc Smctx, Alloc Smreqbuf, Alloc Notbuf]) \<subseteq> {Alloc Cctx, Alloc Smctx, Alloc Smreqbuf, Alloc Notbuf}"
    using set_take_subset [of n "[Alloc Cctx, Alloc Smctx, Alloc Smreqbuf, Alloc Notbuf]"] by simp
  ultimately show ?thesis unfolding e by (cases n) auto
qed

theorem failed_set_up_leaks_witness:
  "Alloc Cctx \<in> set (rt_events (snd (ze_server_root (sample_env\<lparr>ro_fopen := False\<rparr>) 9 sample_root)))"
proof -
  have "\<not> set_up (sample_env\<lparr>ro_fopen := False\<rparr>)" "get_coap_context (sample_env\<lparr>ro_fopen := False\<rparr>) \<noteq> None"
    "rt_events sample_root = []"
    by (simp_all add: set_up_def get_coap_context_def sample_env_def sample_root_def)
  from failed_set_up_leaks [OF this] show ?thesis by blast
qed

text \<open>
  C20. The set-up ends in an initial state of the system: when the root has handed its components to the Streaming Manager thread and that
  thread's preparation succeeds, over a world that keeps its promises and with nothing left in the flushed sensor queue, the loop starts in a
  reachable state with no stream, no oneshot and no request or response waiting, so what holds of the reachable states holds of the program.
\<close>

theorem program_starts_reachable:
  assumes "rt_smargs s = None" and "rt_smargs (snd (ze_server_root E fuel s)) = Some a"
    and "sm_sensors u = sa_smctx a" and "sm_smreqbuf u = sa_smreqbuf a" and "sm_notbuf u = sa_notbuf a"
    and "world_ok (sm_world u)" and "utlists_ok (sm_world u)" and "w_issued (sm_world u) = []" and "w_taken (sm_world u) = []"
    and "flush_sensor_queue (sm_events u) = []"
    and "thread_start ok err mtx u = Inr (Some t)"
  shows "sm_reachable f t \<and> requests (sm_smreqbuf t) = [] \<and> responses (sm_notbuf t) = []
    \<and> (\<forall>i. sensor_ix i \<longrightarrow> sn_streams (sensor_at t i) = [] \<and> sn_oneshots (sensor_at t i) = [])"
proof -
  have "set_up E" using root_not_set_up [of E fuel s] assms(1,2) by fastforce
  then have "a = \<lparr>sa_smctx = replicate ZE_NUMSENSORS (blank_sensor 0), sa_smreqbuf = fresh_smreqbuf, sa_notbuf = fresh_notbuf\<rparr>"
    using assms(2) root_set_up [of E fuel s] run_threads_keeps [of E fuel "launched E s"] by (simp add: launched_def)
  then have t: "t = quiet_state\<lparr>sm_world := sm_world u\<rparr>"
    using thread_start_eq [of u ok err mtx] assms(3-11)
    by (simp add: ZE_NUMSENSORS_def quiet_state_def split: if_splits)
  with assms(6-9) have i: "sm_initial t" unfolding sm_initial_def by blast
  have "sn_streams (sensor_at t j) = [] \<and> sn_oneshots (sensor_at t j) = []" if "sensor_ix j" for j
    using that by (simp add: t quiet_state_def sensor_at_def sensor_ix_def ZE_NUMSENSORS_def blank_sensor_def nat_less_iff)
  moreover have "requests (sm_smreqbuf t) = []" "responses (sm_notbuf t) = []"
    using init_sm_buf_wf [of True] init_coap_buf_wf [of True]
    by (simp_all add: t quiet_state_def del: ring_list_empty_iff)
  ultimately show ?thesis using sm_reachable.start [OF i] by blast
qed

theorem program_starts_reachable_witness: "\<exists>t. sm_reachable 0 t \<and> requests (sm_smreqbuf t) = []"
proof -
  let ?a = "\<lparr>sa_smctx = replicate ZE_NUMSENSORS (blank_sensor 0), sa_smreqbuf = fresh_smreqbuf, sa_notbuf = fresh_notbuf\<rparr>"
  let ?u = "quiet_state\<lparr>sm_sensors := replicate ZE_NUMSENSORS (blank_sensor 0)\<rparr>"
  have a: "rt_smargs sample_root = None" "rt_smargs (snd (ze_server_root sample_env 9 sample_root)) = Some ?a"
    using root_set_up [OF sample_env_set_up, of 9 sample_root] run_threads_keeps [of sample_env 9 "launched sample_env sample_root"]
    by (simp_all add: sample_root_def launched_def)
  have u: "sm_sensors ?u = sa_smctx ?a" "sm_smreqbuf ?u = sa_smreqbuf ?a" "sm_notbuf ?u = sa_notbuf ?a"
    "world_ok (sm_world ?u)" "utlists_ok (sm_world ?u)" "w_issued (sm_world ?u) = []" "w_taken (sm_world ?u) = []"
    "flush_sensor_queue (sm_events ?u) = []"
    using quiet_world_ok quiet_world_new by (simp_all add: quiet_state_def)
  have "\<exists>t. thread_start True 0 (\<lambda>_. 0) ?u = Inr (Some t)"
    using thread_start_eq [of ?u True 0 "\<lambda>_. 0"] u by (simp add: ZE_NUMSENSORS_def)
  with program_starts_reachable [OF a u] show ?thesis by blast
qed

text \<open>
  The root does not notice that the test socket could not be bound: it goes on as if it had been, and leaves in the context the number
  of a descriptor that \<open>open_test_socket\<close> has closed, to which the first sender report will be mirrored.
\<close>

theorem unbound_test_socket_ignored:
  assumes "set_up E" and "ro_test_getaddrinfo E = Some (addr # result)" and "ai_addrlen addr \<le> ro_addr_size E"
    and "0 \<le> ro_socket E (ai_family addr)" and "ro_bind E (ro_socket E (ai_family addr)) addr < 0"
  shows "rt_test (snd (ze_server_root E fuel s)) = \<lparr>ts_sockfdtest = ro_socket E (ai_family addr), ts_open = False\<rparr>
    \<and> fst (ze_server_root E fuel s) = fst (ze_server_root (E\<lparr>ro_bind := (\<lambda>_ _. 0)\<rparr>) fuel s)"
proof -
  let ?E = "E\<lparr>ro_bind := (\<lambda>_ _. 0)\<rparr>"
  have o: "opened E = Inr (None, \<lparr>ts_sockfdtest = ro_socket E (ai_family addr), ts_open = False\<rparr>)"
    using assms(2-5) by (simp add: opened_def open_test_socket_def)
  have o': "opened ?E = Inr (Some 1, \<lparr>ts_sockfdtest = ro_socket E (ai_family addr), ts_open = True\<rparr>)"
    using assms(2-4) by (simp add: opened_def open_test_socket_def)
  have "get_coap_context ?E = get_coap_context E" by (simp add: get_coap_context_def split: option.split)
  with assms(1) o' have s': "set_up ?E" by (simp add: set_up_def)
  have "wait_exit ?E f n u = wait_exit E f n u" for f n u by (induction f arbitrary: n u) simp_all
  moreover have "join_thread ?E th u = join_thread E th u" for th u by (simp add: join_thread_def)
  then have "join_threads ?E u = join_threads E u" for u by (simp add: join_threads_def split: prod.split sum.split)
  ultimately have "run_threads ?E fuel u = run_threads E fuel u" for u by (simp add: run_threads_def Let_def split: sum.split)
  moreover have "launched ?E s = (launched E s)\<lparr>rt_test := \<lparr>ts_sockfdtest = ro_socket E (ai_family addr), ts_open = True\<rparr>\<rparr>"
    using o o' \<open>get_coap_context ?E = get_coap_context E\<close> by (simp add: launched_def)
  ultimately have "fst (ze_server_root ?E fuel s) = fst (ze_server_root E fuel s)"
    using root_set_up [OF s'] root_set_up [OF assms(1)] run_threads_test by simp
  moreover have "rt_test (snd (ze_server_root E fuel s)) = rt_test (launched E s)"
    using root_set_up [OF assms(1)] run_threads_keeps by simp
  ultimately show ?thesis using o by (simp add: launched_def)
qed

theorem unbound_test_socket_ignored_witness:
  "\<exists>F. \<forall>fuel\<ge>F. fst (ze_server_root (sample_env\<lparr>ro_bind := (\<lambda>_ _. -1)\<rparr>) fuel sample_root) = Inr 1
     \<and> rt_test (snd (ze_server_root (sample_env\<lparr>ro_bind := (\<lambda>_ _. -1)\<rparr>) fuel sample_root)) = \<lparr>ts_sockfdtest = 5, ts_open = False\<rparr>"
proof -
  let ?E = "sample_env\<lparr>ro_bind := (\<lambda>_ _. -1)\<rparr>" and ?a = "\<lparr>ai_addrlen = 16, ai_family = 2, ai_addr = 1\<rparr>"
  have o: "opened ?E = Inr (None, \<lparr>ts_sockfdtest = 5, ts_open = False\<rparr>)"
    by (simp add: opened_def open_test_socket_def sample_env_def)
  have s: "set_up ?E" using o by (simp add: set_up_def get_coap_context_def) (simp add: sample_env_def)
  have c: "ro_test_getaddrinfo ?E = Some [?a]" "ai_addrlen ?a \<le> ro_addr_size ?E" "0 \<le> ro_socket ?E (ai_family ?a)"
    "ro_bind ?E (ro_socket ?E (ai_family ?a)) ?a < 0" "ro_socket ?E (ai_family ?a) = 5"
    by (simp_all add: sample_env_def)
  have b: "?E\<lparr>ro_bind := (\<lambda>_ _. 0)\<rparr> = sample_env" by (simp add: sample_env_def)
  have w: "ro_interrupted sample_env (0 + 3)" "\<forall>j<3. \<not> ro_interrupted sample_env (0 + j)"
    "ro_create_sm sample_env = 0" "ro_create_server sample_env = 0" and j: "not_joined sample_env = None"
    by (simp_all add: sample_env_def not_joined_def)
  have "fst (ze_server_root sample_env fuel sample_root) = Inr 1" if "5 \<le> fuel" for fuel
    using root_set_up [OF sample_env_set_up, of fuel sample_root] w(3,4) that
      wait_exit_interrupted [OF w(1,2), of _ fuel]
    by (simp add: run_threads_def join_threads_cases(1) [OF j] Let_def rt_do_def)
  with unbound_test_socket_ignored [OF s c(1-4), of _ sample_root] show ?thesis
    unfolding b c(5) by (intro exI [of _ 5]) simp
qed

end
