(* ===== verification/StreamingMain.thy ===== *)
theory StreamingMain
  imports StatsText Root ThreadFrame
begin

text \<open>
  \<open>ze_coap_streaming_thread\<close> from its start to its return: the preparation, the loop until \<open>globalexit\<close>, the report of the
  streams, and the wait for the carrier threads.
\<close>

section \<open>Operations\<close>

text \<open>
  \<open>exit n\<close> is \<open>globalexit\<close> at the n-th test of the loop; \<open>others n\<close> is what the other threads and the sensors have done to the
  shared state by then.
\<close>

fun streaming_loop :: "nat \<Rightarrow> (nat \<Rightarrow> bool) \<Rightarrow> (nat \<Rightarrow> sm_state \<Rightarrow> sm_state) \<Rightarrow> nat \<Rightarrow> nat \<Rightarrow> sm_state \<Rightarrow> sm_state outcome" where
  "streaming_loop fuel exit others 0 n s = Inl StillWaiting"
| "streaming_loop fuel exit others (Suc rounds) n s =
     (if exit n then Inr s
      else bindR (thread_iteration fuel (others n s)) (streaming_loop fuel exit others rounds (n + 1)))"

fun stream_lines :: "string \<Rightarrow> int \<Rightarrow> stream list \<Rightarrow> byte list list" where
  "stream_lines label si [] = []"
| "stream_lines label si (sf # next) =
     (ascii label @ ascii '' stream '' @ fmt_d si @ ascii '', samples sent:'' @ fmt_d (st_samples_sent sf) @ newline)
       # stream_lines label (si + 1) next"

definition report_streams :: "sm_state \<Rightarrow> byte list list outcome" where
  "report_streams s = log_lines
     (stream_lines ''Accelerometer'' 1 (sn_streams (sensor_at s ASENSOR_TYPE_ACCELEROMETER))
      @ stream_lines ''Proximity'' 1 (sn_streams (sensor_at s ASENSOR_TYPE_PROXIMITY))
      @ stream_lines ''Gyroscope'' 1 (sn_streams (sensor_at s ASENSOR_TYPE_GYROSCOPE))
      @ stream_lines ''Light'' 1 (sn_streams (sensor_at s ASENSOR_TYPE_LIGHT)))"

text \<open>
  What \<open>carrier_thread\<close> of a sensor holds: the field is zero until \<open>pthread_create\<close> is called for the sensor; it is a thread when the
  last call succeeded, and undefined when that call failed.
\<close>

fun creations :: "int \<Rightarrow> outside_call list \<Rightarrow> int list" where
  "creations sensor [] = []"
| "creations sensor (StartCarrierThread i result # cs) = (if i = sensor then [result] else []) @ creations sensor cs"
| "creations sensor (c # cs) = creations sensor cs"

definition carrier_created :: "sm_state \<Rightarrow> int \<Rightarrow> bool" where
  "carrier_created s sensor =
     (let results = creations sensor (w_calls (sm_world s)) in results \<noteq> [] \<and> last results = 0)"

text \<open>
  \<open>pthread_join\<close> of the \<open>carrier_thread\<close> of a sensor: to join what is no thread is undefined. A carrier thread that was created comes to
  its end, since \<open>globalexit\<close> is set by then.
\<close>

definition join_carrier :: "sm_state \<Rightarrow> int \<Rightarrow> unit outcome" where
  "join_carrier s sensor = (if carrier_created s sensor then Inr () else Inl BadThread)"

definition streaming_end :: "byte list \<Rightarrow> sm_state \<Rightarrow> (sm_state \<times> byte list list) outcome" where
  "streaming_end nan s =
     bindR (report_periods nan s) (\<lambda>a.
     bindR (report_streams s) (\<lambda>b.
     bindR (log_line (ascii ''-- Streaming Manager stats end -----'' @ newline @ newline)) (\<lambda>e.
     bindR (join_carrier s ASENSOR_TYPE_PROXIMITY) (\<lambda>_.
     bindR (join_carrier s ZESENSE_SENSOR_TYPE_ORIENTATION) (\<lambda>_. Inr (s, a @ b @ [e]))))))"

text \<open>\<open>nan\<close> is the library's text of a NaN. \<open>None\<close> when a mutex could not be initialised: the thread returns before its loop.\<close>

definition ze_coap_streaming_thread :: "byte list \<Rightarrow> nat \<Rightarrow> (nat \<Rightarrow> bool) \<Rightarrow> (nat \<Rightarrow> sm_state \<Rightarrow> sm_state) \<Rightarrow> nat \<Rightarrow> bool \<Rightarrow> int \<Rightarrow> (int \<Rightarrow> int)
    \<Rightarrow> sm_state \<Rightarrow> (sm_state \<times> byte list list) option outcome" where
  "ze_coap_streaming_thread nan fuel exit others rounds ok err mtx s =
     bindR (thread_start ok err mtx s) (\<lambda>r.
       case r of
         None \<Rightarrow> Inr None
       | Some s1 \<Rightarrow> bindR (streaming_loop fuel exit others rounds 0 s1) (\<lambda>s2.
           bindR (streaming_end nan s2) (\<lambda>e. Inr (Some e))))"

section \<open>The loop and the end\<close>

lemma stream_lines_fit:
  "length label \<le> 13 \<Longrightarrow> l \<in> set (stream_lines label si sts) \<Longrightarrow> length l < LOGSTR_SIZE"
proof (induction sts arbitrary: si)
  case (Cons sf sts)
  have "length (fmt_d si) + length (fmt_d (st_samples_sent sf)) \<le> 22"
    using length_fmt_d [of si] length_fmt_d [of "st_samples_sent sf"] by linarith
  with Cons show ?case by (auto simp: LOGSTR_SIZE_def)
qed simp

lemma report_streams_fit: "\<exists>ls. report_streams s = Inr ls \<and> (\<forall>l\<in>set ls. length l < LOGSTR_SIZE)"
proof -
  let ?ls = "stream_lines ''Accelerometer'' 1 (sn_streams (sensor_at s ASENSOR_TYPE_ACCELEROMETER))
      @ stream_lines ''Proximity'' 1 (sn_streams (sensor_at s ASENSOR_TYPE_PROXIMITY))
      @ stream_lines ''Gyroscope'' 1 (sn_streams (sensor_at s ASENSOR_TYPE_GYROSCOPE))
      @ stream_lines ''Light'' 1 (sn_streams (sensor_at s ASENSOR_TYPE_LIGHT))"
  have "\<forall>l\<in>set ?ls. length l < LOGSTR_SIZE" unfolding set_append by (intro ballI) (auto dest!: stream_lines_fit [rotated])
  moreover from this have "report_streams s = Inr ?ls" unfolding report_streams_def by (rule log_lines_fit)
  ultimately show ?thesis by blast
qed

lemma end_lines:
  assumes "length nan \<le> 13"
  obtains a b e where "report_periods nan s = Inr a" "report_streams s = Inr b"
    "log_line (ascii ''-- Streaming Manager stats end -----'' @ newline @ newline) = Inr e"
    "\<forall>l\<in>set (a @ b @ [e]). length l < LOGSTR_SIZE"
proof -
  let ?e = "ascii ''-- Streaming Manager stats end -----'' @ newline @ newline"
  have e: "length ?e < LOGSTR_SIZE" by (simp add: newline_def LOGSTR_SIZE_def)
  then have "log_line ?e = Inr ?e" by (simp only: log_line_def) simp
  with e report_periods_fit [OF assms, of s] report_streams_fit [of s] that show ?thesis by fastforce
qed

lemma streaming_end_cases:
  assumes "length nan \<le> 13"
  shows "if carrier_created s ASENSOR_TYPE_PROXIMITY
      \<and> carrier_created s ZESENSE_SENSOR_TYPE_ORIENTATION
    then \<exists>ls. streaming_end nan s = Inr (s, ls) \<and> (\<forall>l\<in>set ls. length l < LOGSTR_SIZE)
    else streaming_end nan s = Inl BadThread"
proof -
  obtain a b e where l: "report_periods nan s = Inr a" "report_streams s = Inr b"
    "log_line (ascii ''-- Streaming Manager stats end -----'' @ newline @ newline) = Inr e"
    "\<forall>l\<in>set (a @ b @ [e]). length l < LOGSTR_SIZE"
    using end_lines [OF assms] .
  then show ?thesis unfolding streaming_end_def l bindR.simps join_carrier_def by (auto split: if_splits)
qed

lemma streaming_loop_reachable:
  assumes "\<forall>n u. sm_reachable fuel u \<longrightarrow> sm_reachable fuel (others n u)"
  shows "sm_reachable fuel s \<Longrightarrow> outcome_sat {NullDeref, LogOverrun, StillWaiting} (sm_reachable fuel)
    (streaming_loop fuel exit others rounds n s)"
proof (induction rounds arbitrary: n s)
  case (Suc rounds)
  let ?u = "others n s"
  have u: "sm_reachable fuel ?u" using assms Suc.prems by blast
  have "outcome_sat {NullDeref, LogOverrun, StillWaiting} (sm_reachable fuel) (thread_iteration fuel ?u)"
  proof (rule outcome_satI)
    show "e \<in> {NullDeref, LogOverrun, StillWaiting}" if "thread_iteration fuel ?u = Inl e" for e
      using thread_iteration_safe [OF sm_reachable_inv [OF u], of fuel] that by (simp add: thread_faults_def)
    show "sm_reachable fuel t" if "thread_iteration fuel ?u = Inr t" for t
      using u that by (blast intro: sm_reachable.step sm_step.iterate)
  qed
  then have "outcome_sat {NullDeref, LogOverrun, StillWaiting} (sm_reachable fuel)
      (bindR (thread_iteration fuel ?u) (streaming_loop fuel exit others rounds (n + 1)))"
    by (rule outcome_sat_bindR) (rule Suc.IH)
  with Suc.prems show ?case by simp
qed simp

lemma started_world:
  assumes "thread_start ok err mtx s = Inr (Some t)"
  shows "sm_world t = sm_world s"
  using assms by (auto simp: thread_start_def split: option.splits)

section \<open>Properties\<close>

text \<open>
  C21. The Streaming Manager thread from start to return, over what the root hands it, whatever the other threads do in between that
  keeps to the steps of the system: if it returns behind its loop, its state is a reachable one, the report of
  its streams fits the line buffer, and for both event based sensors a carrier thread was created, by a \<open>pthread_create\<close> that
  succeeded and was the last one for the sensor; otherwise it stops at one of the known faults (a null pointer, a write
  behind a full log of samples, a wait that goes on, a join of what is no thread), or exits for want of memory.
\<close>

theorem streaming_thread_run:
  assumes "sm_sensors s = replicate 15 (blank_sensor 0)" and "sm_smreqbuf s = the (init_sm_buf True)"
    and "sm_notbuf s = the (init_coap_buf True)" and "world_ok (sm_world s)" and "utlists_ok (sm_world s)"
    and "w_issued (sm_world s) = []" and "w_taken (sm_world s) = []" and "flush_sensor_queue (sm_events s) = []"
    and "\<forall>n u. sm_reachable fuel u \<longrightarrow> sm_reachable fuel (others n u)" and "length nan \<le> 13"
  shows "case ze_coap_streaming_thread nan fuel exit others rounds ok err mtx s of
      Inl e \<Rightarrow> e \<in> {Exit 1, NullDeref, LogOverrun, StillWaiting, BadThread}
    | Inr None \<Rightarrow> mtx ASENSOR_TYPE_PROXIMITY \<noteq> 0 \<or> mtx ZESENSE_SENSOR_TYPE_ORIENTATION \<noteq> 0
    | Inr (Some (t, ls)) \<Rightarrow> sm_reachable fuel t \<and> (\<forall>l\<in>set ls. length l < LOGSTR_SIZE)
        \<and> carrier_created t ASENSOR_TYPE_PROXIMITY
        \<and> carrier_created t ZESENSE_SENSOR_TYPE_ORIENTATION"
proof -
  note start = thread_start_eq [OF assms(1-5), of ok err mtx, unfolded assms(8)]
  let ?t = "quiet_state\<lparr>sm_world := sm_world s, sm_events := []\<rparr>"
  have "sm_initial ?t" unfolding sm_initial_def using assms(4-7) by (auto simp: quiet_state_def)
  then have r: "sm_reachable fuel ?t" by (rule sm_reachable.start)
  have e: "outcome_sat {BadThread} (\<lambda>(u, ls). u = v \<and> (\<forall>l\<in>set ls. length l < LOGSTR_SIZE)
        \<and> carrier_created v ASENSOR_TYPE_PROXIMITY
        \<and> carrier_created v ZESENSE_SENSOR_TYPE_ORIENTATION) (streaming_end nan v)" for v
    using streaming_end_cases [OF assms(10), of v] by (auto split: if_splits)
  show ?thesis
  proof (cases "ok \<and> err = 0 \<and> mtx 3 = 0 \<and> mtx 8 = 0")
    case False
    with start show ?thesis by (auto simp: ze_coap_streaming_thread_def sensor_codes)
  next
    case True
    then have st: "thread_start ok err mtx s = Inr (Some ?t)" using start by simp
    show ?thesis
    proof (cases "streaming_loop fuel exit others rounds 0 ?t")
      case (Inl f)
      with streaming_loop_reachable [OF assms(9) r, of exit rounds 0] st show ?thesis
        by (auto simp: ze_coap_streaming_thread_def)
    next
      case (Inr v)
      with streaming_loop_reachable [OF assms(9) r, of exit rounds 0] have "sm_reachable fuel v" by simp
      with e [of v] st Inr show ?thesis
        by (cases "streaming_end nan v") (auto simp: ze_coap_streaming_thread_def)
    qed
  qed
qed

text \<open>
  The program cannot end cleanly unless both event based sensors were used: when \<open>globalexit\<close> ends the loop and no carrier thread
  was ever created for the proximity sensor, or none for the orientation sensor (or its last creation failed), the thread
  joins a thread identifier that is zero (or undefined).
\<close>

theorem exit_joins_no_thread:
  assumes "\<not> carrier_created v ASENSOR_TYPE_PROXIMITY
      \<or> \<not> carrier_created v ZESENSE_SENSOR_TYPE_ORIENTATION"
    and "thread_start ok err mtx s = Inr (Some s1)" and "streaming_loop fuel exit others rounds 0 s1 = Inr v"
    and "length nan \<le> 13"
  shows "ze_coap_streaming_thread nan fuel exit others rounds ok err mtx s = Inl BadThread"
proof -
  have "streaming_end nan v = Inl BadThread" using streaming_end_cases [OF assms(4), of v] assms(1) by metis
  with assms(2,3) show ?thesis by (simp add: ze_coap_streaming_thread_def)
qed

text \<open>
  So the root does not come back from its joins either: over a streaming thread that ends as this model says, it ends with the
  undefined join and frees nothing (\<open>root_returns\<close>).
\<close>

definition thread_end :: "'a outcome \<Rightarrow> fault option" where
  "thread_end r = (case r of Inl e \<Rightarrow> Some e | Inr _ \<Rightarrow> None)"

lemma root_blocked_by_carriers:
  assumes "ro_thread_end E StreamingMngr = thread_end (ze_coap_streaming_thread nan fuel exit others rounds ok err mtx s)"
    and "thread_start ok err mtx s = Inr (Some s1)" and "streaming_loop fuel exit others rounds 0 s1 = Inr v"
    and "\<not> carrier_created v ASENSOR_TYPE_PROXIMITY \<or> \<not> carrier_created v ZESENSE_SENSOR_TYPE_ORIENTATION"
    and "length nan \<le> 13"
  shows "not_joined E = Some BadThread"
proof -
  have "streaming_end nan v = Inl BadThread" using streaming_end_cases [OF assms(5), of v] assms(4) by metis
  with assms(1-3) show ?thesis by (simp add: not_joined_def thread_end_def ze_coap_streaming_thread_def)
qed

theorem streaming_thread_run_witness:
  "case ze_coap_streaming_thread [] 0 (\<lambda>_. True) (\<lambda>_ u. u) 1 True 0 (\<lambda>_. 0)
      (quiet_state\<lparr>sm_sensors := replicate 15 (blank_sensor 0)\<rparr>) of
     Inl e \<Rightarrow> e \<in> {Exit 1, NullDeref, LogOverrun, StillWaiting, BadThread} | Inr _ \<Rightarrow> True"
proof -
  let ?s = "quiet_state\<lparr>sm_sensors := replicate 15 (blank_sensor 0)\<rparr>"
  have "sm_sensors ?s = replicate 15 (blank_sensor 0)" "sm_smreqbuf ?s = the (init_sm_buf True)"
    "sm_notbuf ?s = the (init_coap_buf True)" "world_ok (sm_world ?s)" "utlists_ok (sm_world ?s)"
    "w_issued (sm_world ?s) = []" "w_taken (sm_world ?s) = []" "flush_sensor_queue (sm_events ?s) = []" "\<forall>n u. sm_reachable 0 u \<longrightarrow> sm_reachable 0 u"
    "length ([] :: byte list) \<le> 13"
    using quiet_world_ok quiet_world_new by (simp_all add: quiet_state_def)
  from streaming_thread_run [OF this, where exit = "\<lambda>_. True" and rounds = 1 and ok = True and err = 0 and mtx = "\<lambda>_. 0"] show ?thesis
    by (simp split: sum.split_asm sum.split)
qed

theorem exit_joins_no_thread_witness:
  "ze_coap_streaming_thread [] 0 (\<lambda>_. True) (\<lambda>_ u. u) 1 True 0 (\<lambda>_. 0)
    (quiet_state\<lparr>sm_sensors := replicate 15 (blank_sensor 0)\<rparr>) = Inl BadThread"
proof -
  let ?s = "quiet_state\<lparr>sm_sensors := replicate 15 (blank_sensor 0)\<rparr>"
  have "thread_start True 0 (\<lambda>_. 0) ?s = Inr (Some (quiet_state\<lparr>sm_world := sm_world ?s, sm_events := flush_sensor_queue (sm_events ?s)\<rparr>))"
    using thread_start_eq [of ?s True 0 "\<lambda>_. 0"] quiet_world_ok by (simp add: quiet_state_def)
  then have t: "thread_start True 0 (\<lambda>_. 0) ?s = Inr (Some quiet_state)" by (simp add: quiet_state_def)
  have "\<not> carrier_created quiet_state ASENSOR_TYPE_PROXIMITY
      \<or> \<not> carrier_created quiet_state ZESENSE_SENSOR_TYPE_ORIENTATION"
    by (simp add: carrier_created_def quiet_state_def quiet_world_def)
  from exit_joins_no_thread [OF this t] show ?thesis by simp
qed

end
