(* ===== verification/Tickets.thy ===== *)
theory Tickets
  imports Delivery
begin

text \<open>
  The promise of the Streaming Manager to the CoAP server: every ticket a START request carries is held by
  exactly one stream until one STREAM_STOPPED response gives it back; and what happens when a client
  that observes a resource sends it a plain GET.
\<close>

section \<open>Accounting\<close>

text \<open>How often a ticket is held by the streams of a sensor, and how often a list of responses gives it back.\<close>

definition held :: "sm_state \<Rightarrow> int \<Rightarrow> int \<Rightarrow> nat" where
  "held s i k = count (mset (regs (sn_streams (sensor_at s i)))) k"

definition returned :: "sm_response list \<Rightarrow> int \<Rightarrow> nat" where
  "returned rs k = length (filter (\<lambda>r. rs_rtype r = STREAM_STOPPED \<and> rs_ticket r = k) rs)"

lemma returned_append [simp]: "returned (rs @ qs) k = returned rs k + returned qs k"
  by (simp add: returned_def)

lemma returned_stopped [simp]: "returned [response STREAM_STOPPED t pk] k = (if t = k then 1 else 0)"
  by (simp add: returned_def)

text \<open>The response that gives a ticket back, when there is room for it.\<close>

lemma stopped_room:
  assumes "counter (sm_notbuf s) < COAP_RBUF_SIZE" and "resbuf_wf (sm_notbuf s)"
  shows "\<exists>t. bindR (put_response_helper fuel s STREAM_STOPPED tk None) (\<lambda>(_, s2). Inr s2) = Inr t
    \<and> sm_sensors t = sm_sensors s
    \<and> responses (sm_notbuf t) = responses (sm_notbuf s) @ [response STREAM_STOPPED tk None]"
  using helper_room [OF assms(1), of fuel STREAM_STOPPED tk None] assms by (auto simp: ring_laws)

lemma registered_count:
  assumes "distinct (regs sts)"
  shows "count (mset (regs (stream_without (st_reg new) sts @ [new]))) k
      + (if st_reg new \<in> set (regs sts) \<and> k = st_reg new then 1 else 0)
    = count (mset (regs sts)) k + (if k = st_reg new then 1 else 0)"
proof -
  have "register_stream plain_utlist new sts = (st_reg new \<notin> set (regs sts), stream_without (st_reg new) sts @ [new])"
    using register_stream_eq [OF plain_utlist_ok assms, of new] by (simp add: stream_without_def)
  from tickets.register_count [OF assms this, of k] show ?thesis by (simp del: count_mset)
qed

lemma released_count:
  assumes "distinct (regs sts)" and "reg \<in> set (regs sts)"
  shows "count (mset (regs (stream_without reg sts))) k + (if k = reg then 1 else 0) = count (mset (regs sts)) k"
proof -
  have "release_stream plain_utlist reg sts = Some (stream_without reg sts)"
    using release_stream_eq [OF plain_utlist_ok assms(1), of reg] assms(2) by (simp add: stream_without_def)
  from tickets.release_count [OF assms(1) this, of k] show ?thesis by (simp del: count_mset)
qed

section \<open>Properties\<close>

text \<open>
  C6. Serving a START request, with room for a response, issues its ticket once: whatever \<open>malloc\<close> and
  the sensor interface answer, for every ticket the streams that hold it and the STREAM_STOPPED
  responses that give it back are together as many as before, and one more for the ticket of the request. So a
  replaced stream and a failed start both give the ticket back, and a started stream keeps it.
\<close>

theorem start_accounting:
  assumes inv: "sm_inv s" and ix: "sensor_ix (rq_sensor q)" and f: "0 < rq_freq q"
    and room: "counter (sm_notbuf s) < COAP_RBUF_SIZE"
  shows "\<exists>t. serve_start fuel s q = Inr t
    \<and> held t (rq_sensor q) k + returned (responses (sm_notbuf t)) k
      = held s (rq_sensor q) k + returned (responses (sm_notbuf s)) k + (if k = rq_ticket q then 1 else 0)"
proof -
  let ?i = "rq_sensor q" and ?r = "rq_ticket q"
  let ?sts = "sn_streams (sensor_at s ?i)"
  have ok: "sensors_ok s" and wf: "resbuf_wf (sm_notbuf s)" and d: "distinct (regs ?sts)"
    using inv sm_inv_at [OF inv ix] by (simp_all add: sm_inv_def buffers_ok_def sensor_ok_def)
  have lt: "nat ?i < length (all_streams s)"
    using ix sensors_ok_length [OF ok] by (simp add: all_streams_def sensor_ix_def nat_less_iff)
  show ?thesis
  proof (cases "fst (ask w_malloc s)")
    case True
    obtain s1 r where s1: "sm_start_stream s ?i ?r (rq_freq q) = Inr (?r \<notin> set (regs ?sts), s1)" "sensors_ok s1"
      "rest_of_state s1 = rest_of_state s"
      "all_streams s1 = (all_streams s)[nat ?i := stream_without ?r ?sts @ [started_stream r ?r (rq_freq q)]]"
      using start_stream_effect [OF ok ix f True, of ?r] by blast
    have nb: "sm_notbuf s1 = sm_notbuf s" using rest_of_state_eqD [OF s1(3)] by simp
    have "sn_streams (sensor_at s1 ?i) = stream_without ?r ?sts @ [started_stream r ?r (rq_freq q)]"
      using all_streams_nth [OF sensors_ok_length [OF s1(2)] ix] s1(4) lt by simp
    then have h: "held s1 ?i k + (if ?r \<in> set (regs ?sts) \<and> k = ?r then 1 else 0)
        = held s ?i k + (if k = ?r then 1 else 0)"
      using registered_count [OF d, of "started_stream r ?r (rq_freq q)" k] by (simp add: held_def del: count_mset)
    show ?thesis
    proof (cases "?r \<in> set (regs ?sts)")
      case False
      with s1(1) have "serve_start fuel s q = Inr s1" by (simp add: serve_start_def del: set_map)
      with h nb False show ?thesis by auto
    next
      case True
      obtain t where t: "bindR (put_response_helper fuel s1 STREAM_STOPPED ?r None) (\<lambda>(_, s2). Inr s2) = Inr t"
        "sm_sensors t = sm_sensors s1"
        "responses (sm_notbuf t) = responses (sm_notbuf s1) @ [response STREAM_STOPPED ?r None]"
        using stopped_room [of s1 fuel ?r] room wf nb by auto
      have "serve_start fuel s q = Inr t"
        using s1(1) t(1) True by (simp add: serve_start_def del: set_map)
      moreover have "held t ?i k = held s1 ?i k" using t(2) by (simp add: held_def sensor_at_def)
      ultimately show ?thesis using h t(3) nb True by (auto split: if_splits)
    qed
  next
    case False
    let ?s1 = "snd (ask w_malloc s)"
    obtain t where t: "bindR (put_response_helper fuel ?s1 STREAM_STOPPED ?r None) (\<lambda>(_, s2). Inr s2) = Inr t"
      "sm_sensors t = sm_sensors s"
      "responses (sm_notbuf t) = responses (sm_notbuf s) @ [response STREAM_STOPPED ?r None]"
      using stopped_room [of ?s1 fuel ?r] room wf by auto
    have "serve_start fuel s q = Inr t"
      using start_stream_nomem [OF False, of ?i ?r "rq_freq q"] t(1) by (simp add: serve_start_def)
    moreover have "held t ?i k = held s ?i k" using t(2) by (simp add: held_def sensor_at_def)
    ultimately show ?thesis using t(3) by auto
  qed
qed

theorem start_accounting_witness:
  "\<exists>t. serve_start 0 (busy_state []) \<lparr>rq_rtype = SM_REQ_START, rq_sensor = 1, rq_ticket = 7, rq_freq = 10\<rparr> = Inr t
     \<and> held t 1 7 + returned (responses (sm_notbuf t)) 7 = 2"
proof -
  let ?q = "\<lparr>rq_rtype = SM_REQ_START, rq_sensor = 1, rq_ticket = 7, rq_freq = 10\<rparr>"
  have b: "sm_inv (busy_state [])" "responses (sm_notbuf (busy_state [])) = []"
    using busy_state_inv [of "[]"] by blast+
  have h: "held (busy_state []) 1 7 = 1" by (simp add: held_def busy_state_at)
  have c: "counter (sm_notbuf (busy_state [])) < COAP_RBUF_SIZE" using b(2) by simp
  have "\<exists>t. serve_start 0 (busy_state []) ?q = Inr t
      \<and> held t (rq_sensor ?q) 7 + returned (responses (sm_notbuf t)) 7
        = held (busy_state []) (rq_sensor ?q) 7 + returned (responses (sm_notbuf (busy_state []))) 7
          + (if 7 = rq_ticket ?q then 1 else 0)"
    by (rule start_accounting [OF b(1) _ _ c]) simp_all
  then show ?thesis using h b(2) by (simp add: returned_def numeral_2_eq_2 del: ring_list_empty_iff)
qed

text \<open>
  C16. Serving a STOP request, with room for a response and no oneshot pending on the sensor, gives back exactly the
  ticket it takes. The stream of the sensor that holds the ticket of the request is taken out, every other stream of
  that sensor and of the other sensors stays; one response is put, the one that gives this ticket back, when such a
  stream was there, and for a ticket that is not held the request changes nothing at all. So afterwards no stream of
  the sensor holds the ticket, and for every ticket the streams that hold it and the responses that give it back are
  together as many as before.
\<close>

theorem stop_accounting:
  assumes inv: "sm_inv s" and ix: "sensor_ix (rq_sensor q)" and room: "counter (sm_notbuf s) < COAP_RBUF_SIZE"
    and ones: "sn_oneshots (sensor_at s (rq_sensor q)) = []"
  shows "\<exists>t. serve_stop fuel s q = Inr t
    \<and> all_streams t = (all_streams s)[nat (rq_sensor q) :=
        stream_without (rq_ticket q) (sn_streams (sensor_at s (rq_sensor q)))]
    \<and> responses (sm_notbuf t) = responses (sm_notbuf s)
        @ (if held s (rq_sensor q) (rq_ticket q) = 0 then [] else [response STREAM_STOPPED (rq_ticket q) None])
    \<and> (held s (rq_sensor q) (rq_ticket q) = 0 \<longrightarrow> t = s)
    \<and> held t (rq_sensor q) (rq_ticket q) = 0
    \<and> held t (rq_sensor q) k + returned (responses (sm_notbuf t)) k
      = held s (rq_sensor q) k + returned (responses (sm_notbuf s)) k"
proof -
  let ?i = "rq_sensor q" and ?r = "rq_ticket q"
  let ?sts = "sn_streams (sensor_at s ?i)"
  have ok: "sensors_ok s" and wf: "resbuf_wf (sm_notbuf s)" and d: "distinct (regs ?sts)"
    using inv sm_inv_at [OF inv ix] by (simp_all add: sm_inv_def buffers_ok_def sensor_ok_def)
  have lt: "nat ?i < length (all_streams s)"
    using ix sensors_ok_length [OF ok] by (simp add: all_streams_def sensor_ix_def nat_less_iff)
  have nth: "all_streams s ! nat ?i = ?sts" using all_streams_nth [OF sensors_ok_length [OF ok] ix] by simp
  show ?thesis
  proof (cases "?r \<in> set (regs ?sts)")
    case False
    then have h: "count (mset (regs ?sts)) ?r = 0" by (simp add: count_eq_zero_iff)
    from False have "stream_without ?r ?sts = ?sts" by (force simp: stream_without_def intro!: filter_True)
    then have "(all_streams s)[nat ?i := stream_without ?r ?sts] = all_streams s"
      using nth by (metis list_update_id)
    with h stop_stream_unknown [OF ix False] show ?thesis
      by (intro exI [of _ s]) (simp add: serve_stop_def held_def)
  next
    case True
    obtain s1 where s1: "sm_stop_stream s ?i ?r = Inr (0, s1)" "sensors_ok s1" "rest_of_state s1 = rest_of_state s"
      "all_streams s1 = (all_streams s)[nat ?i := stream_without ?r ?sts]"
      using stop_stream_effect [OF ok ix True] ones by blast
    have nb: "sm_notbuf s1 = sm_notbuf s" using rest_of_state_eqD [OF s1(3)] by simp
    have st1: "sn_streams (sensor_at s1 ?i) = stream_without ?r ?sts"
      using all_streams_nth [OF sensors_ok_length [OF s1(2)] ix] s1(4) lt by simp
    then have h: "held s1 ?i k + (if k = ?r then 1 else 0) = held s ?i k" "held s1 ?i ?r = 0"
      using released_count [OF d True, of k] by (auto simp: held_def stream_without_def count_eq_zero_iff)
    have pos: "held s ?i ?r \<noteq> 0" using True by (simp add: held_def count_eq_zero_iff)
    obtain t where t: "bindR (put_response_helper fuel s1 STREAM_STOPPED ?r None) (\<lambda>(_, s2). Inr s2) = Inr t"
      "sm_sensors t = sm_sensors s1"
      "responses (sm_notbuf t) = responses (sm_notbuf s1) @ [response STREAM_STOPPED ?r None]"
      using stopped_room [of s1 fuel ?r] room wf nb by auto
    have "serve_stop fuel s q = Inr t"
      using s1(1) t(1) by (simp add: serve_stop_def SM_ERROR_def)
    moreover have "held t ?i j = held s1 ?i j" for j using t(2) by (simp add: held_def sensor_at_def)
    moreover have "all_streams t = all_streams s1" using t(2) by (simp add: all_streams_def)
    ultimately show ?thesis using h t(3) nb s1(4) pos by (auto split: if_splits)
  qed
qed

theorem stop_accounting_witness:
  "\<exists>t. serve_stop 0 (busy_state []) \<lparr>rq_rtype = SM_REQ_STOP, rq_sensor = 1, rq_ticket = 7, rq_freq = 0\<rparr> = Inr t
     \<and> held t 1 7 = 0 \<and> returned (responses (sm_notbuf t)) 7 = 1"
proof -
  let ?q = "\<lparr>rq_rtype = SM_REQ_STOP, rq_sensor = 1, rq_ticket = 7, rq_freq = 0\<rparr>"
  have b: "sm_inv (busy_state [])" "responses (sm_notbuf (busy_state [])) = []"
    using busy_state_inv [of "[]"] by blast+
  have h: "held (busy_state []) 1 7 = 1" by (simp add: held_def busy_state_at)
  have c: "counter (sm_notbuf (busy_state [])) < COAP_RBUF_SIZE" using b(2) by simp
  have "\<exists>t. serve_stop 0 (busy_state []) ?q = Inr t \<and> held t (rq_sensor ?q) (rq_ticket ?q) = 0
      \<and> held t (rq_sensor ?q) 7 + returned (responses (sm_notbuf t)) 7
        = held (busy_state []) (rq_sensor ?q) 7 + returned (responses (sm_notbuf (busy_state []))) 7"
    using stop_accounting [OF b(1) _ c, of ?q 0 7] by (force simp: busy_state_at)
  then show ?thesis using h b(2) by (auto simp: returned_def simp del: ring_list_empty_iff)
qed

text \<open>Iterations with nothing in the queues.\<close>

lemma rounds_idle:
  assumes "sm_events s = []" and "cq_head (sm_carrq s) = []"
  shows "sample_rounds fuel n qselect s = Inr s"
proof -
  have "sample_round fuel qs s = Inr s" for qs
    using assms
    by (cases qs; cases s)
      (simp_all add: sample_round_def fetch_event_def fetch_carrier_def get_carrier_event_def)
  then show ?thesis by (induction n arbitrary: qselect) simp_all
qed

lemma get_helper_next:
  assumes "sm_inv s" and "requests (sm_smreqbuf s) = q # qs"
  shows "\<exists>s1. get_request_helper s = Inr (q, s1) \<and> sm_inv s1 \<and> requests (sm_smreqbuf s1) = qs
    \<and> sm_sensors s1 = sm_sensors s \<and> sm_world s1 = sm_world s \<and> sm_events s1 = sm_events s \<and> sm_carrq s1 = sm_carrq s"
proof -
  obtain p s1 where g: "get_request s = (p, s1)" by force
  have b: "buffers_ok s" "sm_adqueue s = ADNull" using sm_inv_buffers [OF assms(1)] by simp_all
  have h: "get_request_helper s = Inr (p, s1)" using g b by (simp add: get_request_helper_def)
  have "sm_inv s1" using get_request_helper_safe [OF assms(1)] h by auto
  with h get_request_effect [OF b(1) g] get_request_keeps [of s] g assms(2) show ?thesis by auto
qed

lemma oneshot_pending:
  assumes "sm_inv s" and "sensor_ix (rq_sensor q)" and "mem_ok s"
    and "sn_cache_valid (sensor_at s (rq_sensor q)) \<noteq> 1"
  shows "\<exists>t. serve_oneshot fuel s q = Inr t \<and> rest_of_state t = rest_of_state s \<and> all_streams t = all_streams s
    \<and> sn_oneshots (sensor_at t (rq_sensor q)) = sn_oneshots (sensor_at s (rq_sensor q)) @ [rq_ticket q]"
proof -
  let ?i = "rq_sensor q"
  have len: "length (sm_sensors s) = ZE_NUMSENSORS" using sensors_ok_length [OF sm_inv_sensors [OF assms(1)]] .
  obtain r s1 where act: "android_sensor_activate s ?i DEFAULT_FREQ = Inr (r, s1)"
    using activate_returns [OF assms(2), of DEFAULT_FREQ s] by (auto simp: DEFAULT_FREQ_def)
  note fr = activate_frame [OF act]
  define s2 where "s2 = snd (ask w_malloc s1)"
  have U: "utlist_ok (w_oneshots (sm_world s2))" "w_malloc (sm_world s1) = w_malloc (sm_world s)"
    using assms(1) rest_of_state_world [OF hw_frame_rest [OF fr]]
    by (simp_all add: s2_def ask_def sm_inv_def sensors_ok_def utlists_ok_def)
  have new: "sm_new_oneshot s1 (rq_ticket q) = (Some (rq_ticket q), s2)"
    using assms(3) U(2) by (simp add: sm_new_oneshot_def s2_def ask_def mem_ok_def Let_def)
  have len2: "length (sm_sensors s2) = ZE_NUMSENSORS" using len hw_frame_length [OF fr] by (simp add: s2_def)
  let ?t = "upd_sensor ?i (\<lambda>sn. sn\<lparr>sn_oneshots := ll_append (w_oneshots (sm_world s2)) (sn_oneshots sn) (rq_ticket q)\<rparr>) s2"
  have "serve_oneshot fuel s q = Inr ?t"
    using act new assms(2,4) by (simp add: serve_oneshot_def get_sensor_def)
  moreover have "rest_of_state ?t = rest_of_state s"
    using hw_frame_rest [OF fr] by (simp add: s2_def)
  moreover have "all_streams ?t = all_streams s"
  proof -
    have "(all_streams s1)[nat ?i := sn_streams (sensor_at s1 ?i)] = all_streams s1"
      using all_streams_nth [of s1 ?i] len2 assms(2) by (metis ask_simps(1) list_update_id s2_def)
    then show ?thesis using all_streams_frame [OF fr] by (simp add: all_streams_upd s2_def)
  qed
  moreover have "sn_oneshots (sensor_at ?t ?i) = sn_oneshots (sensor_at s ?i) @ [rq_ticket q]"
    using hw_frame_sensor_at [OF fr len assms(2)] U(1)
    by (simp add: sensor_at_upd len2 assms(2) utlist_append) (simp add: s2_def)
  ultimately show ?thesis by blast
qed

text \<open>
  A pending oneshot and then the stop of the last stream: the second iteration reads through a null pointer.
\<close>

lemma oneshot_then_stop_faults:
  assumes "sm_inv s" and "mem_ok s" and "sensor_ix i"
    and "requests (sm_smreqbuf s) =
      \<lparr>rq_rtype = SM_REQ_ONESHOT, rq_sensor = i, rq_ticket = tid, rq_freq = 0\<rparr> #
      \<lparr>rq_rtype = SM_REQ_STOP, rq_sensor = i, rq_ticket = reg, rq_freq = 0\<rparr> # qs"
    and "map st_reg (sn_streams (sensor_at s i)) = [reg]"
    and "sn_cache_valid (sensor_at s i) \<noteq> 1"
    and "sm_events s = []" and "cq_head (sm_carrq s) = []"
  shows "bindR (thread_iteration fuel s) (thread_iteration fuel) = Inl NullDeref"
proof -
  let ?q1 = "\<lparr>rq_rtype = SM_REQ_ONESHOT, rq_sensor = i, rq_ticket = tid, rq_freq = 0\<rparr>"
  let ?q2 = "\<lparr>rq_rtype = SM_REQ_STOP, rq_sensor = i, rq_ticket = reg, rq_freq = 0\<rparr>"
  obtain s1 where s1: "get_request_helper s = Inr (?q1, s1)" "sm_inv s1" "requests (sm_smreqbuf s1) = ?q2 # qs"
    "sm_sensors s1 = sm_sensors s" "sm_world s1 = sm_world s" "sm_events s1 = []" "cq_head (sm_carrq s1) = []"
    using get_helper_next [OF assms(1,4)] assms(7,8) by auto
  have at1: "sensor_at s1 i = sensor_at s i" "mem_ok s1" "all_streams s1 = all_streams s"
    using s1(4,5) assms(2) by (simp_all add: sensor_at_def mem_ok_def all_streams_def)
  obtain t where t: "serve_oneshot fuel s1 ?q1 = Inr t" "rest_of_state t = rest_of_state s1"
    "all_streams t = all_streams s1" "sn_oneshots (sensor_at t i) = sn_oneshots (sensor_at s1 i) @ [tid]"
    using oneshot_pending [OF s1(2), of ?q1 fuel] assms(3,6) at1 by auto
  have ev: "sm_events t = []" "cq_head (sm_carrq t) = []" "sm_smreqbuf t = sm_smreqbuf s1"
    using rest_of_state_eqD [OF t(2)] s1(6,7) by simp_all
  have invt: "sm_inv t" using serve_oneshot_safe [OF s1(2), of ?q1 fuel] t(1) assms(3) by simp
  have it1: "thread_iteration fuel s = Inr t"
    using s1(1) t(1) rounds_idle [OF ev(1,2)] by (simp add: thread_iteration_def serve_request_def sm_req_codes)
  obtain s2 where s2: "get_request_helper t = Inr (?q2, s2)" "sm_inv s2" "sm_sensors s2 = sm_sensors t"
    using get_helper_next [OF invt] ev(3) s1(3) by auto
  have lens: "length (sm_sensors s) = ZE_NUMSENSORS" "length (sm_sensors t) = ZE_NUMSENSORS"
    using sensors_ok_length [OF sm_inv_sensors] assms(1) invt by blast+
  have sts: "sn_streams (sensor_at s2 i) = sn_streams (sensor_at s i)"
    using all_streams_nth [OF lens(1) assms(3)] all_streams_nth [OF lens(2) assms(3)] t(3) at1(3) s2(3)
    by (simp add: sensor_at_def)
  have ones: "sn_oneshots (sensor_at s2 i) \<noteq> []" using t(4) s2(3) by (simp add: sensor_at_def)
  have mem: "reg \<in> set (regs (sn_streams (sensor_at s2 i)))" using sts assms(5) by simp
  have "stream_without reg (sn_streams (sensor_at s2 i)) = []"
    using only_stream_iff [of "sn_streams (sensor_at s2 i)" reg] sts assms(5) by simp
  with ones have "sm_stop_stream s2 i reg = Inl NullDeref"
    unfolding stop_stream_known [OF sm_inv_sensors [OF s2(2)] assms(3) mem] by simp
  then have "thread_iteration fuel t = Inl NullDeref"
    using s2(1) by (simp add: thread_iteration_def serve_request_def serve_stop_def sm_req_codes)
  with it1 show ?thesis by simp
qed

definition doomed_state :: sm_state where
  "doomed_state = (let put = (\<lambda>rt tk b. snd (put_request_buf_item id b rt 1 tk 0)) in
     (last_state [])\<lparr>sm_smreqbuf := put SM_REQ_STOP 7 (put SM_REQ_ONESHOT 9 (the (init_sm_buf True)))\<rparr>)"

lemma doomed_state_facts:
  "sm_inv doomed_state" "mem_ok doomed_state" "map st_reg (sn_streams (sensor_at doomed_state 1)) = [7]"
  "sn_cache_valid (sensor_at doomed_state 1) \<noteq> 1" "sm_events doomed_state = []"
  "cq_head (sm_carrq doomed_state) = []"
proof -
  let ?b0 = "the (init_sm_buf True)"
  let ?b1 = "snd (put_request_buf_item id ?b0 SM_REQ_ONESHOT 1 9 0)"
  let ?b2 = "snd (put_request_buf_item id ?b1 SM_REQ_STOP 1 7 0)"
  have b0: "reqbuf_wf ?b0 \<and> requests ?b0 = []" "counter ?b0 < SM_RBUF_SIZE"
    using init_sm_buf_wf [of True ?b0] by (simp_all add: init_sm_buf_def)
  have b1: "requests ?b1 = [\<lparr>rq_rtype = SM_REQ_ONESHOT, rq_sensor = 1, rq_ticket = 9, rq_freq = 0\<rparr>]" "reqbuf_wf ?b1"
    using put_request_room_list [of ?b0 id SM_REQ_ONESHOT 1 9 0] put_request_room_wf [of ?b0 id] b0 by simp_all
  have c1: "counter ?b1 < SM_RBUF_SIZE" using arg_cong [OF b1(1), of length] by (simp add: SM_RBUF_SIZE_def)
  have b2: "requests ?b2 = [\<lparr>rq_rtype = SM_REQ_ONESHOT, rq_sensor = 1, rq_ticket = 9, rq_freq = 0\<rparr>,
      \<lparr>rq_rtype = SM_REQ_STOP, rq_sensor = 1, rq_ticket = 7, rq_freq = 0\<rparr>]" "reqbuf_wf ?b2"
    using put_request_room_list [OF b1(2) c1, of id SM_REQ_STOP 1 7 0] put_request_room_wf [OF b1(2) c1, of id] b1(1)
    by simp_all
  have d: "doomed_state = (last_state [])\<lparr>sm_smreqbuf := ?b2\<rparr>" by (simp add: doomed_state_def)
  have at: "sensor_at doomed_state j = sensor_at (last_state []) j" for j by (simp add: d sensor_at_def)
  have "rest_of_state (last_state []) = rest_of_state quiet_state" by (simp add: last_state_def)
  then have "sm_inv (last_state [])"
    using sm_inv_rest [OF sm_reachable_inv [OF quiet_reachable]] last_state_ok by blast
  then show "sm_inv doomed_state"
    using b2 by (simp add: d sm_inv_def sensors_ok_def buffers_ok_def request_ok_def sm_req_codes)
  show "mem_ok doomed_state" "sm_events doomed_state = []" "cq_head (sm_carrq doomed_state) = []"
    by (simp_all add: d mem_ok_def last_state_def quiet_state_def quiet_world_def upd_sensor_def init_carriers_queue_def)
  show "map st_reg (sn_streams (sensor_at doomed_state 1)) = [7]" by (simp add: at last_state_at)
  show "sn_cache_valid (sensor_at doomed_state 1) \<noteq> 1"
    using sensors_ok_length [OF quiet_state_ok]
    by (simp add: at last_state_def sensor_at_upd)
      (simp add: quiet_state_def sensor_at_def blank_sensor_def upto.simps)
qed

end
