(* ===== verification/TicketProtocol.thy ===== *)
theory TicketProtocol
  imports ThreadFrame Tickets
begin

text \<open>
  The protocol of the tickets over whole runs of the system: a ticket is issued to the Streaming Manager by a START request, and given back by
  a STREAM_STOPPED response. The history of the CoAP server says which were issued and which it has got back.
\<close>

section \<open>Counting tickets\<close>

definition started_with :: "sm_request list \<Rightarrow> int \<Rightarrow> nat" where
  "started_with qs k = length (filter (\<lambda>q. rq_rtype q = SM_REQ_START \<and> rq_ticket q = k) qs)"

definition held_all :: "sm_state \<Rightarrow> int \<Rightarrow> nat" where
  "held_all s k = count (mset (concat (map regs (all_streams s)))) k"

abbreviation issued :: "sm_state \<Rightarrow> int \<Rightarrow> nat" where
  "issued s k \<equiv> started_with (w_issued (sm_world s)) k"

lemma started_with_simps [simp]:
  "started_with [] k = 0" "started_with (qs @ ps) k = started_with qs k + started_with ps k"
  "started_with (q # qs) k = (if rq_rtype q = SM_REQ_START \<and> rq_ticket q = k then 1 else 0) + started_with qs k"
  by (simp_all add: started_with_def)

lemma started_drop: "started_with (drop n qs) k \<le> started_with qs k"
proof -
  have "started_with qs k = started_with (take n qs) k + started_with (drop n qs) k"
    by (metis append_take_drop_id started_with_simps(2))
  then show ?thesis by simp
qed

lemma returned_nil [simp]: "returned [] k = 0" by (simp add: returned_def)

lemma returned_none: "\<forall>r\<in>set rs. rs_rtype r \<noteq> STREAM_STOPPED \<Longrightarrow> returned rs k = 0"
  by (auto simp: returned_def filter_empty_conv)

text \<open>Replacing the streams of one sensor.\<close>

lemma count_concat_update:
  assumes "i < length xs"
  shows "count (mset (concat (xs[i := y]))) k + count (mset (xs ! i)) k = count (mset (concat xs)) k + count (mset y) k"
proof -
  define pre x post where "pre = take i xs" and "x = xs ! i" and "post = drop (Suc i) xs"
  have "xs = pre @ x # post" using id_take_nth_drop [OF assms] by (simp add: pre_def x_def post_def)
  moreover have "xs[i := y] = pre @ y # post" using assms by (simp add: pre_def post_def upd_conv_take_nth_drop)
  moreover have "xs ! i = x" by (simp add: x_def)
  ultimately have "concat xs = concat pre @ x @ concat post" "concat (xs[i := y]) = concat pre @ y @ concat post" "xs ! i = x"
    by simp_all
  then show ?thesis by (simp only: mset_append plus_multiset.rep_eq)
qed

lemma held_all_update:
  assumes "all_streams t = (all_streams s)[nat i := sts]" and "length (sm_sensors s) = ZE_NUMSENSORS" and "sensor_ix i"
  shows "held_all t k + count (mset (regs (sn_streams (sensor_at s i)))) k = held_all s k + count (mset (regs sts)) k"
proof -
  have lt: "nat i < length (map regs (all_streams s))" using assms(2,3) by (simp add: all_streams_def sensor_ix_def nat_less_iff)
  have at: "map regs (all_streams s) ! nat i = regs (sn_streams (sensor_at s i))"
    using lt by (simp add: all_streams_def sensor_at_def)
  have "map regs (all_streams t) = (map regs (all_streams s))[nat i := regs sts]" unfolding assms(1) by (rule map_update)
  with count_concat_update [OF lt, of "regs sts" k] show ?thesis unfolding held_all_def at by simp
qed

section \<open>What leaves the tickets alone\<close>

definition good :: "sm_state \<Rightarrow> bool" where
  "good s \<longleftrightarrow> buffers_here s \<and> length (sm_sensors s) = ZE_NUMSENSORS"

text \<open>The streams keep their tickets, and what is put gives none back and only updates tickets that are held.\<close>

definition sends :: "sm_state \<Rightarrow> sm_state \<Rightarrow> bool" where
  "sends s t \<longleftrightarrow> (good s \<longrightarrow> good t \<and> map regs (all_streams t) = map regs (all_streams s)
     \<and> w_issued (sm_world t) = w_issued (sm_world s)
     \<and> (\<exists>m. requests (sm_smreqbuf t) = drop m (requests (sm_smreqbuf s)))
     \<and> (\<exists>ps. history t = history s @ ps \<and> (\<forall>r\<in>set ps. rs_rtype r \<noteq> STREAM_STOPPED
           \<and> (rs_rtype r = STREAM_UPDATE \<longrightarrow> 0 < held_all s (rs_ticket r)))))"

lemma sends_refl [simp]: "sends s s"
  unfolding sends_def by (auto intro: exI [of _ 0])

lemma sends_trans:
  assumes "sends s t" and "sends t u"
  shows "sends s u"
  unfolding sends_def
proof
  assume g: "good s"
  obtain m ps where t: "good t" "map regs (all_streams t) = map regs (all_streams s)" "w_issued (sm_world t) = w_issued (sm_world s)"
    "requests (sm_smreqbuf t) = drop m (requests (sm_smreqbuf s))" "history t = history s @ ps"
    "\<forall>r\<in>set ps. rs_rtype r \<noteq> STREAM_STOPPED \<and> (rs_rtype r = STREAM_UPDATE \<longrightarrow> 0 < held_all s (rs_ticket r))"
    using assms(1) g unfolding sends_def by blast
  obtain n qs where u: "good u" "map regs (all_streams u) = map regs (all_streams t)" "w_issued (sm_world u) = w_issued (sm_world t)"
    "requests (sm_smreqbuf u) = drop n (requests (sm_smreqbuf t))" "history u = history t @ qs"
    "\<forall>r\<in>set qs. rs_rtype r \<noteq> STREAM_STOPPED \<and> (rs_rtype r = STREAM_UPDATE \<longrightarrow> 0 < held_all t (rs_ticket r))"
    using assms(2) t(1) unfolding sends_def by blast
  have h: "held_all t k = held_all s k" for k unfolding held_all_def t(2) ..
  have "requests (sm_smreqbuf u) = drop (n + m) (requests (sm_smreqbuf s))" "history u = history s @ (ps @ qs)"
    using t(4,5) u(4,5) by simp_all
  moreover have "\<forall>r\<in>set (ps @ qs). rs_rtype r \<noteq> STREAM_STOPPED \<and> (rs_rtype r = STREAM_UPDATE \<longrightarrow> 0 < held_all s (rs_ticket r))"
    using t(6) u(6) h by auto
  ultimately show "good u \<and> map regs (all_streams u) = map regs (all_streams s) \<and> w_issued (sm_world u) = w_issued (sm_world s)
     \<and> (\<exists>m. requests (sm_smreqbuf u) = drop m (requests (sm_smreqbuf s)))
     \<and> (\<exists>ps. history u = history s @ ps \<and> (\<forall>r\<in>set ps. rs_rtype r \<noteq> STREAM_STOPPED
           \<and> (rs_rtype r = STREAM_UPDATE \<longrightarrow> 0 < held_all s (rs_ticket r))))"
    using t(1-3) u(1-3) by metis
qed

text \<open>A change that puts and takes nothing, and gives no stream another ticket.\<close>

lemma sends_still:
  assumes "map (\<lambda>sn. regs (sn_streams sn)) (sm_sensors t) = map (\<lambda>sn. regs (sn_streams sn)) (sm_sensors s)"
    and "sm_notbuf t = sm_notbuf s" "sm_smreqbuf t = sm_smreqbuf s" "sm_adqueue t = sm_adqueue s"
    and "w_wait (sm_world t) = w_wait (sm_world s)" "utlists_ok (sm_world t) = utlists_ok (sm_world s)"
    and "w_issued (sm_world t) = w_issued (sm_world s)" "w_taken (sm_world t) = w_taken (sm_world s)"
  shows "sends s t"
proof -
  have "length (sm_sensors t) = length (sm_sensors s)" using arg_cong [OF assms(1), of length] by simp
  then have "good t = good s" using assms(2-6) by (simp add: good_def buffers_here_def buffers_ok_def world_ok_def)
  moreover have "map regs (all_streams t) = map regs (all_streams s)" using assms(1) by (simp add: all_streams_def comp_def)
  moreover have "history t = history s" using assms(2,8) by (simp add: history_def)
  ultimately show ?thesis using assms(3,7) unfolding sends_def by (metis append_Nil2 drop0 empty_iff empty_set)
qed

lemma sends_hw: "hw_frame s t \<Longrightarrow> sends s t"
proof -
  assume f: "hw_frame s t"
  note r = rest_of_state_eqD [OF hw_frame_rest [OF f]]
  have w: "(sm_world t)\<lparr>w_tick := 0, w_calls := []\<rparr> = (sm_world s)\<lparr>w_tick := 0, w_calls := []\<rparr>"
    using hw_frame_rest [OF f] by (cases s; cases t) (simp add: rest_of_state_def)
  have "w_wait (sm_world t) = w_wait (sm_world s)" "w_issued (sm_world t) = w_issued (sm_world s)"
    "w_taken (sm_world t) = w_taken (sm_world s)"
    using w by (cases "sm_world s"; cases "sm_world t"; simp)+
  moreover have "map (\<lambda>sn. regs (sn_streams sn)) (sm_sensors t) = map (\<lambda>sn. regs (sn_streams sn)) (sm_sensors s)"
    using arg_cong [OF all_streams_frame [OF f], of "map regs"] by (simp add: all_streams_def comp_def)
  ultimately show ?thesis using r f by (intro sends_still) (simp_all add: hw_frame_def)
qed

lemma sends_upd:
  assumes "regs (sn_streams (f (sensor_at s i))) = regs (sn_streams (sensor_at s i))"
  shows "sends s (upd_sensor i f s)"
proof (rule sends_still)
  have "map (\<lambda>sn. regs (sn_streams sn)) ((sm_sensors s)[nat i := f (sensor_at s i)]) = map (\<lambda>sn. regs (sn_streams sn)) (sm_sensors s)"
    unfolding map_update assms unfolding sensor_at_def
    by (cases "nat i < length (sm_sensors s)") (simp_all add: list_update_beyond list_update_same_conv)
  then show "map (\<lambda>sn. regs (sn_streams sn)) (sm_sensors (upd_sensor i f s)) = map (\<lambda>sn. regs (sn_streams sn)) (sm_sensors s)"
    by (simp add: upd_sensor_def)
qed (simp_all add: upd_sensor_def)

lemma sends_ask [simp]: "sends s (snd (ask f s))"
  by (rule sends_still) (simp_all add: ask_def utlists_ok_def)

lemma sends_put:
  assumes "put_response_helper fuel s rt tk pk = Inr (q, t)" and "rt \<noteq> STREAM_STOPPED"
    and "rt = STREAM_UPDATE \<longrightarrow> 0 < held_all s tk"
  shows "sends s t"
  unfolding sends_def
proof
  assume g: "good s"
  then have b: "buffers_ok s" "sm_adqueue s = ADNull" by (simp_all add: good_def buffers_here_def)
  note e = helper_effect [OF b assms(1)] and h = helper_history [OF b assms(1)]
  have "good t" "map regs (all_streams t) = map regs (all_streams s)"
    using e g by (simp_all add: good_def buffers_here_def all_streams_def)
  moreover obtain m where "requests (sm_smreqbuf t) = drop m (requests (sm_smreqbuf s))" using e by blast
  moreover have "\<forall>r\<in>set (if q = 1 then [response rt tk pk] else []). rs_rtype r \<noteq> STREAM_STOPPED
      \<and> (rs_rtype r = STREAM_UPDATE \<longrightarrow> 0 < held_all s (rs_ticket r))"
    using assms(2,3) by simp
  ultimately show "good t \<and> map regs (all_streams t) = map regs (all_streams s) \<and> w_issued (sm_world t) = w_issued (sm_world s)
     \<and> (\<exists>m. requests (sm_smreqbuf t) = drop m (requests (sm_smreqbuf s)))
     \<and> (\<exists>ps. history t = history s @ ps \<and> (\<forall>r\<in>set ps. rs_rtype r \<noteq> STREAM_STOPPED
           \<and> (rs_rtype r = STREAM_UPDATE \<longrightarrow> 0 < held_all s (rs_ticket r))))"
    using h by blast
qed

section \<open>Sampling leaves the tickets alone\<close>

lemma sends_packet:
  assumes "send_packet fuel s evs tss n conf rt tk = Inr t" and "rt \<noteq> STREAM_STOPPED"
    and "rt = STREAM_UPDATE \<longrightarrow> 0 < held_all s tk"
  shows "sends s t" and "sm_sensors t = sm_sensors s"
proof -
  let ?u = "snd (ask w_malloc (snd (ask w_malloc s)))"
  obtain pk r where h: "put_response_helper fuel ?u rt tk pk = Inr (r, t)"
    using assms(1)
    by (auto simp: send_packet_def sm_encode_def set_conf_def Let_def split_def bindR_Inr_iff split: option.splits)
  have u: "sends s ?u" by (rule sends_trans [OF sends_ask sends_ask])
  have "held_all ?u tk = held_all s tk" by (simp add: held_all_def all_streams_def)
  with sends_put [OF h assms(2)] assms(3) show "sends s t" by (intro sends_trans [OF u]) simp
  show "sm_sensors t = sm_sensors s" using put_response_helper_sensors [OF h] by simp
qed

lemma rtype_codes: "STREAM_UPDATE \<noteq> STREAM_STOPPED" "ONESHOT \<noteq> STREAM_STOPPED" "ONESHOT \<noteq> STREAM_UPDATE"
  by (simp_all add: STREAM_UPDATE_def STREAM_STOPPED_def ONESHOT_def)

lemma sends_answers: "answer_oneshots fuel ev os s = Inr t \<Longrightarrow> sends s t"
proof (induction os arbitrary: s)
  case (Cons one os)
  then obtain s1 where p: "send_packet fuel s [ev] [0] 1 COAP_MESSAGE_CON ONESHOT one = Inr s1"
    and t: "answer_oneshots fuel ev os (upd_sensor (ev_type ev) (\<lambda>sn. sn\<lparr>sn_oneshots := os\<rparr>) s1) = Inr t"
    by (auto simp: bindR_Inr_iff)
  have "sends s s1" using sends_packet(1) [OF p] by (simp add: rtype_codes)
  moreover have "sends s1 (upd_sensor (ev_type ev) (\<lambda>sn. sn\<lparr>sn_oneshots := os\<rparr>) s1)" by (rule sends_upd) simp
  ultimately show ?case using Cons.IH [OF t] by (blast intro: sends_trans)
qed simp

lemma sends_oneshots:
  assumes "serve_oneshots fuel ev s = Inr t"
  shows "sends s t"
proof (cases "sn_oneshots (sensor_at s (ev_type ev)) = []")
  case True
  with assms show ?thesis by (simp add: serve_oneshots_def)
next
  case False
  with assms obtain s1 where a: "answer_oneshots fuel ev (sn_oneshots (sensor_at s (ev_type ev))) s = Inr s1"
    and t: "t = s1 \<or> (\<exists>r. android_sensor_turnoff s1 (ev_type ev) = Inr (r, t))"
    by (auto simp: serve_oneshots_def bindR_Inr_iff split: if_splits)
  have "sends s1 t" using t turnoff_frame [THEN sends_hw] sends_refl by blast
  then show ?thesis by (rule sends_trans [OF sends_answers [OF a]])
qed

lemma buffer_sample_reg: "buffer_sample event st = Inr st1 \<Longrightarrow> st_reg st1 = st_reg st"
  by (auto simp: buffer_sample_def bindR_Inr_iff split: if_splits)

lemma notify_once_sends:
  assumes "notify_once fuel s ev st = Inr (st', t)"
  shows "st_reg st' = st_reg st \<and> (t = s \<or> (\<exists>evs tss n conf. send_packet fuel s evs tss n conf STREAM_UPDATE (st_reg st) = Inr t))"
proof -
  obtain st1 where b: "buffer_sample ev st = Inr st1"
    and r: "(if st_event_buffer_level st1 = SOURCE_BUFFER_SIZE
      then bindR (send_packet fuel s (st_event_buffer st1) (st_event_rtpts_buffer st1) SOURCE_BUFFER_SIZE
             (st_retransmit st1) STREAM_UPDATE (st_reg st1)) (\<lambda>s1.
        Inr (st1\<lparr>st_samples_sent := i32 (st_samples_sent st1 + int SOURCE_BUFFER_SIZE), st_event_buffer_level := 0\<rparr>, s1))
      else Inr (st1, s)) = Inr (st', t)"
    using assms unfolding notify_once_def bindR_Inr_iff by blast
  show ?thesis
  proof (cases "st_event_buffer_level st1 = SOURCE_BUFFER_SIZE")
    case True
    from r [unfolded if_P [OF True]] obtain s1 where
      "send_packet fuel s (st_event_buffer st1) (st_event_rtpts_buffer st1) SOURCE_BUFFER_SIZE
         (st_retransmit st1) STREAM_UPDATE (st_reg st1) = Inr s1"
      "st' = st1\<lparr>st_samples_sent := i32 (st_samples_sent st1 + int SOURCE_BUFFER_SIZE), st_event_buffer_level := 0\<rparr>" "t = s1"
      unfolding bindR_Inr_iff by blast
    with buffer_sample_reg [OF b] show ?thesis by auto
  next
    case False
    from r [unfolded if_not_P [OF False]] show ?thesis using buffer_sample_reg [OF b] by simp
  qed
qed

lemma notify_repeat_sends:
  assumes "notify_repeat fuel s ev st = Inr (st', t)"
  shows "st_reg st' = st_reg st \<and> (\<exists>evs tss n conf. send_packet fuel s evs tss n conf STREAM_UPDATE (st_reg st) = Inr t)"
proof -
  obtain tsa st1 evs tss where r: "(if st_event_buffer_level st = 0
      then bindR (write_at (st_event_buffer st) 0 ev) (\<lambda>evs. bindR (write_at (st_event_rtpts_buffer st) 0 tsa) (\<lambda>tss.
        Inr (st\<lparr>st_event_buffer := evs, st_event_rtpts_buffer := tss, st_event_buffer_level := 1\<rparr>)))
      else Inr st) = Inr st1"
    and s: "bindR (send_packet fuel s evs tss SOURCE_BUFFER_SIZE (st_retransmit st1) STREAM_UPDATE (st_reg st1)) (\<lambda>s1.
      Inr (st1\<lparr>st_last_rtpts := tsa, st_last_wts := ev_timestamp ev, st_samples_sent := i32 (st_samples_sent st1 + 1),
             st_event_buffer := evs[0 := ev], st_event_rtpts_buffer := tss[0 := tsa]\<rparr>, s1)) = Inr (st', t)"
    using assms unfolding notify_repeat_def bindR_Inr_iff by blast
  have reg: "st_reg st1 = st_reg st"
  proof (cases "st_event_buffer_level st = 0")
    case True
    from r [unfolded if_P [OF True]] show ?thesis unfolding bindR_Inr_iff by auto
  next
    case False
    from r [unfolded if_not_P [OF False]] show ?thesis by simp
  qed
  from s have "send_packet fuel s evs tss SOURCE_BUFFER_SIZE (st_retransmit st1) STREAM_UPDATE (st_reg st1) = Inr t"
    "st_reg st' = st_reg st1"
    unfolding bindR_Inr_iff by auto
  then show ?thesis unfolding reg by blast
qed

lemma sends_notify:
  assumes "notify_stream fuel s ev st = Inr (st', t)" and "0 < held_all s (st_reg st)"
  shows "sends s t" and "sm_sensors t = sm_sensors s" and "st_reg st' = st_reg st"
proof -
  have "st_reg st' = st_reg st \<and> (t = s \<or> (\<exists>evs tss n conf. send_packet fuel s evs tss n conf STREAM_UPDATE (st_reg st) = Inr t))"
    using assms(1) notify_once_sends notify_repeat_sends unfolding notify_stream_def by (cases "st_repeat st = REPETITION_OFF") simp_all
  then consider "st_reg st' = st_reg st" "t = s"
    | evs tss n conf where "st_reg st' = st_reg st" "send_packet fuel s evs tss n conf STREAM_UPDATE (st_reg st) = Inr t"
    by blast
  then show "sends s t" "sm_sensors t = sm_sensors s" "st_reg st' = st_reg st"
    using sends_packet [OF _ rtype_codes(1)] assms(2) by (cases; simp)+
qed

lemma held_all_mem:
  assumes "good s" and "sensor_ix i" and "k \<in> set (regs (sn_streams (sensor_at s i)))"
  shows "0 < held_all s k"
proof -
  have "sensor_at s i \<in> set (sm_sensors s)" using assms(1,2) by (simp add: good_def sensor_at_mem)
  with assms(3) have "k \<in> set (concat (map regs (all_streams s)))" by (auto simp: all_streams_def)
  then show ?thesis unfolding held_all_def by (metis count_greater_zero_iff set_mset_mset)
qed

lemma sends_streams:
  assumes "good s" and "sensor_ix (ev_type ev)"
    and "regs (sn_streams (sensor_at s (ev_type ev))) = pre @ regs rest" and "k = length pre"
    and "notify_streams fuel ev k rest s = Inr t"
  shows "sends s t"
  using assms
proof (induction rest arbitrary: s pre k)
  case (Cons st rest)
  let ?i = "ev_type ev"
  obtain st' s1 where n: "notify_stream fuel s ev st = Inr (st', s1)"
    and t: "notify_streams fuel ev (Suc k) rest (upd_sensor ?i (\<lambda>sn. sn\<lparr>sn_streams := (sn_streams sn)[k := st']\<rparr>) s1) = Inr t"
    using Cons.prems(5) by (auto simp: bindR_Inr_iff)
  have "0 < held_all s (st_reg st)" using Cons.prems(3) by (intro held_all_mem [OF Cons.prems(1,2)]) simp
  note s1 = sends_notify [OF n this]
  let ?u = "upd_sensor ?i (\<lambda>sn. sn\<lparr>sn_streams := (sn_streams sn)[k := st']\<rparr>) s1"
  have at: "sensor_at s1 ?i = sensor_at s ?i" using s1(2) by (simp add: sensor_at_def)
  have same: "regs ((sn_streams (sensor_at s1 ?i))[k := st']) = regs (sn_streams (sensor_at s1 ?i))"
    unfolding map_update at Cons.prems(3) using Cons.prems(4) s1(3) by simp
  have u: "sends s1 ?u" using same by (intro sends_upd) simp
  have su: "sends s ?u" using s1(1) u by (rule sends_trans)
  then have g: "good ?u" using Cons.prems(1) unfolding sends_def by blast
  have "length (sm_sensors s1) = ZE_NUMSENSORS" using g by (simp add: good_def)
  then have "regs (sn_streams (sensor_at ?u ?i)) = (pre @ [st_reg st]) @ regs rest"
    using Cons.prems(2,3) same at by (simp add: sensor_at_upd)
  from Cons.IH [OF g Cons.prems(2) this _ t] Cons.prems(4) have "sends ?u t" by simp
  with su show ?case by (rule sends_trans)
qed simp

lemma sends_event:
  assumes "good s" and "process_event fuel qselect ev s = Inr t"
  shows "sends s t"
proof -
  obtain s1 s2 s3 where r: "record_sample ev s = Inr s1" and ix: "sensor_ix (ev_type ev)"
    and s2: "s2 = (if qselect = SAMPLES_QUEUE
      then upd_sensor (ev_type ev) (\<lambda>sn. sn\<lparr>sn_event_cache := ev, sn_cache_valid := 1\<rparr>) s1 else s1)"
    and o: "serve_oneshots fuel ev s2 = Inr s3"
    and n: "notify_streams fuel ev 0 (sn_streams (sensor_at s3 (ev_type ev))) s3 = Inr t"
    using assms(2) by (auto simp: process_event_def get_sensor_def bindR_Inr_iff Let_def split: if_splits)
  have "sends s s1"
    using r by (auto simp: record_sample_def Let_def split_def bindR_Inr_iff ask_def utlists_ok_def split: if_splits
        intro!: sends_still)
  moreover have "sends s1 s2" unfolding s2 by (simp add: sends_upd)
  ultimately have s3: "sends s s3" using sends_oneshots [OF o] by (blast intro: sends_trans)
  then have "good s3" using assms(1) unfolding sends_def by blast
  from sends_streams [OF this ix, of "[]"] n s3 show ?thesis by (auto intro: sends_trans)
qed

lemma sends_fetch: "sends s (snd (fetch_event qselect s))"
proof -
  have f: "sends s (snd (fetch_sample es s))" for es
  proof (induction es s rule: fetch_sample.induct)
    case (3 event es s)
    have "sends s (write_cache event s)"
      unfolding write_cache_def write_last_event_SYN_def by (rule sends_upd) simp
    moreover have "sends s (s\<lparr>sm_events := es\<rparr>)" by (rule sends_still) simp_all
    ultimately show ?case using 3 by (auto intro: sends_trans)
  qed (rule sends_still; simp)+
  have "sends s (snd (fetch_carrier s))"
    by (rule sends_still) (simp_all add: fetch_carrier_def Let_def split_def)
  with f show ?thesis by (cases qselect) (simp_all add: fetch_event_def)
qed

lemma sends_round: "good s \<Longrightarrow> sample_round fuel qselect s = Inr t \<Longrightarrow> sends s t"
proof -
  assume g: "good s" and r: "sample_round fuel qselect s = Inr t"
  obtain e s1 where e: "fetch_event qselect s = (e, s1)" by force
  have s1: "sends s s1" using sends_fetch [of s qselect] e by simp
  then have "good s1" using g unfolding sends_def by blast
  with r e s1 show ?thesis
    by (cases e) (auto simp: sample_round_def dest: sends_event intro: sends_trans)
qed

lemma sends_rounds: "good s \<Longrightarrow> sample_rounds fuel n qselect s = Inr t \<Longrightarrow> sends s t"
proof (induction n arbitrary: qselect s)
  case (Suc n)
  then obtain s1 where r: "sample_round fuel qselect s = Inr s1" and t: "sample_rounds fuel n (other_queue qselect) s1 = Inr t"
    by (auto simp: bindR_Inr_iff)
  note s1 = sends_round [OF Suc.prems(1) r]
  then have "good s1" using Suc.prems(1) unfolding sends_def by blast
  from Suc.IH [OF this t] s1 show ?case by (blast intro: sends_trans)
qed simp

section \<open>The ledger\<close>

text \<open>
  Each issued ticket is accounted for at most once by a START request that waits, a stream that holds it, or a response that gives it
  back; and an update in the history names a ticket that has been issued more often than given back before it. \<open>slack\<close> is the
  ticket of the request that is being served.
\<close>

definition balanced :: "sm_state \<Rightarrow> (int \<Rightarrow> nat) \<Rightarrow> bool" where
  "balanced s slack \<longleftrightarrow>
     (\<forall>k. returned (history s) k + held_all s k + started_with (requests (sm_smreqbuf s)) k + slack k \<le> issued s k)"

definition backed :: "sm_state \<Rightarrow> bool" where
  "backed s \<longleftrightarrow> (\<forall>pre r post. history s = pre @ r # post \<longrightarrow> rs_rtype r = STREAM_UPDATE
     \<longrightarrow> returned pre (rs_ticket r) < issued s (rs_ticket r))"

definition one_if :: "bool \<Rightarrow> int \<Rightarrow> int \<Rightarrow> nat" where
  "one_if b tk k = (if b \<and> k = tk then 1 else 0)"

lemma one_if_False [simp]: "one_if False tk = (\<lambda>_. 0)"
  by (simp add: one_if_def fun_eq_iff)

lemma backed_append:
  assumes "backed s" and "history t = history s @ ps" and "\<And>k. issued s k \<le> issued t k"
    and "\<And>qs r rs. ps = qs @ r # rs \<Longrightarrow> rs_rtype r = STREAM_UPDATE
      \<Longrightarrow> returned (history s @ qs) (rs_ticket r) < issued t (rs_ticket r)"
  shows "backed t"
  unfolding backed_def
proof (intro allI impI)
  fix pre r post assume h: "history t = pre @ r # post" and u: "rs_rtype r = STREAM_UPDATE"
  then have "history s @ ps = pre @ r # post" using assms(2) by simp
  then consider us where "history s = pre @ r # us" | qs where "pre = history s @ qs" "ps = qs @ r # post"
    by (auto simp: append_eq_append_conv2 append_eq_Cons_conv Cons_eq_append_conv)
  then show "returned pre (rs_ticket r) < issued t (rs_ticket r)"
  proof cases
    case 1
    then have "returned pre (rs_ticket r) < issued s (rs_ticket r)" using assms(1) u unfolding backed_def by blast
    with assms(3) show ?thesis using less_le_trans by blast
  next
    case 2
    with assms(4) u show ?thesis by blast
  qed
qed

lemma balanced_mono:
  assumes "balanced s slack" and "\<And>k. returned (history t) k = returned (history s) k" and "\<And>k. held_all t k \<le> held_all s k"
    and "requests (sm_smreqbuf t) = drop m (requests (sm_smreqbuf s))" and "\<And>k. issued t k = issued s k"
    and "\<And>k. slack' k \<le> slack k"
  shows "balanced t slack'"
  unfolding balanced_def
proof
  fix k
  have "returned (history s) k + held_all s k + started_with (requests (sm_smreqbuf s)) k + slack k \<le> issued s k"
    using assms(1) by (simp add: balanced_def)
  moreover have "started_with (requests (sm_smreqbuf t)) k \<le> started_with (requests (sm_smreqbuf s)) k"
    unfolding assms(4) by (rule started_drop)
  ultimately show "returned (history t) k + held_all t k + started_with (requests (sm_smreqbuf t)) k + slack' k \<le> issued t k"
    using assms(2,3,5,6) [of k] by linarith
qed

lemma sends_ledger:
  assumes "sends s t" and "good s" and "balanced s slack" and "backed s"
  shows "balanced t slack \<and> backed t"
proof -
  obtain m ps where t: "map regs (all_streams t) = map regs (all_streams s)" "w_issued (sm_world t) = w_issued (sm_world s)"
    "requests (sm_smreqbuf t) = drop m (requests (sm_smreqbuf s))" "history t = history s @ ps"
    "\<forall>r\<in>set ps. rs_rtype r \<noteq> STREAM_STOPPED \<and> (rs_rtype r = STREAM_UPDATE \<longrightarrow> 0 < held_all s (rs_ticket r))"
    using assms(1,2) unfolding sends_def by blast
  have i: "issued t k = issued s k" for k using t(2) by simp
  have h: "held_all t k = held_all s k" for k unfolding held_all_def t(1) ..
  have "returned ps k = 0" for k using t(5) by (intro returned_none) blast
  then have "balanced t slack" using balanced_mono [OF assms(3) _ _ t(3)] h i t(4) by simp
  moreover have "backed t"
  proof (rule backed_append [OF assms(4) t(4)])
    fix qs r rs assume ps: "ps = qs @ r # rs" and u: "rs_rtype r = STREAM_UPDATE"
    have "returned qs (rs_ticket r) = 0" using t(5) unfolding ps by (intro returned_none) simp
    moreover have "0 < held_all s (rs_ticket r)" using t(5) u unfolding ps by simp
    moreover have "returned (history s) (rs_ticket r) + held_all s (rs_ticket r)
        + started_with (requests (sm_smreqbuf s)) (rs_ticket r) + slack (rs_ticket r) \<le> issued s (rs_ticket r)"
      using assms(3) by (simp add: balanced_def)
    ultimately show "returned (history s @ qs) (rs_ticket r) < issued t (rs_ticket r)" unfolding returned_append i by linarith
  qed (simp add: i)
  ultimately show ?thesis ..
qed

text \<open>Giving a ticket back uses the slack up.\<close>

lemma stopped_ledger:
  assumes "good s" and "balanced s (one_if True tk)" and "backed s"
    and "put_response_helper fuel s STREAM_STOPPED tk None = Inr (q, t)"
  shows "balanced t (\<lambda>_. 0) \<and> backed t"
proof -
  have b: "buffers_ok s" "sm_adqueue s = ADNull" using assms(1) by (simp_all add: good_def buffers_here_def)
  note e = helper_effect [OF b assms(4)] and h = helper_history [OF b assms(4)]
  have i: "issued t k = issued s k" for k using h by simp
  have held: "held_all t k = held_all s k" for k using e by (simp add: held_all_def all_streams_def)
  obtain m where m: "requests (sm_smreqbuf t) = drop m (requests (sm_smreqbuf s))" using e by blast
  have "balanced t (\<lambda>_. 0)"
    unfolding balanced_def
  proof
    fix k
    have "returned (history s) k + held_all s k + started_with (requests (sm_smreqbuf s)) k + one_if True tk k \<le> issued s k"
      using assms(2) by (simp add: balanced_def)
    moreover have "returned (history t) k \<le> returned (history s) k + one_if True tk k" using h by (auto simp: one_if_def)
    moreover have "started_with (requests (sm_smreqbuf t)) k \<le> started_with (requests (sm_smreqbuf s)) k" unfolding m by (rule started_drop)
    ultimately show "returned (history t) k + held_all t k + started_with (requests (sm_smreqbuf t)) k + 0 \<le> issued t k"
      unfolding held i by linarith
  qed
  moreover have "backed t"
  proof (rule backed_append [OF assms(3) conjunct1 [OF h]])
    fix qs r rs assume "(if q = 1 then [response STREAM_STOPPED tk None] else []) = qs @ r # rs" "rs_rtype r = STREAM_UPDATE"
    then show "returned (history s @ qs) (rs_ticket r) < issued t (rs_ticket r)"
      using rtype_codes(1) by (auto simp: append_eq_Cons_conv Cons_eq_append_conv split: if_splits)
  qed (simp add: i)
  ultimately show ?thesis ..
qed

text \<open>A change of the sensors alone.\<close>

lemma rest_history:
  assumes "rest_of_state t = rest_of_state s"
  shows "history t = history s" and "w_issued (sm_world t) = w_issued (sm_world s)"
    and "sm_smreqbuf t = sm_smreqbuf s"
proof -
  have w: "(sm_world t)\<lparr>w_tick := 0, w_calls := []\<rparr> = (sm_world s)\<lparr>w_tick := 0, w_calls := []\<rparr>"
    using assms by (cases s; cases t) (simp add: rest_of_state_def)
  show "w_issued (sm_world t) = w_issued (sm_world s)" using w by (cases "sm_world s"; cases "sm_world t"; simp)
  have "w_taken (sm_world t) = w_taken (sm_world s)" using w by (cases "sm_world s"; cases "sm_world t"; simp)
  then show "history t = history s" using rest_of_state_eqD(1) [OF assms] by (simp add: history_def)
  show "sm_smreqbuf t = sm_smreqbuf s" using rest_of_state_eqD(2) [OF assms] .
qed

lemma rest_ledger:
  assumes "rest_of_state t = rest_of_state s" and "balanced s slack" and "backed s"
    and "\<And>k. held_all t k + slack' k \<le> held_all s k + slack k"
  shows "balanced t slack' \<and> backed t"
proof -
  note r = rest_history [OF assms(1)]
  have "balanced t slack'"
    unfolding balanced_def r
  proof
    fix k
    have "returned (history s) k + held_all s k + started_with (requests (sm_smreqbuf s)) k + slack k \<le> issued s k"
      using assms(2) by (simp add: balanced_def)
    with assms(4) [of k] show "returned (history s) k + held_all t k + started_with (requests (sm_smreqbuf s)) k + slack' k \<le> issued s k"
      by linarith
  qed
  with assms(3) show ?thesis unfolding backed_def r by blast
qed

section \<open>Serving a request\<close>

lemma sm_inv_good: "sm_inv s \<Longrightarrow> good s"
  using sm_inv_buffers sensors_ok_length [OF sm_inv_sensors] unfolding good_def buffers_here_def by blast

lemma request_taken_ledger:
  assumes "sm_inv s" and "balanced s (\<lambda>_. 0)" and "backed s" and "get_request_helper s = Inr (q, s1)"
  shows "balanced s1 (one_if (rq_rtype q = SM_REQ_START) (rq_ticket q)) \<and> backed s1"
proof -
  have b: "buffers_ok s" "sm_adqueue s = ADNull" using sm_inv_buffers [OF assms(1)] by simp_all
  have g: "get_request s = (q, s1)" using assms(4) b(2) by (simp add: get_request_helper_def)
  note e = get_request_effect [OF b(1) g]
  have same: "history s1 = history s" "held_all s1 k = held_all s k" "issued s1 k = issued s k" for k
    using e by (simp_all add: history_def held_all_def all_streams_def)
  have "started_with (requests (sm_smreqbuf s1)) k + one_if (rq_rtype q = SM_REQ_START) (rq_ticket q) k
      \<le> started_with (requests (sm_smreqbuf s)) k" for k
  proof (cases "requests (sm_smreqbuf s)")
    case Nil
    with e have "rq_rtype q = SM_REQ_INVALID" "requests (sm_smreqbuf s1) = []" by (simp_all del: ring_list_empty_iff)
    then show ?thesis by (simp add: one_if_def sm_req_codes del: ring_list_empty_iff)
  next
    case (Cons p ps)
    with e show ?thesis by (simp add: one_if_def)
  qed
  note waits = this
  have "balanced s1 (one_if (rq_rtype q = SM_REQ_START) (rq_ticket q))"
    unfolding balanced_def same
  proof
    fix k
    have "returned (history s) k + held_all s k + started_with (requests (sm_smreqbuf s)) k + 0 \<le> issued s k"
      using assms(2) unfolding balanced_def by blast
    with waits [of k] show "returned (history s) k + held_all s k + started_with (requests (sm_smreqbuf s1)) k
        + one_if (rq_rtype q = SM_REQ_START) (rq_ticket q) k \<le> issued s k"
      by linarith
  qed
  moreover have "backed s1" using assms(3) unfolding backed_def same .
  ultimately show ?thesis ..
qed

lemma start_ledger:
  assumes "sm_inv s" and "sensor_ix (rq_sensor q)" and "0 < rq_freq q"
    and "balanced s (one_if True (rq_ticket q))" and "backed s" and "serve_start fuel s q = Inr t"
  shows "balanced t (\<lambda>_. 0) \<and> backed t"
proof -
  let ?i = "rq_sensor q" and ?r = "rq_ticket q"
  let ?sts = "sn_streams (sensor_at s ?i)"
  have ok: "sensors_ok s" and d: "distinct (regs ?sts)" and len: "length (sm_sensors s) = ZE_NUMSENSORS"
    using assms(1) sm_inv_at [OF assms(1,2)] sensors_ok_length [OF sm_inv_sensors [OF assms(1)]]
    by (simp_all add: sm_inv_def sensor_ok_def)
  obtain b s1 where s1: "sm_start_stream s ?i ?r (rq_freq q) = Inr (b, s1)" "rest_of_state s1 = rest_of_state s" "sensors_ok s1"
    and h: "\<And>k. held_all s1 k + one_if (\<not> b) ?r k \<le> held_all s k + one_if True ?r k"
  proof (cases "fst (ask w_malloc s)")
    case True
    obtain s1 r where s1: "sm_start_stream s ?i ?r (rq_freq q) = Inr (?r \<notin> set (regs ?sts), s1)" "rest_of_state s1 = rest_of_state s"
      "sensors_ok s1" "all_streams s1 = (all_streams s)[nat ?i := stream_without ?r ?sts @ [started_stream r ?r (rq_freq q)]]"
      using start_stream_effect [OF ok assms(2,3) True, of ?r] by blast
    define new where "new = started_stream r ?r (rq_freq q)"
    have new: "st_reg new = ?r" by (simp add: new_def started_stream_def)
    have "held_all s1 k + one_if (\<not> ?r \<notin> set (regs ?sts)) ?r k \<le> held_all s k + one_if True ?r k" for k
      using held_all_update [OF s1(4) len assms(2), of k] registered_count [OF d, of new k] new
      unfolding new_def [symmetric] one_if_def by (auto split: if_splits)
    with s1 that show ?thesis by blast
  next
    case False
    then show ?thesis
      using ok by (intro that [OF start_stream_nomem [OF False]]) (simp_all add: one_if_def held_all_def all_streams_def)
  qed
  note l = rest_ledger [OF s1(2) assms(4,5) h]
  have inv1: "sm_inv s1" using sm_inv_rest [OF assms(1) s1(2,3)] .
  show ?thesis
  proof (cases b)
    case True
    with assms(6) s1(1) l show ?thesis by (simp add: serve_start_def one_if_def)
  next
    case False
    with assms(6) s1(1) obtain r where "put_response_helper fuel s1 STREAM_STOPPED ?r None = Inr (r, t)"
      by (auto simp: serve_start_def bindR_Inr_iff)
    moreover have "balanced s1 (one_if True ?r)" "backed s1" using l False by simp_all
    ultimately show ?thesis using stopped_ledger [OF sm_inv_good [OF inv1]] by blast
  qed
qed

lemma stop_ledger:
  assumes "sm_inv s" and "sensor_ix (rq_sensor q)" and "balanced s (\<lambda>_. 0)" and "backed s" and "serve_stop fuel s q = Inr t"
  shows "balanced t (\<lambda>_. 0) \<and> backed t"
proof -
  let ?i = "rq_sensor q" and ?r = "rq_ticket q"
  let ?sts = "sn_streams (sensor_at s ?i)"
  have ok: "sensors_ok s" and d: "distinct (regs ?sts)" and len: "length (sm_sensors s) = ZE_NUMSENSORS"
    using assms(1) sm_inv_at [OF assms(1,2)] sensors_ok_length [OF sm_inv_sensors [OF assms(1)]]
    by (simp_all add: sm_inv_def sensor_ok_def)
  show ?thesis
  proof (cases "?r \<in> set (regs ?sts)")
    case False
    with stop_stream_unknown [OF assms(2) False] assms(3-5) show ?thesis by (simp add: serve_stop_def)
  next
    case mem: True
    have "\<not> (stream_without ?r ?sts = [] \<and> sn_oneshots (sensor_at s ?i) \<noteq> [])"
    proof
      assume "stream_without ?r ?sts = [] \<and> sn_oneshots (sensor_at s ?i) \<noteq> []"
      then have "sm_stop_stream s ?i ?r = Inl NullDeref" unfolding stop_stream_known [OF ok assms(2) mem] by simp
      with assms(5) show False by (simp add: serve_stop_def)
    qed
    then obtain s1 where s1: "sm_stop_stream s ?i ?r = Inr (0, s1)" "sensors_ok s1" "rest_of_state s1 = rest_of_state s"
      "all_streams s1 = (all_streams s)[nat ?i := stream_without ?r ?sts]"
      using stop_stream_effect [OF ok assms(2) mem] by blast
    have "held_all s1 k + one_if True ?r k \<le> held_all s k + 0" for k
      using held_all_update [OF s1(4) len assms(2), of k] released_count [OF d mem, of k]
      unfolding one_if_def by (auto split: if_splits)
    note l = rest_ledger [OF s1(3) assms(3,4) this]
    have inv1: "sm_inv s1" using sm_inv_rest [OF assms(1) s1(3,2)] .
    from assms(5) s1(1) obtain r where "put_response_helper fuel s1 STREAM_STOPPED ?r None = Inr (r, t)"
      by (auto simp: serve_stop_def bindR_Inr_iff SM_ERROR_def)
    with stopped_ledger [OF sm_inv_good [OF inv1]] l show ?thesis by blast
  qed
qed

lemma sends_oneshot:
  assumes "serve_oneshot fuel s q = Inr t"
  shows "sends s t"
proof (cases "sn_cache_valid (sensor_at s (rq_sensor q)) = 1")
  case True
  with assms have "send_packet fuel s [sn_event_cache (sensor_at s (rq_sensor q))] [0] 1 COAP_MESSAGE_NON ONESHOT (rq_ticket q) = Inr t"
    by (auto simp: serve_oneshot_def get_sensor_def split: if_splits)
  then show ?thesis using sends_packet(1) rtype_codes by blast
next
  case False
  with assms obtain r s1 where a: "android_sensor_activate s (rq_sensor q) DEFAULT_FREQ = Inr (r, s1)"
    and t: "t = upd_sensor (rq_sensor q) (\<lambda>sn. sn\<lparr>sn_oneshots := ll_append (w_oneshots (sm_world (snd (ask w_malloc s1))))
      (sn_oneshots sn) (rq_ticket q)\<rparr>) (snd (ask w_malloc s1))"
    by (auto simp: serve_oneshot_def get_sensor_def bindR_Inr_iff sm_new_oneshot_def Let_def split_def split: if_splits)
  have "sends (snd (ask w_malloc s1)) t" unfolding t by (rule sends_upd) simp
  with sends_hw [OF activate_frame [OF a]] show ?thesis by (blast intro: sends_trans sends_ask)
qed

lemma serve_ledger:
  assumes "sm_inv s" and "balanced s (\<lambda>_. 0)" and "backed s" and "serve_request fuel s = Inr t"
  shows "balanced t (\<lambda>_. 0) \<and> backed t"
proof -
  obtain q s1 where g: "get_request_helper s = Inr (q, s1)" "sm_inv s1" "rq_rtype q = SM_REQ_INVALID \<or> request_ok q"
    using get_request_helper_safe [OF assms(1)] by blast
  note l = request_taken_ledger [OF assms(1-3) g(1)]
  have ok: "sensor_ix (rq_sensor q)" if "rq_rtype q \<noteq> SM_REQ_INVALID" using that g(3) by (simp add: request_ok_def)
  consider "rq_rtype q = SM_REQ_START" "serve_start fuel s1 q = Inr t" | "rq_rtype q = SM_REQ_STOP" "serve_stop fuel s1 q = Inr t"
    | "rq_rtype q = SM_REQ_ONESHOT" "serve_oneshot fuel s1 q = Inr t" | "rq_rtype q \<noteq> SM_REQ_START" "t = s1"
    using assms(4) g(1) by (auto simp: serve_request_def split: if_splits)
  then show ?thesis
  proof cases
    case 1
    with g(3) have "0 < rq_freq q" by (auto simp: request_ok_def sm_req_codes)
    moreover have "sensor_ix (rq_sensor q)" using ok 1(1) by (simp add: sm_req_codes)
    moreover have "balanced s1 (one_if True (rq_ticket q))" "backed s1" using l 1(1) by simp_all
    ultimately show ?thesis using start_ledger [OF g(2) _ _ _ _ 1(2)] by blast
  next
    case 2
    then have "sensor_ix (rq_sensor q)" "balanced s1 (\<lambda>_. 0)" "backed s1" using ok l by (simp_all add: sm_req_codes)
    then show ?thesis by (rule stop_ledger [OF g(2) _ _ _ 2(2)])
  next
    case 3
    with l have "balanced s1 (\<lambda>_. 0)" by (simp add: sm_req_codes)
    with 3 sends_ledger [OF sends_oneshot sm_inv_good [OF g(2)]] l show ?thesis by blast
  next
    case 4
    with l show ?thesis by simp
  qed
qed

section \<open>In every reachable state\<close>

lemma ledger_step:
  assumes "sm_inv s" and "balanced s (\<lambda>_. 0)" and "backed s" and "sm_step fuel s t"
  shows "balanced t (\<lambda>_. 0) \<and> backed t"
  using assms(4)
proof cases
  case iterate
  then obtain s1 where s1: "serve_request fuel s = Inr s1" "sample_rounds fuel QUEUE_REQ_RATIO SAMPLES_QUEUE s1 = Inr t"
    by (auto simp: thread_iteration_def bindR_Inr_iff)
  have "sm_inv s1" using serve_request_safe [OF assms(1), of fuel] s1(1) by simp
  with sends_rounds [OF sm_inv_good s1(2)] sends_ledger [OF _ sm_inv_good] serve_ledger [OF assms(1-3) s1(1)] show ?thesis by blast
next
  case (request q)
  let ?b = "snd (put_request_buf_item id (sm_smreqbuf s) (rq_rtype q) (rq_sensor q) (rq_ticket q) (rq_freq q))"
  have r: "requests ?b = requests (sm_smreqbuf s) @ [q]"
    using request(2) sm_inv_buffers [OF assms(1)] put_request_room_list [of "sm_smreqbuf s" id]
    by (cases q) (simp add: buffers_ok_def)
  have h: "history t = history s" "issued t k = issued s k + started_with [q] k" "held_all t k = held_all s k" for k
    unfolding request(1) by (simp_all add: history_def held_all_def all_streams_def)
  have rt: "requests (sm_smreqbuf t) = requests (sm_smreqbuf s) @ [q]" unfolding request(1) using r by simp
  have "balanced t (\<lambda>_. 0)" unfolding balanced_def h rt using assms(2) by (simp add: balanced_def add.assoc)
  moreover have "backed t" using assms(3) unfolding backed_def h by (metis trans_less_add1)
  ultimately show ?thesis ..
next
  case serve
  have w: "resbuf_wf (sm_notbuf s)" using sm_inv_buffers [OF assms(1)] by (simp add: buffers_ok_def)
  have "history t = history s" unfolding serve by (rule get_response_history [OF w])
  moreover have "held_all t k = held_all s k" "requests (sm_smreqbuf t) = requests (sm_smreqbuf s)" "issued t k = issued s k" for k
    unfolding serve by (simp_all add: held_all_def all_streams_def)
  ultimately show ?thesis using assms(2,3) unfolding balanced_def backed_def by simp
next
  case (carrier_end i)
  have "sends s t" unfolding carrier_end by (rule sends_upd) simp
  then show ?thesis by (rule sends_ledger [OF _ sm_inv_good [OF assms(1)] assms(2,3)])
qed (use assms(2,3) in \<open>simp_all add: balanced_def backed_def history_def held_all_def all_streams_def\<close>)

lemma reachable_ledger: "sm_reachable fuel s \<Longrightarrow> balanced s (\<lambda>_. 0) \<and> backed s"
proof (induction rule: sm_reachable.induct)
  case (start s)
  then obtain w where s: "s = quiet_state\<lparr>sm_world := w\<rparr>" "w_issued w = []" "w_taken w = []" by (auto simp: sm_initial_def)
  have "responses (sm_notbuf quiet_state) = []"
    using init_coap_buf_wf [of True] by (simp add: quiet_state_def init_coap_buf_def)
  then have h: "history s = []" by (simp add: history_def s del: ring_list_empty_iff)
  have q: "requests (sm_smreqbuf s) = []" using quiet_buffers(3) by (simp add: s del: ring_list_empty_iff)
  have "held_all s k = 0" for k
    by (simp add: held_all_def all_streams_def s quiet_state_def blank_sensor_def comp_def)
  then have "balanced s (\<lambda>_. 0)" unfolding balanced_def h q by simp
  moreover have "backed s" unfolding backed_def h by simp
  ultimately show ?case ..
next
  case (step s t)
  then show ?case using ledger_step [OF sm_reachable_inv [OF step.hyps(1)]] by blast
qed

text \<open>Wherever in the history a ticket is used, it was outstanding.\<close>

lemma outstanding_history:
  assumes "sm_reachable fuel s" and "history s = pre @ r # post" and "rs_rtype r \<in> {STREAM_UPDATE, STREAM_STOPPED}"
  shows "returned pre (rs_ticket r) < issued s (rs_ticket r)"
proof -
  note l = reachable_ledger [OF assms(1)]
  show ?thesis
  proof (cases "rs_rtype r = STREAM_STOPPED")
    case True
    have "returned (history s) (rs_ticket r) \<le> issued s (rs_ticket r)" using l unfolding balanced_def by (metis add_leD1)
    moreover have "returned (r # post) (rs_ticket r) = Suc (returned post (rs_ticket r))" using True by (simp add: returned_def)
    ultimately show ?thesis unfolding assms(2) returned_append by linarith
  next
    case False
    with assms(2,3) l show ?thesis unfolding backed_def by blast
  qed
qed

lemma outstanding_ticket:
  assumes "sm_reachable fuel s" and "responses (sm_notbuf s) = r # rs" and "rs_rtype r \<in> {STREAM_UPDATE, STREAM_STOPPED}"
  shows "returned (w_taken (sm_world s)) (rs_ticket r) < issued s (rs_ticket r)"
  by (rule outstanding_history [OF assms(1) _ assms(3)]) (simp add: history_def assms(2))

section \<open>Properties\<close>

text \<open>
  C5. The tickets are safe to use: in every state the system can reach, when the CoAP server takes a STREAM_UPDATE or a STREAM_STOPPED
  next, it has put more START requests with the ticket of that response than it has taken STREAM_STOPPED responses with it. So no ticket
  is given back more often than it was issued, and no update arrives for a ticket that has been given back for good,
  whatever the order of requests and responses, the answers of malloc and the responses lost to a full buffer, as long as the timed wait
  for room has no spurious wakeup.
\<close>

theorem tickets_outstanding:
  assumes "sm_reachable fuel s" and "responses (sm_notbuf s) = r # rs" and "rs_rtype r \<in> {STREAM_UPDATE, STREAM_STOPPED}"
  shows "returned (w_taken (sm_world s)) (rs_ticket r) < started_with (w_issued (sm_world s)) (rs_ticket r)"
  using assms by (rule outstanding_ticket)

theorem tickets_outstanding_witness:
  "\<exists>t. sm_reachable 0 t \<and> responses (sm_notbuf t) = [response STREAM_STOPPED 7 None]
     \<and> 0 < started_with (w_issued (sm_world t)) 7"
proof -
  obtain t where t: "thread_iteration 0 refused_state = Inr t" "responses (sm_notbuf t) = [response STREAM_STOPPED 7 None]"
    using refused_served .
  then have "sm_reachable 0 t" using refused_reachable by (blast intro: sm_reachable.step sm_step.iterate)
  with tickets_outstanding [OF this t(2)] t show ?thesis by auto
qed

end
