(* ===== verification/EndToEnd.thy ===== *)
theory EndToEnd
  imports Delivery CoapServer
begin

text \<open>
  From a sample to the clients: what the Streaming Manager puts for an event, the CoAP server takes and sends, and the subscriber decodes.
\<close>

section \<open>What the server sends\<close>

text \<open>The notification in a call of libcoap: the subscriber and the payload.\<close>

fun notified :: "coap_call \<Rightarrow> (int \<times> byte list) option" where
  "notified (Send p pdu) = Some (p, pdu_data pdu)"
| "notified (Notify_confirmed p pdu reg) = Some (p, pdu_data pdu)"
| "notified c = None"

definition notifications :: "coap_call list \<Rightarrow> (int \<times> byte list) list" where
  "notifications calls = List.map_filter notified calls"

lemma notifications_simps [simp]:
  "notifications [] = []" "notifications (xs @ ys) = notifications xs @ notifications ys"
  "notifications (c # cs) = (case notified c of None \<Rightarrow> notifications cs | Some n \<Rightarrow> n # notifications cs)"
  by (simp_all add: notifications_def List.map_filter_def split: option.split)

lemma notifications_none: "\<forall>c\<in>set cs. notified c = None \<Longrightarrow> notifications cs = []"
  by (induction cs) simp_all

lemma send_report_notbuf: "send_report L sv reg r = Inr sv' \<Longrightarrow> sv_notbuf sv' = sv_notbuf sv"
  by (auto simp: send_report_def new_pdu_def Let_def bindR_Inr_iff split: option.splits)

lemma serve_response_notbuf: "serve_response L sv req = Inr sv' \<Longrightarrow> sv_notbuf sv' = sv_notbuf sv"
proof -
  have u: "sv_notbuf sv' = sv_notbuf sv" if "serve_update L sv req = Inr sv'"
  proof -
    have n: "sv_notbuf sv1 = sv_notbuf sv0" if "send_notification L sv0 reg r pk = (sent, r2, sv1)" for sv0 reg r pk sent r2 sv1
      using that by (auto simp: send_notification_def new_pdu_def split_def Let_def split: if_splits)
    from that show ?thesis
      by (auto simp: serve_update_def Let_def split: option.splits if_splits prod.splits dest!: send_report_notbuf n)
  qed
  assume "serve_response L sv req = Inr sv'"
  then show "sv_notbuf sv' = sv_notbuf sv"
    using u by (auto simp: serve_response_def serve_stopped_def serve_oneshot_response_def new_pdu_def Let_def
        split: if_splits option.splits coap_message.splits)
qed

lemma update_notifies:
  assumes "server_lib_ok L" and "\<forall>n. sl_malloc L n" and "sv_regs sv reg = Some r" and "rg_fail_cnt r \<le> sl_max_fail L"
    and "pk_conf pk = COAP_MESSAGE_CON \<or> pk_conf pk = COAP_MESSAGE_NON"
  shows "\<exists>sv' r'. serve_response L sv (response STREAM_UPDATE reg (Some pk)) = Inr sv' \<and> sv_regs sv' = (sv_regs sv)(reg \<mapsto> r')
    \<and> sv_notbuf sv' = sv_notbuf sv
    \<and> notifications (sv_calls sv') = notifications (sv_calls sv) @ [(rg_subscriber r, packet_data pk)]"
proof -
  obtain sv' r' pdu reports where s: "serve_response L sv \<lparr>rs_rtype = STREAM_UPDATE, rs_ticket = reg, rs_pk = Some pk\<rparr> = Inr sv'"
    "sv_regs sv' = (sv_regs sv)(reg \<mapsto> r')" "pdu_data pdu = packet_data pk"
    "sv_calls sv' = sv_calls sv @ (if needs_confirmation L r pk then Notify_confirmed (rg_subscriber r) pdu reg
         else Send (rg_subscriber r) pdu) # reports"
    "\<forall>c\<in>set reports. \<exists>p d. c = Test_send p d \<or> c = Send_confirmed p d"
    using update_served [OF assms] by blast
  have "notifications reports = []" using s(5) by (intro notifications_none) auto
  then have "notifications (sv_calls sv') = notifications (sv_calls sv) @ [(rg_subscriber r, packet_data pk)]"
    using s(3,4) by simp
  with s(1,2) serve_response_notbuf [OF s(1)] show ?thesis by auto
qed

lemma serve_updates:
  assumes "server_lib_ok L" and "\<forall>n. sl_malloc L n" and "resbuf_wf (sv_notbuf sv)"
    and "responses (sv_notbuf sv) = map (update_response ev) sts @ rest" and "distinct (regs sts)"
    and "\<forall>st\<in>set sts. \<exists>r. sv_regs sv (st_reg st) = Some r \<and> rg_fail_cnt r \<le> sl_max_fail L"
    and "\<forall>st\<in>set sts. st_retransmit st = COAP_MESSAGE_CON \<or> st_retransmit st = COAP_MESSAGE_NON"
  shows "\<exists>sv'. serve_responses L (length sts) sv = Inr sv'
    \<and> notifications (sv_calls sv') = notifications (sv_calls sv) @ map (\<lambda>st. (rg_subscriber (the (sv_regs sv (st_reg st))),
        packet_data (packet_of ev (next_ts st) (st_retransmit st)))) sts"
  using assms(3-7)
proof (induction sts arbitrary: sv)
  case (Cons st sts)
  let ?pk = "packet_of ev (next_ts st) (st_retransmit st)"
  obtain q b where g: "get_response_buf_item zero_response (sv_notbuf sv) = (q, b)" by force
  have "responses (sv_notbuf sv) \<noteq> []" using Cons.prems(2) by simp
  then have "0 < counter (sv_notbuf sv)" by simp
  from responses_remove [OF Cons.prems(1) g this] Cons.prems(2)
  have q: "q = update_response ev st" and b: "responses b = map (update_response ev) sts @ rest" "resbuf_wf b" by simp_all
  obtain r where r: "sv_regs sv (st_reg st) = Some r" "rg_fail_cnt r \<le> sl_max_fail L" using Cons.prems(4) by auto
  have conf: "pk_conf ?pk = COAP_MESSAGE_CON \<or> pk_conf ?pk = COAP_MESSAGE_NON"
    using Cons.prems(5) by (simp add: packet_of_def split: option.split)
  obtain sv1 r' where s1: "serve_response L (sv\<lparr>sv_notbuf := b\<rparr>) (update_response ev st) = Inr sv1"
    "sv_regs sv1 = (sv_regs sv)(st_reg st \<mapsto> r')" "sv_notbuf sv1 = b"
    "notifications (sv_calls sv1) = notifications (sv_calls sv) @ [(rg_subscriber r, packet_data ?pk)]"
    using update_notifies [OF assms(1,2) _ r(2) conf, of "sv\<lparr>sv_notbuf := b\<rparr>" "st_reg st"] r(1)
    by (auto simp: update_response_def)
  have other: "sv_regs sv1 (st_reg u) = sv_regs sv (st_reg u)" if "u \<in> set sts" for u
  proof -
    have "st_reg u \<in> set (regs sts)" using that by simp
    then have "st_reg u \<noteq> st_reg st" using Cons.prems(3) by (metis distinct.simps(2) list.simps(9))
    then show ?thesis by (simp add: s1(2))
  qed
  obtain sv' where sv': "serve_responses L (length sts) sv1 = Inr sv'"
    "notifications (sv_calls sv') = notifications (sv_calls sv1) @ map (\<lambda>st. (rg_subscriber (the (sv_regs sv1 (st_reg st))),
        packet_data (packet_of ev (next_ts st) (st_retransmit st)))) sts"
    using Cons.IH [of sv1] Cons.prems(3-5) b other s1(3) by auto
  have "serve_responses L (length (st # sts)) sv = Inr sv'" using g q s1(1) sv'(1) by simp
  with sv'(2) s1(4) r(1) other show ?case by auto
qed simp

section \<open>What the client reads\<close>

lemma packet_decodes:
  assumes "sensor_vals (ev_type ev) = Some (nf, vals)" and "in_i32 ts"
  shows "decode_payload nf (packet_data (packet_of ev ts conf)) =
    (DATAPOINT, ev_type ev, int (8 + nf * 20), [(ts, map fmt_e (vals ev))])"
proof -
  have h: "sensor_vals (ev_type ([ev] ! 0)) = Some (nf, vals)" using assms(1) by simp
  note d = decode_layout [OF h, of 1 "[ts]"]
  have l: "length (data_layout vals nf [ev] [ts] 1) = 8 + nf * 20"
    "decode_payload nf (data_layout vals nf [ev] [ts] 1) = (DATAPOINT, ev_type ev, int (8 + nf * 20), [(ts, map fmt_e (vals ev))])"
    using d assms(2) by simp_all
  have "packet_data (packet_of ev ts conf) = data_layout vals nf [ev] [ts] 1"
    using assms(1) l(1) by (simp add: packet_data_def packet_of_def)
  with l(2) show ?thesis by simp
qed

lemma sensor_vals_ix: "sensor_vals t = Some x \<Longrightarrow> sensor_ix t"
  by (auto simp: sensor_vals_def sensor_ix_def sensor_codes ZE_NUMSENSORS_def split: if_splits)

section \<open>Properties\<close>

text \<open>
  C4. From the sensor to the subscribers: when a round of the Streaming Manager fetches a sample of a sensor with streams, with memory, room in
  the logs and an empty response buffer, and the CoAP server then serves as many responses as there are streams, it
  sends one notification to the subscriber of each stream, in the order of the streams; and each subscriber decodes from its
  payload a data point of that sensor with the next time stamp of its own stream and the printed values of the sample.
\<close>

theorem sample_reaches_subscribers:
  assumes "sm_inv s" and "mem_ok s" and "logs_room s" and "sm_events s = Some ev # es" and "\<not> event_based ev"
    and "sensor_vals (ev_type ev) = Some (nf, vals)" and "sts = sn_streams (sensor_at s (ev_type ev))" and "length sts \<le> 20"
    and "sn_oneshots (sensor_at s (ev_type ev)) = []" and "responses (sm_notbuf s) = []"
    and "server_lib_ok L" and "\<forall>n. sl_malloc L n"
    and "\<forall>st\<in>set sts. \<exists>r. sv_regs sv (st_reg st) = Some r \<and> rg_fail_cnt r \<le> sl_max_fail L"
    and "\<forall>st\<in>set sts. st_retransmit st = COAP_MESSAGE_CON \<or> st_retransmit st = COAP_MESSAGE_NON"
  shows "\<exists>t sv' datas. sample_round fuel SAMPLES_QUEUE s = Inr t
    \<and> serve_responses L (length sts) (sv\<lparr>sv_notbuf := sm_notbuf t\<rparr>) = Inr sv'
    \<and> notifications (sv_calls sv') = notifications (sv_calls sv)
        @ zip (map (\<lambda>st. rg_subscriber (the (sv_regs sv (st_reg st)))) sts) datas
    \<and> map (decode_payload nf) datas
      = map (\<lambda>st. (DATAPOINT, ev_type ev, int (8 + nf * 20), [(next_ts st, map fmt_e (vals ev))])) sts"
proof -
  let ?s = "s\<lparr>sm_events := es\<rparr>"
  have inv: "sm_inv ?s" using assms(1,4) by (intro sm_inv_events) (simp_all add: sm_inv_def)
  have ix: "sensor_ix (ev_type ev)" using assms(6) by (rule sensor_vals_ix)
  have same: "mem_ok ?s" "logs_room ?s" "sensor_at ?s (ev_type ev) = sensor_at s (ev_type ev)" "sm_notbuf ?s = sm_notbuf s"
    using assms(2,3) by (simp_all add: mem_ok_def logs_room_def sensor_at_def)
  have c: "counter (sm_notbuf s) = 0" using assms(10) by simp
  then have room: "counter (sm_notbuf ?s) + length (sn_oneshots (sensor_at ?s (ev_type ev)))
      + length (sn_streams (sensor_at ?s (ev_type ev))) \<le> COAP_RBUF_SIZE"
    using assms(7-9) unfolding same by (simp add: COAP_RBUF_SIZE_def)
  obtain t where t: "process_event fuel SAMPLES_QUEUE ev ?s = Inr t" "responses (sm_notbuf t) = map (update_response ev) sts"
    using process_event_all [OF inv same(1) ix same(2) room, of fuel SAMPLES_QUEUE] assms(7,9,10) unfolding same
    by (auto simp del: ring_list_empty_iff)
  have r: "sample_round fuel SAMPLES_QUEUE s = Inr t"
    using assms(4,5) t(1) by (simp add: sample_round_def fetch_event_def)
  have "sm_inv t" using process_event_safe [OF inv ix, of fuel SAMPLES_QUEUE] t(1) by simp
  then have w: "resbuf_wf (sm_notbuf t)" by (simp add: sm_inv_def buffers_ok_def)
  have d: "distinct (regs sts)" using sm_inv_at [OF assms(1) ix] assms(7) by (simp add: sensor_ok_def)
  let ?datas = "map (\<lambda>st. packet_data (packet_of ev (next_ts st) (st_retransmit st))) sts"
  obtain sv' where "serve_responses L (length sts) (sv\<lparr>sv_notbuf := sm_notbuf t\<rparr>) = Inr sv'"
    "notifications (sv_calls sv') = notifications (sv_calls sv) @ map (\<lambda>st. (rg_subscriber (the (sv_regs sv (st_reg st))),
        packet_data (packet_of ev (next_ts st) (st_retransmit st)))) sts"
    using serve_updates [OF assms(11,12), of "sv\<lparr>sv_notbuf := sm_notbuf t\<rparr>" ev sts "[]"] w t(2) d assms(13,14) by auto
  moreover have "map (decode_payload nf) ?datas
      = map (\<lambda>st. (DATAPOINT, ev_type ev, int (8 + nf * 20), [(next_ts st, map fmt_e (vals ev))])) sts"
    using packet_decodes [OF assms(6)] by (simp add: next_ts_def)
  moreover have "zip (map (\<lambda>st. rg_subscriber (the (sv_regs sv (st_reg st)))) sts) ?datas
      = map (\<lambda>st. (rg_subscriber (the (sv_regs sv (st_reg st))), packet_data (packet_of ev (next_ts st) (st_retransmit st)))) sts"
    by (simp add: zip_map_map zip_same_conv_map)
  ultimately show ?thesis using r by (intro exI [of _ t] exI [of _ sv'] exI [of _ ?datas]) simp
qed

theorem sample_reaches_subscribers_witness:
  "\<exists>t sv' datas. sample_round 0 SAMPLES_QUEUE ((busy_state [])\<lparr>sm_events := [Some (zero_event\<lparr>ev_type := 1\<rparr>)]\<rparr>) = Inr t
     \<and> serve_responses sample_lib 2 ((sample_server one_registration)\<lparr>sv_regs := (\<lambda>_. Some one_registration), sv_notbuf := sm_notbuf t\<rparr>)
         = Inr sv'
     \<and> notifications (sv_calls sv') = zip [5, 5] datas \<and> length datas = 2"
proof -
  let ?ev = "zero_event\<lparr>ev_type := 1\<rparr>" and ?sts = "[started_stream 0 7 10, started_stream 0 8 20]"
  let ?s = "(busy_state [])\<lparr>sm_events := [Some ?ev]\<rparr>"
  let ?sv = "(sample_server one_registration)\<lparr>sv_regs := (\<lambda>_. Some one_registration)\<rparr>"
  have b: "sm_inv (busy_state [])" "mem_ok (busy_state [])" "logs_room (busy_state [])"
    "responses (sm_notbuf (busy_state [])) = []" using busy_state_inv [of "[]"] by blast+
  have at: "sensor_at ?s i = sensor_at (busy_state []) i" for i by (simp add: sensor_at_def)
  have h: "sm_inv ?s" "mem_ok ?s" "logs_room ?s" "responses (sm_notbuf ?s) = []"
    using b by (simp_all add: sm_inv_events mem_ok_def logs_room_def del: ring_list_empty_iff)
  have e: "sm_events ?s = Some ?ev # []" "\<not> event_based ?ev" "sensor_vals (ev_type ?ev) = Some (3, accel_vals)"
    by (simp_all add: event_based_def sensor_vals_def sensor_codes)
  have st: "?sts = sn_streams (sensor_at ?s (ev_type ?ev))" "length ?sts \<le> 20" "sn_oneshots (sensor_at ?s (ev_type ?ev)) = []"
    by (simp_all add: at busy_state_at)
  have sv: "\<forall>n. sl_malloc sample_lib n"
    "\<forall>st\<in>set ?sts. \<exists>r. sv_regs ?sv (st_reg st) = Some r \<and> rg_fail_cnt r \<le> sl_max_fail sample_lib"
    "\<forall>st\<in>set ?sts. st_retransmit st = COAP_MESSAGE_CON \<or> st_retransmit st = COAP_MESSAGE_NON"
    by (simp_all add: sample_lib_def one_registration_def started_stream_def)
  from sample_reaches_subscribers [OF h(1-3) e st h(4) sample_lib_ok sv, of 0]
  obtain t sv' datas where r: "sample_round 0 SAMPLES_QUEUE ?s = Inr t"
    "serve_responses sample_lib (length ?sts) (?sv\<lparr>sv_notbuf := sm_notbuf t\<rparr>) = Inr sv'"
    "notifications (sv_calls sv') = notifications (sv_calls ?sv)
        @ zip (map (\<lambda>st. rg_subscriber (the (sv_regs ?sv (st_reg st)))) ?sts) datas"
    "map (decode_payload 3) datas = map (\<lambda>st. (DATAPOINT, ev_type ?ev, int (8 + 3 * 20),
        [(next_ts st, map fmt_e (accel_vals ?ev))])) ?sts"
    by blast
  have "length datas = 2" using arg_cong [OF r(4), of length] by simp
  with r(1-3) show ?thesis
    by (intro exI [of _ t] exI [of _ sv'] exI [of _ datas]) (simp add: sample_server_def one_registration_def numeral_2_eq_2)
qed

end
