(* ===== verification/Program.thy ===== *)
theory Program
  imports TicketProtocol EndToEnd
begin

text \<open>
  The whole program as one step relation: the Streaming Manager thread with the steps of its system, and the CoAP server thread, which
  runs the handlers and serves the responses. The two share the request buffer, the response buffer and, through libcoap, the
  registrations. libcoap counts the references to a registration: \<open>references\<close> is how many of them the program holds.
\<close>

section \<open>The state\<close>

text \<open>
  The two buffers are those of \<open>pg_sm\<close> and the registrations those of \<open>pg_server\<close>; the fields of the others that stand for the same
  objects are filled in when their code runs.
\<close>

record program =
  pg_sm :: sm_state
  pg_server :: server
  pg_ctx :: coap_ctx

definition handler_ctx :: "program \<Rightarrow> coap_ctx" where
  "handler_ctx p = (pg_ctx p)\<lparr>cx_regs := sv_regs (pg_server p), cx_smreqbuf := sm_smreqbuf (pg_sm p)\<rparr>"

text \<open>What a handler has put is added to the history of requests.\<close>

definition after_handler :: "program \<Rightarrow> coap_ctx \<Rightarrow> program" where
  "after_handler p cx = p\<lparr>pg_ctx := cx, pg_server := (pg_server p)\<lparr>sv_regs := cx_regs cx\<rparr>,
     pg_sm := fold note_issued (drop (length (requests (sm_smreqbuf (pg_sm p)))) (requests (cx_smreqbuf cx)))
       ((pg_sm p)\<lparr>sm_smreqbuf := cx_smreqbuf cx\<rparr>)\<rparr>"

section \<open>libcoap's references\<close>

text \<open>
  A GET with the observe option checks a reference out for the START it puts, and a STREAM_STOPPED releases one: so many are held after the requests \<open>qs\<close>
  were put and the responses \<open>rs\<close> were taken.
\<close>

definition references :: "sm_request list \<Rightarrow> sm_response list \<Rightarrow> int \<Rightarrow> nat" where
  "references qs rs k = started_with qs k - returned rs k"

text \<open>
  libcoap destroys a registration only when its last reference is released; adding one leaves those that are referenced, and gives back,
  as finding one does, a registration that exists.
\<close>

definition counts_references :: "(int \<Rightarrow> nat) \<Rightarrow> coap_lib \<Rightarrow> bool" where
  "counts_references refs L \<longleftrightarrow>
     (\<forall>regs uri peer tk. case lib_add_registration L regs uri peer tk of (reg, regs1) \<Rightarrow>
        regs1 reg \<noteq> None \<and> (\<forall>k. 0 < refs k \<longrightarrow> regs k \<noteq> None \<longrightarrow> regs1 k \<noteq> None))
   \<and> (\<forall>regs reg. case lib_checkout L regs reg of (t, regs1) \<Rightarrow> t = reg \<and> (\<forall>k. regs k \<noteq> None \<longrightarrow> regs1 k \<noteq> None))
   \<and> (\<forall>regs uri peer reg. lib_find_registration L regs uri peer = Some reg \<longrightarrow> regs reg \<noteq> None)"

definition releases_last :: "(int \<Rightarrow> nat) \<Rightarrow> server_lib \<Rightarrow> bool" where
  "releases_last refs L \<longleftrightarrow> server_lib_ok L \<and> (\<forall>regs reg. 1 < refs reg \<longrightarrow> sl_release L regs reg = regs)"

section \<open>The steps\<close>

text \<open>The responses the server takes and serves while the Streaming Manager thread waits for room, one after the other.\<close>

inductive serve_taken :: "sm_request list \<Rightarrow> sm_response list \<Rightarrow> sm_response list \<Rightarrow> server \<Rightarrow> server outcome \<Rightarrow> bool" for qs where
  none: "serve_taken qs taken [] sv (Inr sv)"
| fault: "releases_last (references qs taken) L \<Longrightarrow> serve_response L sv r = Inl e \<Longrightarrow>
    serve_taken qs taken (r # rs) sv (Inl e)"
| served: "releases_last (references qs taken) L \<Longrightarrow> serve_response L sv r = Inr sv1 \<Longrightarrow>
    serve_taken qs (taken @ [r]) rs sv1 out \<Longrightarrow> serve_taken qs taken (r # rs) sv out"

abbreviation program_refs :: "program \<Rightarrow> int \<Rightarrow> nat" where
  "program_refs p \<equiv> references (w_issued (sm_world (pg_sm p))) (w_taken (sm_world (pg_sm p)))"

text \<open>
  A handler runs when the buffer has room for all it can put. \<open>network\<close> is what libcoap does by itself: it changes the counters of the registrations, and destroys
  and creates some, but none that the program holds a reference to.
\<close>

inductive program_step :: "nat \<Rightarrow> program \<Rightarrow> program outcome \<Rightarrow> bool" for fuel where
  iterate_fault: "thread_iteration fuel (pg_sm p) = Inl e \<Longrightarrow> program_step fuel p (Inl e)"
| iterate: "thread_iteration fuel (pg_sm p) = Inr t \<Longrightarrow>
    serve_taken (w_issued (sm_world (pg_sm p))) (w_taken (sm_world (pg_sm p)))
      (drop (length (w_taken (sm_world (pg_sm p)))) (w_taken (sm_world t))) (pg_server p) out \<Longrightarrow>
    program_step fuel p (bindR out (\<lambda>sv. Inr (p\<lparr>pg_sm := t, pg_server := sv\<rparr>)))"
| serve: "releases_last (program_refs p) L \<Longrightarrow> get_response_buf_item zero_response (sm_notbuf (pg_sm p)) = (r, b) \<Longrightarrow>
    program_step fuel p (bindR (serve_response L ((pg_server p)\<lparr>sv_notbuf := b\<rparr>) r) (\<lambda>sv.
      Inr (p\<lparr>pg_sm := note_taken (take 1 (responses (sm_notbuf (pg_sm p)))) ((pg_sm p)\<lparr>sm_notbuf := b\<rparr>), pg_server := sv\<rparr>)))"
| get: "counts_references (program_refs p) L \<Longrightarrow> counter (sm_smreqbuf (pg_sm p)) + 2 \<le> SM_RBUF_SIZE \<Longrightarrow>
    program_step fuel p (bindR (GET_handler n L id (handler_ctx p) res req) (\<lambda>cx. Inr (after_handler p cx)))"
| post: "program_step fuel p (Inr (p\<lparr>pg_ctx := POST_handler n (pg_ctx p)\<rparr>))"
| unregister: "sv_regs (pg_server p) reg \<noteq> None \<Longrightarrow> counter (sm_smreqbuf (pg_sm p)) < SM_RBUF_SIZE \<Longrightarrow>
    program_step fuel p (bindR (on_unregister n id (handler_ctx p) reg) (\<lambda>cx. Inr (after_handler p cx)))"
| network: "\<forall>k. 0 < program_refs p k \<longrightarrow> sv_regs (pg_server p) k \<noteq> None \<longrightarrow> g k \<noteq> None \<Longrightarrow>
    program_step fuel p (Inr (p\<lparr>pg_server := (pg_server p)\<lparr>sv_regs := g, sv_async := a\<rparr>\<rparr>))"
| sample: "sensor_ix (ev_type ev) \<Longrightarrow>
    program_step fuel p (Inr (p\<lparr>pg_sm := (pg_sm p)\<lparr>sm_events := sm_events (pg_sm p) @ [Some ev, None]\<rparr>\<rparr>))"
| carrier: "sensor_ix (ev_type ev) \<Longrightarrow> utlist_ok U \<Longrightarrow>
    program_step fuel p (Inr (p\<lparr>pg_sm := (pg_sm p)\<lparr>sm_carrq := snd (put_carrier_event U ok (sm_carrq (pg_sm p)) ev)\<rparr>\<rparr>))"
| carrier_end: "program_step fuel p (Inr (p\<lparr>pg_sm := upd_sensor i (\<lambda>sn. sn\<lparr>sn_carrier_thread_started := 0\<rparr>) (pg_sm p)\<rparr>))"

inductive_cases program_stepE: "program_step fuel p out"

inductive program_reachable :: "nat \<Rightarrow> program \<Rightarrow> bool" for fuel where
  start: "sm_initial (pg_sm p) \<Longrightarrow> program_reachable fuel p"
| step: "program_reachable fuel p \<Longrightarrow> program_step fuel p (Inr q) \<Longrightarrow> program_reachable fuel q"

section \<open>What the handlers put\<close>

lemma sensor_of_ix [simp]: "sensor_ix (sensor_of n)"
  by (cases n) (simp_all add: sensor_ix_def ZE_NUMSENSORS_def)

lemma put_request_valid:
  assumes "reqbuf_wf (cx_smreqbuf cx)" and "length (requests (cx_smreqbuf cx)) < 20"
    and "\<forall>q\<in>set (requests (cx_smreqbuf cx)). request_ok q"
    and "request_ok \<lparr>rq_rtype = rt, rq_sensor = s, rq_ticket = t, rq_freq = f\<rparr>"
  shows "reqbuf_wf (cx_smreqbuf (put_request wait cx rt s t f))
    \<and> (\<forall>q\<in>set (requests (cx_smreqbuf (put_request wait cx rt s t f))). request_ok q)"
  using put_request_list [OF assms(1,2), of wait rt s t f] assms(3,4) by auto

lemma handler_requests_ok:
  "request_ok \<lparr>rq_rtype = SM_REQ_START, rq_sensor = sensor_of n, rq_ticket = t, rq_freq = 10\<rparr>"
  "request_ok \<lparr>rq_rtype = SM_REQ_ONESHOT, rq_sensor = sensor_of n, rq_ticket = t, rq_freq = 0\<rparr>"
  "request_ok \<lparr>rq_rtype = SM_REQ_STOP, rq_sensor = sensor_of n, rq_ticket = t, rq_freq = 0\<rparr>"
  by (simp_all add: request_ok_def sm_req_codes)

section \<open>What can go wrong in the server\<close>

lemma send_report_faults:
  "send_report L sv reg r = Inl e \<Longrightarrow> e = NullDeref \<and> (\<exists>n. \<not> sl_malloc L n)"
proof -
  assume f: "send_report L sv reg r = Inl e"
  show ?thesis
  proof (cases "sl_malloc L (sv_tick sv) \<and> sl_malloc L (sv_tick sv + 1)")
    case True
    with f show ?thesis by (simp add: send_report_def form_sr_eq split_def Let_def del: be_bytes.simps)
  next
    case False
    then have "form_sr_payload e' (sl_malloc L (sv_tick sv)) (sl_malloc L (sv_tick sv + 1)) ntpc r = Inr None" for e' ntpc
      by (cases "sl_malloc L (sv_tick sv)") (simp_all add: form_sr_payload_def)
    with f False show ?thesis by (auto simp: send_report_def)
  qed
qed

lemma serve_formed_response:
  assumes "response_form (rs_rtype req) (rs_pk req) \<or> rs_rtype req = INVALID_RESPONSE" and "serve_response L sv req = Inl e"
  shows "e = UseAfterFree \<or> e = NullDeref \<and> (\<exists>n. \<not> sl_malloc L n)"
  using assms send_report_faults [of L _ _ _ e]
  by (fastforce simp: serve_response_def serve_stopped_def serve_oneshot_response_def serve_update_def response_form_def
      sm_res_codes Let_def split_def split: if_splits option.splits)

text \<open>What a registration that is gone does, and nothing else.\<close>

lemma serve_response_gone:
  "serve_response L sv req = Inl UseAfterFree \<Longrightarrow>
     rs_rtype req \<in> {STREAM_UPDATE, STREAM_STOPPED} \<and> sv_regs sv (rs_ticket req) = None"
  using send_report_faults [of L _ _ _ UseAfterFree]
  by (fastforce simp: serve_response_def serve_stopped_def serve_oneshot_response_def serve_update_def
      Let_def split_def split: if_splits option.splits)

section \<open>Serving keeps what is referenced\<close>

lemma serve_update_regs:
  assumes "server_lib_ok L" and "serve_update L sv req = Inr sv'"
  obtains "sv_regs sv' = sv_regs sv" | r where "sv_regs sv' = (sv_regs sv)(rs_ticket req \<mapsto> r)"
proof -
  let ?reg = "rs_ticket req"
  obtain r0 where r0: "sv_regs sv ?reg = Some r0"
    using assms(2) by (auto simp: serve_update_def Let_def split: option.splits)
  show thesis
  proof (cases "rg_fail_cnt r0 \<le> sl_max_fail L")
    case False
    with assms(2) r0 that(1) show thesis by (simp add: serve_update_def)
  next
    case True
    then obtain pk where pk: "rs_pk req = Some pk"
      using assms(2) r0 by (auto simp: serve_update_def Let_def split: option.splits)
    obtain sent r2 sv1 where n: "send_notification L sv ?reg (r0\<lparr>rg_ntptwin := pk_ntpts pk, rg_rtptwin := pk_rtpts pk\<rparr>) pk
        = (sent, r2, sv1)"
      by (metis prod_cases3)
    then have regs1: "sv_regs sv1 = sv_regs sv"
      using assms(1) by (auto simp: send_notification_def new_pdu_def server_lib_ok_def split: if_splits)
    let ?r3 = "r2\<lparr>rg_notcnt := rg_notcnt r2 + 1, rg_datapackcount := rg_datapackcount r2 + 1,
        rg_octcount := rg_octcount r2 + pk_length pk\<rparr>"
    let ?sv2 = "sv1\<lparr>sv_regs := (sv_regs sv1)(?reg \<mapsto> ?r3)\<rparr>"
    have "sv' = sv1\<lparr>sv_regs := (sv_regs sv1)(?reg \<mapsto> r2)\<rparr> \<or> sv' = ?sv2 \<or> send_report L ?sv2 ?reg ?r3 = Inr sv'"
      using assms(2) r0 True pk n by (simp add: serve_update_def Let_def split: if_splits)
    then show thesis using send_report_regs [of L ?sv2 ?reg ?r3 sv'] regs1 that(2) by auto
  qed
qed

lemma serve_response_regs:
  assumes "releases_last refs L" and "serve_response L sv r = Inr sv'" and "sv_regs sv k \<noteq> None"
    and "rs_rtype r = STREAM_STOPPED \<Longrightarrow> k = rs_ticket r \<Longrightarrow> 1 < refs k"
  shows "sv_regs sv' k \<noteq> None"
proof -
  have ok: "server_lib_ok L" and l: "1 < refs k \<Longrightarrow> sl_release L regs k = regs" for regs
    using assms(1) by (simp_all add: releases_last_def)
  have rel: "sl_release L regs reg = regs \<or> sl_release L regs reg = regs(reg := None)" for regs reg
    using ok by (simp add: server_lib_ok_def)
  consider "rs_rtype r = STREAM_STOPPED" "serve_stopped L sv r = Inr sv'" | "serve_oneshot_response L sv r = Inr sv'"
    | "serve_update L sv r = Inr sv'" | "sv' = sv"
    using assms(2) unfolding serve_response_def by (metis Inl_Inr_False Inr_inject)
  then show ?thesis
  proof cases
    case 1
    then have "sv_regs sv' = sl_release L (sv_regs sv) (rs_ticket r)"
      by (auto simp: serve_stopped_def Let_def split: option.splits)
    with assms(3,4) 1(1) l rel [of "sv_regs sv" "rs_ticket r"] show ?thesis by (cases "k = rs_ticket r") auto
  next
    case 2
    then have "sv_regs sv' = sv_regs sv"
      by (auto simp: serve_oneshot_response_def new_pdu_def Let_def split: option.splits coap_message.splits)
    with assms(3) show ?thesis by simp
  next
    case 3
    from ok this show ?thesis by (rule serve_update_regs) (use assms(3) in auto)
  qed (use assms(3) in simp)
qed

lemma references_taken:
  "references qs (taken @ [r]) k = references qs taken k - (if rs_rtype r = STREAM_STOPPED \<and> k = rs_ticket r then 1 else 0)"
  by (auto simp: references_def returned_def)

text \<open>A response that is served while its ticket is outstanding.\<close>

lemma serve_response_kept:
  assumes "releases_last (references qs taken) L" and "\<forall>k. 0 < references qs taken k \<longrightarrow> sv_regs sv k \<noteq> None"
    and "rs_rtype r \<in> {STREAM_UPDATE, STREAM_STOPPED} \<Longrightarrow> returned taken (rs_ticket r) < started_with qs (rs_ticket r)"
    and "response_form (rs_rtype r) (rs_pk r) \<or> rs_rtype r = INVALID_RESPONSE"
  shows "serve_response L sv r = Inl e \<Longrightarrow> e = NullDeref \<and> (\<exists>n. \<not> sl_malloc L n)"
    and "serve_response L sv r = Inr sv' \<Longrightarrow> \<forall>k. 0 < references qs (taken @ [r]) k \<longrightarrow> sv_regs sv' k \<noteq> None"
proof -
  have out: "0 < references qs taken (rs_ticket r)" if "rs_rtype r \<in> {STREAM_UPDATE, STREAM_STOPPED}"
    using assms(3) [OF that] by (simp add: references_def)
  show "e = NullDeref \<and> (\<exists>n. \<not> sl_malloc L n)" if f: "serve_response L sv r = Inl e"
  proof -
    have "e \<noteq> UseAfterFree"
    proof
      assume "e = UseAfterFree"
      with f have "rs_rtype r \<in> {STREAM_UPDATE, STREAM_STOPPED}" "sv_regs sv (rs_ticket r) = None"
        using serve_response_gone by blast+
      with out assms(2) show False by blast
    qed
    with serve_formed_response [OF assms(4) f] show ?thesis by blast
  qed
  show "\<forall>k. 0 < references qs (taken @ [r]) k \<longrightarrow> sv_regs sv' k \<noteq> None" if f: "serve_response L sv r = Inr sv'"
  proof (intro allI impI)
    fix k assume k: "0 < references qs (taken @ [r]) k"
    then have "0 < references qs taken k" unfolding references_taken by linarith
    with assms(2) have "sv_regs sv k \<noteq> None" by blast
    moreover have "1 < references qs taken k" if "rs_rtype r = STREAM_STOPPED" "k = rs_ticket r"
      using k that unfolding references_taken by simp
    ultimately show "sv_regs sv' k \<noteq> None" by (rule serve_response_regs [OF assms(1) f])
  qed
qed

lemma serve_taken_kept:
  assumes "serve_taken qs taken rs sv out" and "\<forall>k. 0 < references qs taken k \<longrightarrow> sv_regs sv k \<noteq> None"
    and "\<And>pre r post. rs = pre @ r # post \<Longrightarrow> rs_rtype r \<in> {STREAM_UPDATE, STREAM_STOPPED}
      \<Longrightarrow> returned (taken @ pre) (rs_ticket r) < started_with qs (rs_ticket r)"
    and "\<forall>r\<in>set rs. response_form (rs_rtype r) (rs_pk r)"
  shows "outcome_sat {NullDeref} (\<lambda>sv'. \<forall>k. 0 < references qs (taken @ rs) k \<longrightarrow> sv_regs sv' k \<noteq> None) out"
  using assms
proof (induction rule: serve_taken.induct)
  case (fault taken L sv r e rs)
  have "rs_rtype r \<in> {STREAM_UPDATE, STREAM_STOPPED} \<Longrightarrow> returned taken (rs_ticket r) < started_with qs (rs_ticket r)"
    using fault.prems(2) [of "[]"] by simp
  from serve_response_kept(1) [OF fault.hyps(1) fault.prems(1) this _ fault.hyps(2)] fault.prems(3) show ?case by simp
next
  case (served taken L sv r sv1 rs out)
  have "rs_rtype r \<in> {STREAM_UPDATE, STREAM_STOPPED} \<Longrightarrow> returned taken (rs_ticket r) < started_with qs (rs_ticket r)"
    using served.prems(2) [of "[]"] by simp
  from serve_response_kept(2) [OF served.hyps(1) served.prems(1) this _ served.hyps(2)] served.prems(3)
  have "\<forall>k. 0 < references qs (taken @ [r]) k \<longrightarrow> sv_regs sv1 k \<noteq> None" by simp
  moreover have "returned ((taken @ [r]) @ pre) (rs_ticket q) < started_with qs (rs_ticket q)"
    if "rs = pre @ q # post" "rs_rtype q \<in> {STREAM_UPDATE, STREAM_STOPPED}" for pre q post
    using served.prems(2) [of "r # pre" q post] that by simp
  ultimately show ?case using served.IH served.prems(3) by simp
qed simp

text \<open>A libcoap that counts.\<close>

definition counting_lib :: "(int \<Rightarrow> nat) \<Rightarrow> server_lib" where
  "counting_lib refs = sample_lib\<lparr>sl_release := (\<lambda>g reg. if 1 < refs reg then g else g(reg := None))\<rparr>"

lemma counting_lib_ok [simp]: "releases_last refs (counting_lib refs)" "sl_malloc (counting_lib refs) n"
  using sample_lib_ok by (auto simp: counting_lib_def releases_last_def server_lib_ok_def sample_lib_def)

inductive_simps serve_taken_simps:
  "serve_taken qs taken [] sv out"
  "serve_taken qs taken (r # rs) sv out"

lemma serve_taken_possible:
  assumes "\<forall>k. 0 < references qs taken k \<longrightarrow> sv_regs sv k \<noteq> None"
    and "\<And>pre r post. rs = pre @ r # post \<Longrightarrow> rs_rtype r \<in> {STREAM_UPDATE, STREAM_STOPPED}
      \<Longrightarrow> returned (taken @ pre) (rs_ticket r) < started_with qs (rs_ticket r)"
    and "\<forall>r\<in>set rs. response_form (rs_rtype r) (rs_pk r)"
  shows "\<exists>sv'. serve_taken qs taken rs sv (Inr sv')"
  using assms
proof (induction rs arbitrary: taken sv)
  case Nil
  then show ?case by (simp add: serve_taken_simps)
next
  case (Cons r rs)
  let ?L = "counting_lib (references qs taken)"
  have use: "rs_rtype r \<in> {STREAM_UPDATE, STREAM_STOPPED} \<Longrightarrow> returned taken (rs_ticket r) < started_with qs (rs_ticket r)"
    using Cons.prems(2) [of "[]"] by simp
  have form: "response_form (rs_rtype r) (rs_pk r) \<or> rs_rtype r = INVALID_RESPONSE" using Cons.prems(3) by simp
  note kept = serve_response_kept [OF counting_lib_ok(1) Cons.prems(1) use form]
  have "serve_response ?L sv r \<noteq> Inl e" for e using kept(1) counting_lib_ok(2) by blast
  then obtain sv1 where sv1: "serve_response ?L sv r = Inr sv1" by (cases "serve_response ?L sv r") blast+
  have "\<exists>sv'. serve_taken qs (taken @ [r]) rs sv1 (Inr sv')"
  proof (rule Cons.IH)
    show "\<forall>k. 0 < references qs (taken @ [r]) k \<longrightarrow> sv_regs sv1 k \<noteq> None" using kept(2) sv1 by blast
    show "returned ((taken @ [r]) @ pre) (rs_ticket q) < started_with qs (rs_ticket q)"
      if "rs = pre @ q # post" "rs_rtype q \<in> {STREAM_UPDATE, STREAM_STOPPED}" for pre q post
      using Cons.prems(2) [of "r # pre" q post] that by simp
  qed (use Cons.prems(3) in simp)
  with sv1 show ?case unfolding serve_taken_simps(2) using counting_lib_ok(1) by blast
qed

section \<open>What a handler does\<close>

definition issue :: "sm_request \<Rightarrow> sm_state \<Rightarrow> sm_state" where
  "issue q s = note_issued q (s\<lparr>sm_smreqbuf := put_body q (sm_smreqbuf s)\<rparr>)"

lemma issue_reachable:
  assumes "sm_reachable fuel s" and "counter (sm_smreqbuf s) < SM_RBUF_SIZE" and "request_ok q"
  shows "sm_reachable fuel (issue q s)"
  unfolding issue_def put_body_def by (rule sm_reachable.step [OF assms(1) sm_step.request [OF assms(2,3)]])

lemma put_request_body:
  "put_request id cx rt i t f = cx\<lparr>cx_smreqbuf := put_body \<lparr>rq_rtype = rt, rq_sensor = i, rq_ticket = t, rq_freq = f\<rparr> (cx_smreqbuf cx)\<rparr>"
  by (simp add: put_request_def put_body_def)

lemma after_handler_one:
  assumes "reqbuf_wf (sm_smreqbuf (pg_sm p))" and "counter (sm_smreqbuf (pg_sm p)) < SM_RBUF_SIZE"
    and "cx_smreqbuf cx = put_body q (sm_smreqbuf (pg_sm p))"
  shows "pg_sm (after_handler p cx) = issue q (pg_sm p)"
  using put_body_room [OF assms(1,2), of q] by (simp add: after_handler_def assms(3) issue_def)

lemma after_handler_two:
  assumes "reqbuf_wf (sm_smreqbuf (pg_sm p))" and "counter (sm_smreqbuf (pg_sm p)) + 2 \<le> SM_RBUF_SIZE"
    and "cx_smreqbuf cx = put_body q2 (put_body q1 (sm_smreqbuf (pg_sm p)))"
  shows "pg_sm (after_handler p cx) = issue q2 (issue q1 (pg_sm p))"
    and "counter (sm_smreqbuf (issue q1 (pg_sm p))) < SM_RBUF_SIZE"
proof -
  let ?b = "sm_smreqbuf (pg_sm p)"
  have room: "counter ?b < SM_RBUF_SIZE" using assms(2) by simp
  note one = put_body_room [OF assms(1) room, of q1]
  have c: "counter (put_body q1 ?b) < SM_RBUF_SIZE"
    using arg_cong [OF one(2), of length] assms(2) by simp
  from put_body_room [OF one(1) c, of q2] one(2)
  show "pg_sm (after_handler p cx) = issue q2 (issue q1 (pg_sm p))"
    by (simp add: after_handler_def assms(3) issue_def note_issued_def)
  show "counter (sm_smreqbuf (issue q1 (pg_sm p))) < SM_RBUF_SIZE" using c by (simp add: issue_def)
qed

lemma after_handler_regs [simp]: "sv_regs (pg_server (after_handler p cx)) = cx_regs cx"
  by (simp add: after_handler_def)

text \<open>The references that are held after a request was put.\<close>

lemma references_issued:
  "references (w_issued (sm_world (issue q s))) (w_taken (sm_world (issue q s))) k
    \<le> references (w_issued (sm_world s)) (w_taken (sm_world s)) k + (if rq_rtype q = SM_REQ_START \<and> rq_ticket q = k then 1 else 0)"
  by (simp add: references_def issue_def)

section \<open>The invariant\<close>

text \<open>The Streaming Manager is where its own system could be, and what the program holds a reference to exists.\<close>

definition program_inv :: "nat \<Rightarrow> program \<Rightarrow> bool" where
  "program_inv fuel p \<longleftrightarrow> sm_reachable fuel (pg_sm p) \<and> (\<forall>k. 0 < program_refs p k \<longrightarrow> sv_regs (pg_server p) k \<noteq> None)"

lemma program_invD:
  assumes "program_inv fuel p"
  shows "sm_reachable fuel (pg_sm p)" and "0 < program_refs p k \<Longrightarrow> sv_regs (pg_server p) k \<noteq> None"
    and "reqbuf_wf (sm_smreqbuf (pg_sm p))" and "resbuf_wf (sm_notbuf (pg_sm p))"
    and "\<forall>r\<in>set (history (pg_sm p)). response_form (rs_rtype r) (rs_pk r)"
  using assms sm_inv_buffers [OF sm_reachable_inv, of fuel "pg_sm p"] sm_reachable_frames [of fuel "pg_sm p"]
  by (simp_all add: program_inv_def buffers_ok_def typed_responses_def)

text \<open>A handler that put one or two requests.\<close>

lemma handler_inv_one:
  assumes "program_inv fuel p" and "counter (sm_smreqbuf (pg_sm p)) < SM_RBUF_SIZE" and "request_ok q"
    and "cx_smreqbuf cx = put_body q (sm_smreqbuf (pg_sm p))"
    and "\<And>k. 0 < program_refs p k \<or> rq_rtype q = SM_REQ_START \<and> rq_ticket q = k \<Longrightarrow> cx_regs cx k \<noteq> None"
  shows "program_inv fuel (after_handler p cx)"
proof -
  note pi = program_invD [OF assms(1)]
  note a = after_handler_one [OF pi(3) assms(2,4)]
  have "0 < program_refs p k \<or> rq_rtype q = SM_REQ_START \<and> rq_ticket q = k" if "0 < program_refs (after_handler p cx) k" for k
    using that references_issued [of q "pg_sm p" k] unfolding a by (auto split: if_splits)
  with assms(5) issue_reachable [OF pi(1) assms(2,3)] show ?thesis unfolding program_inv_def a by simp
qed

lemma handler_inv_two:
  assumes "program_inv fuel p" and "counter (sm_smreqbuf (pg_sm p)) + 2 \<le> SM_RBUF_SIZE" and "request_ok q1" and "request_ok q2"
    and "rq_rtype q1 \<noteq> SM_REQ_START" and "rq_rtype q2 \<noteq> SM_REQ_START"
    and "cx_smreqbuf cx = put_body q2 (put_body q1 (sm_smreqbuf (pg_sm p)))"
    and "\<And>k. 0 < program_refs p k \<Longrightarrow> cx_regs cx k \<noteq> None"
  shows "program_inv fuel (after_handler p cx)"
proof -
  note pi = program_invD [OF assms(1)]
  note a = after_handler_two [OF pi(3) assms(2,7)]
  have room: "counter (sm_smreqbuf (pg_sm p)) < SM_RBUF_SIZE" using assms(2) by simp
  have "0 < program_refs p k" if "0 < program_refs (after_handler p cx) k" for k
    using that references_issued [of q2 "issue q1 (pg_sm p)" k] references_issued [of q1 "pg_sm p" k] assms(5,6)
    unfolding a by simp
  moreover have "sm_reachable fuel (issue q2 (issue q1 (pg_sm p)))"
    by (intro issue_reachable pi(1) room assms(3,4) a(2))
  ultimately show ?thesis using assms(8) unfolding program_inv_def a by simp
qed

lemma handler_ctx_fields [simp]:
  "cx_regs (handler_ctx p) = sv_regs (pg_server p)" "cx_smreqbuf (handler_ctx p) = sm_smreqbuf (pg_sm p)"
  by (simp_all add: handler_ctx_def)

lemma unregister_safe:
  assumes "program_inv fuel p" and "counter (sm_smreqbuf (pg_sm p)) < SM_RBUF_SIZE" and "sv_regs (pg_server p) reg \<noteq> None"
  shows "outcome_sat thread_faults (program_inv fuel) (bindR (on_unregister n id (handler_ctx p) reg) (\<lambda>cx. Inr (after_handler p cx)))"
proof -
  obtain r where r: "sv_regs (pg_server p) reg = Some r" using assms(3) by blast
  let ?q = "\<lparr>rq_rtype = SM_REQ_STOP, rq_sensor = sensor_of n, rq_ticket = reg, rq_freq = 0\<rparr>"
  let ?cx = "(handler_ctx p)\<lparr>cx_regs := (sv_regs (pg_server p))(reg \<mapsto> r\<lparr>rg_invalid := 1\<rparr>),
    cx_smreqbuf := put_body ?q (sm_smreqbuf (pg_sm p))\<rparr>"
  have "on_unregister n id (handler_ctx p) reg = Inr ?cx"
    by (simp add: on_unregister_eq generic_on_unregister_def r put_request_body)
  moreover have "program_inv fuel (after_handler p ?cx)"
    by (rule handler_inv_one [OF assms(1,2) handler_requests_ok(3)])
      (use program_invD(2) [OF assms(1)] in \<open>auto simp: sm_req_codes\<close>)
  ultimately show ?thesis by simp
qed

lemma counts_referencesD:
  assumes "counts_references refs L"
  shows "lib_add_registration L g uri peer tk = (reg, g1) \<Longrightarrow> g1 reg \<noteq> None \<and> (\<forall>k. 0 < refs k \<longrightarrow> g k \<noteq> None \<longrightarrow> g1 k \<noteq> None)"
    and "lib_checkout L g reg = (t, g1) \<Longrightarrow> t = reg \<and> (\<forall>k. g k \<noteq> None \<longrightarrow> g1 k \<noteq> None)"
    and "lib_find_registration L g uri peer = Some reg \<Longrightarrow> g reg \<noteq> None"
proof -
  note c = assms [unfolded counts_references_def]
  show "lib_add_registration L g uri peer tk = (reg, g1) \<Longrightarrow> g1 reg \<noteq> None \<and> (\<forall>k. 0 < refs k \<longrightarrow> g k \<noteq> None \<longrightarrow> g1 k \<noteq> None)"
    using c [THEN conjunct1, THEN spec [where x = g], THEN spec [where x = uri], THEN spec [where x = peer], THEN spec [where x = tk]]
    by simp
  show "lib_checkout L g reg = (t, g1) \<Longrightarrow> t = reg \<and> (\<forall>k. g k \<noteq> None \<longrightarrow> g1 k \<noteq> None)"
    using c [THEN conjunct2, THEN conjunct1, THEN spec [where x = g], THEN spec [where x = reg]] by simp
  show "lib_find_registration L g uri peer = Some reg \<Longrightarrow> g reg \<noteq> None"
    using c [THEN conjunct2, THEN conjunct2] by blast
qed

lemma get_safe:
  assumes "program_inv fuel p" and "counter (sm_smreqbuf (pg_sm p)) + 2 \<le> SM_RBUF_SIZE" and "counts_references (program_refs p) L"
  shows "outcome_sat thread_faults (program_inv fuel)
    (bindR (GET_handler n L id (handler_ctx p) res req) (\<lambda>cx. Inr (after_handler p cx)))"
proof -
  let ?regs = "sv_regs (pg_server p)"
  have room: "counter (sm_smreqbuf (pg_sm p)) < SM_RBUF_SIZE" using assms(2) by simp
  note kept = program_invD(2) [OF assms(1)]
  let ?q = "\<lambda>rt t f. \<lparr>rq_rtype = rt, rq_sensor = sensor_of n, rq_ticket = t, rq_freq = f\<rparr>"
  let ?one = "\<lambda>tid. (handler_ctx p)\<lparr>cx_smreqbuf := put_body (?q SM_REQ_ONESHOT tid 0) (sm_smreqbuf (pg_sm p))\<rparr>"
  have one: "program_inv fuel (after_handler p (?one tid))" for tid
    by (rule handler_inv_one [OF assms(1) room handler_requests_ok(2)]) (use kept in \<open>auto simp: sm_req_codes\<close>)
  show ?thesis
  proof (cases "cr_observe req \<and> re_observable res = 1")
    case True
    obtain reg regs1 where add: "lib_add_registration L ?regs (re_uri res) (cr_peer req) (cr_token req) = (reg, regs1)" by force
    obtain t regs2 where out: "lib_checkout L regs1 reg = (t, regs2)" by force
    have l: "regs1 reg \<noteq> None" "0 < program_refs p k \<Longrightarrow> ?regs k \<noteq> None \<Longrightarrow> regs1 k \<noteq> None" "t = reg" "regs1 k \<noteq> None \<Longrightarrow> regs2 k \<noteq> None" for k
      using counts_referencesD(1,2) [OF assms(3)] add out by blast+
    have "GET_handler n L id (handler_ctx p) res req = Inr ((handler_ctx p)\<lparr>cx_regs := regs2,
        cx_smreqbuf := put_body (?q SM_REQ_START t 10) (sm_smreqbuf (pg_sm p))\<rparr>)"
      using True by (simp add: GET_handler_eq generic_GET_handler_def add out put_request_body)
    moreover have "program_inv fuel (after_handler p ((handler_ctx p)\<lparr>cx_regs := regs2,
        cx_smreqbuf := put_body (?q SM_REQ_START t 10) (sm_smreqbuf (pg_sm p))\<rparr>))"
      by (rule handler_inv_one [OF assms(1) room handler_requests_ok(1)]) (use kept l in auto)
    ultimately show ?thesis by simp
  next
    case no_start: False
    show ?thesis
    proof (cases "lib_register_async L ?regs req")
      case None
      with no_start have "GET_handler n L id (handler_ctx p) res req = Inl NullDeref"
        by (auto simp: GET_handler_eq generic_GET_handler_def)
      then show ?thesis by simp
    next
      case (Some tid)
      show ?thesis
      proof (cases "cr_observe req \<or> lib_find_registration L ?regs (re_uri res) (cr_peer req) = None")
        case True
        with no_start Some have "GET_handler n L id (handler_ctx p) res req = Inr (?one tid)"
          by (auto simp: GET_handler_eq generic_GET_handler_def put_request_body Let_def)
        with one show ?thesis by simp
      next
        case False
        then obtain reg where reg: "lib_find_registration L ?regs (re_uri res) (cr_peer req) = Some reg" by blast
        then obtain r where r: "?regs reg = Some r" using counts_referencesD(3) [OF assms(3)] by blast
        let ?stop = "\<lparr>rq_rtype = SM_REQ_STOP, rq_sensor = sensor_of (re_on_unregister res), rq_ticket = reg, rq_freq = 0\<rparr>"
        let ?cx = "(handler_ctx p)\<lparr>cx_regs := ?regs(reg \<mapsto> r\<lparr>rg_invalid := 1\<rparr>),
          cx_smreqbuf := put_body ?stop (put_body (?q SM_REQ_ONESHOT tid 0) (sm_smreqbuf (pg_sm p)))\<rparr>"
        have "GET_handler n L id (handler_ctx p) res req = Inr ?cx"
          using False Some reg r
          by (simp add: GET_handler_eq generic_GET_handler_def on_unregister_eq generic_on_unregister_def put_request_body Let_def)
        moreover have "program_inv fuel (after_handler p ?cx)"
          by (rule handler_inv_two [OF assms(1,2) handler_requests_ok(2,3)]) (use kept in \<open>auto simp: sm_req_codes\<close>)
        ultimately show ?thesis by simp
      qed
    qed
  qed
qed

text \<open>What the server takes during an iteration is well formed, and its tickets are outstanding.\<close>

lemma iteration_taken:
  assumes "program_inv fuel p" and "thread_iteration fuel (pg_sm p) = Inr t"
  defines "taken \<equiv> w_taken (sm_world (pg_sm p))" and "qs \<equiv> w_issued (sm_world (pg_sm p))"
  obtains ts where "w_taken (sm_world t) = taken @ ts" "w_issued (sm_world t) = qs" "sm_reachable fuel t"
    "\<forall>pre r post. ts = pre @ r # post \<longrightarrow> rs_rtype r \<in> {STREAM_UPDATE, STREAM_STOPPED}
      \<longrightarrow> returned (taken @ pre) (rs_ticket r) < started_with qs (rs_ticket r)"
    "\<forall>r\<in>set ts. response_form (rs_rtype r) (rs_pk r)"
proof -
  let ?s = "pg_sm p"
  note pi = program_invD [OF assms(1)]
  have t: "sm_reachable fuel t" using sm_reachable.step [OF pi(1) sm_step.iterate [OF assms(2)]] .
  have here: "buffers_here ?s" using sm_inv_buffers [OF sm_reachable_inv [OF pi(1)]] by (simp add: buffers_here_def)
  obtain ts where ts: "w_taken (sm_world t) = taken @ ts" "w_issued (sm_world t) = qs"
    using buffers.thread_iteration_R [OF assms(2)] here unfolding buffer_frame_def taken_def qs_def by blast
  have form: "\<forall>r\<in>set ts. response_form (rs_rtype r) (rs_pk r)"
    using sm_reachable_frames [OF t] ts by (simp add: typed_responses_def history_def)
  have "returned (taken @ pre) (rs_ticket r) < started_with qs (rs_ticket r)"
    if "ts = pre @ r # post" "rs_rtype r \<in> {STREAM_UPDATE, STREAM_STOPPED}" for pre r post
    using outstanding_history [OF t _ that(2), of "taken @ pre" "post @ responses (sm_notbuf t)"] that(1) ts
    by (simp add: history_def)
  with ts t form that show thesis by blast
qed

lemma iterate_safe:
  assumes "program_inv fuel p" and "thread_iteration fuel (pg_sm p) = Inr t"
    and "serve_taken (w_issued (sm_world (pg_sm p))) (w_taken (sm_world (pg_sm p)))
      (drop (length (w_taken (sm_world (pg_sm p)))) (w_taken (sm_world t))) (pg_server p) out"
  shows "outcome_sat thread_faults (program_inv fuel) (bindR out (\<lambda>sv. Inr (p\<lparr>pg_sm := t, pg_server := sv\<rparr>)))"
proof -
  let ?s = "pg_sm p"
  obtain ts where ts: "w_taken (sm_world t) = w_taken (sm_world ?s) @ ts" "w_issued (sm_world t) = w_issued (sm_world ?s)"
      "sm_reachable fuel t"
    and use: "\<forall>pre r post. ts = pre @ r # post \<longrightarrow> rs_rtype r \<in> {STREAM_UPDATE, STREAM_STOPPED}
      \<longrightarrow> returned (w_taken (sm_world ?s) @ pre) (rs_ticket r) < started_with (w_issued (sm_world ?s)) (rs_ticket r)"
    and form: "\<forall>r\<in>set ts. response_form (rs_rtype r) (rs_pk r)"
    using iteration_taken [OF assms(1,2)] .
  have "serve_taken (w_issued (sm_world ?s)) (w_taken (sm_world ?s)) ts (pg_server p) out" using assms(3) by (simp add: ts(1))
  then have "outcome_sat {NullDeref} (\<lambda>sv. \<forall>k. 0 < references (w_issued (sm_world ?s)) (w_taken (sm_world ?s) @ ts) k
      \<longrightarrow> sv_regs sv k \<noteq> None) out"
    by (rule serve_taken_kept) (use program_invD(2) [OF assms(1)] use form in blast)+
  then show ?thesis using ts(1-3) by (cases out) (simp_all add: program_inv_def)
qed

lemma iterate_possible:
  assumes "program_inv fuel p" and "thread_iteration fuel (pg_sm p) = Inr t"
  shows "\<exists>sv. program_step fuel p (Inr (p\<lparr>pg_sm := t, pg_server := sv\<rparr>))"
proof -
  let ?s = "pg_sm p"
  obtain ts where ts: "w_taken (sm_world t) = w_taken (sm_world ?s) @ ts" "w_issued (sm_world t) = w_issued (sm_world ?s)"
      "sm_reachable fuel t"
    and use: "\<forall>pre r post. ts = pre @ r # post \<longrightarrow> rs_rtype r \<in> {STREAM_UPDATE, STREAM_STOPPED}
      \<longrightarrow> returned (w_taken (sm_world ?s) @ pre) (rs_ticket r) < started_with (w_issued (sm_world ?s)) (rs_ticket r)"
    and form: "\<forall>r\<in>set ts. response_form (rs_rtype r) (rs_pk r)"
    using iteration_taken [OF assms] .
  have "\<exists>sv. serve_taken (w_issued (sm_world ?s)) (w_taken (sm_world ?s)) ts (pg_server p) (Inr sv)"
    by (rule serve_taken_possible) (use program_invD(2) [OF assms(1)] use form in blast)+
  then obtain sv where "serve_taken (w_issued (sm_world ?s)) (w_taken (sm_world ?s))
      (drop (length (w_taken (sm_world ?s))) (w_taken (sm_world t))) (pg_server p) (Inr sv)"
    unfolding ts(1) by auto
  from program_step.iterate [OF assms(2) this] show ?thesis by auto
qed

lemma serve_safe:
  assumes "program_inv fuel p" and "releases_last (program_refs p) L"
    and "get_response_buf_item zero_response (sm_notbuf (pg_sm p)) = (r, b)"
  shows "outcome_sat thread_faults (program_inv fuel) (bindR (serve_response L ((pg_server p)\<lparr>sv_notbuf := b\<rparr>) r) (\<lambda>sv.
      Inr (p\<lparr>pg_sm := note_taken (take 1 (responses (sm_notbuf (pg_sm p)))) ((pg_sm p)\<lparr>sm_notbuf := b\<rparr>), pg_server := sv\<rparr>)))"
proof -
  let ?s = "pg_sm p" and ?sv = "(pg_server p)\<lparr>sv_notbuf := b\<rparr>"
  note pi = program_invD [OF assms(1)]
  have t: "sm_reachable fuel (note_taken (take 1 (responses (sm_notbuf ?s))) (?s\<lparr>sm_notbuf := b\<rparr>))"
    using sm_reachable.step [OF pi(1) sm_step.serve] assms(3) by simp
  have kept: "\<forall>k. 0 < program_refs p k \<longrightarrow> sv_regs ?sv k \<noteq> None" using pi(2) by simp
  show ?thesis
  proof (cases "responses (sm_notbuf ?s)")
    case Nil
    then have "rs_rtype r = INVALID_RESPONSE" using get_response_empty [of "sm_notbuf ?s" zero_response] assms(3) by auto
    then have "serve_response L ?sv r = Inr ?sv" by (simp add: serve_response_def sm_res_codes)
    with t kept Nil show ?thesis by (simp add: program_inv_def del: ring_list_empty_iff)
  next
    case (Cons q rs)
    then have "0 < counter (sm_notbuf ?s)" by (metis ring_list_empty_iff list.distinct(1) gr0I)
    from responses_remove [OF pi(4) assms(3) this] Cons have q: "q = r" by simp
    have form: "response_form (rs_rtype r) (rs_pk r) \<or> rs_rtype r = INVALID_RESPONSE"
      using pi(5) Cons q by (simp add: history_def)
    have use: "returned (w_taken (sm_world ?s)) (rs_ticket r) < started_with (w_issued (sm_world ?s)) (rs_ticket r)"
      if "rs_rtype r \<in> {STREAM_UPDATE, STREAM_STOPPED}"
      using outstanding_ticket [OF pi(1) Cons] that q by simp
    show ?thesis
    proof (cases "serve_response L ?sv r")
      case (Inl e)
      have "e = NullDeref \<and> (\<exists>n. \<not> sl_malloc L n)"
        by (rule serve_response_kept(1) [OF assms(2) kept _ form Inl]) (rule use)
      with Inl show ?thesis by simp
    next
      case (Inr sv)
      have "\<forall>k. 0 < references (w_issued (sm_world ?s)) (w_taken (sm_world ?s) @ [r]) k \<longrightarrow> sv_regs sv k \<noteq> None"
        by (rule serve_response_kept(2) [OF assms(2) kept _ form Inr]) (rule use)
      with t Inr show ?thesis by (simp add: program_inv_def Cons q)
    qed
  qed
qed

section \<open>Every step\<close>

lemma program_step_safe:
  assumes "program_inv fuel p" and "program_step fuel p out"
  shows "outcome_sat thread_faults (program_inv fuel) out"
proof -
  note pi = program_invD [OF assms(1)]
  have sm: "program_inv fuel (p\<lparr>pg_sm := t\<rparr>)"
    if "sm_step fuel (pg_sm p) t" "w_issued (sm_world t) = w_issued (sm_world (pg_sm p))"
      "w_taken (sm_world t) = w_taken (sm_world (pg_sm p))" for t
    using sm_reachable.step [OF pi(1) that(1)] pi(2) that(2,3) by (simp add: program_inv_def)
  from assms(2) show ?thesis
  proof cases
    case (iterate_fault e)
    with thread_iteration_safe [OF sm_reachable_inv [OF pi(1)], of fuel] show ?thesis by simp
  next
    case (iterate t out')
    with iterate_safe [OF assms(1)] show ?thesis by blast
  next
    case (serve L r b)
    with serve_safe [OF assms(1)] show ?thesis by blast
  next
    case (get L n res req)
    with get_safe [OF assms(1)] show ?thesis by blast
  next
    case (unregister reg n)
    with unregister_safe [OF assms(1)] show ?thesis by blast
  next
    case (sample ev)
    show ?thesis unfolding sample(1) using sm [OF sm_step.sample [OF sample(2)]] by simp
  next
    case (carrier ev U ok)
    show ?thesis unfolding carrier(1) using sm [OF sm_step.carrier [OF carrier(2,3)]] by simp
  next
    case (carrier_end i)
    show ?thesis unfolding carrier_end using sm [OF sm_step.carrier_end] by simp
  qed (use assms(1) pi(2) in \<open>auto simp: program_inv_def\<close>)
qed

lemma program_reachable_inv: "program_reachable fuel p \<Longrightarrow> program_inv fuel p"
proof (induction rule: program_reachable.induct)
  case (start p)
  then have "w_issued (sm_world (pg_sm p)) = []" by (auto simp: sm_initial_def)
  with start show ?case by (simp add: program_inv_def references_def sm_reachable.start)
next
  case (step p q)
  with program_step_safe [OF step.IH step.hyps(2)] show ?case by simp
qed

section \<open>Properties\<close>

text \<open>
  C3. The whole program: in every state it can reach, whatever the clients ask, the sensors deliver, \<open>malloc\<close> answers and libcoap does that
  counts its references as it says, the Streaming Manager is in a reachable state of its own system, so that all that is proved of
  those holds; every registration that the program holds a reference to exists; and the next step of either thread reads no registration or
  request that is gone, divides by no zero, accesses no array or block out of its bounds and finds no response of unknown type: all that can
  go wrong is a null pointer, the write of a sample behind its full log, and a wait that goes on. (The timed wait for room is taken to have no spurious wakeup.) With memory, the server serves the next response without any fault; and nothing of this holds for
  want of steps, since every iteration of the Streaming Manager that comes to its end is a step of the program.
\<close>

theorem whole_program_safe:
  assumes "program_reachable fuel p"
  shows "sm_reachable fuel (pg_sm p)
    \<and> (\<forall>k. returned (w_taken (sm_world (pg_sm p))) k < started_with (w_issued (sm_world (pg_sm p))) k
        \<longrightarrow> sv_regs (pg_server p) k \<noteq> None)
    \<and> (\<forall>e. program_step fuel p (Inl e) \<longrightarrow> e \<in> {NullDeref, LogOverrun, StillWaiting})
    \<and> (\<forall>L r rs. releases_last (program_refs p) L \<longrightarrow> (\<forall>n. sl_malloc L n) \<longrightarrow> responses (sm_notbuf (pg_sm p)) = r # rs
        \<longrightarrow> (\<exists>sv. serve_response L (pg_server p) r = Inr sv))
    \<and> (\<forall>t. thread_iteration fuel (pg_sm p) = Inr t \<longrightarrow> (\<exists>sv. program_step fuel p (Inr (p\<lparr>pg_sm := t, pg_server := sv\<rparr>))))"
proof (intro conjI allI impI)
  note inv = program_reachable_inv [OF assms]
  note pi = program_invD [OF inv]
  show "sm_reachable fuel (pg_sm p)" by (rule pi)
  show "sv_regs (pg_server p) k \<noteq> None"
    if "returned (w_taken (sm_world (pg_sm p))) k < started_with (w_issued (sm_world (pg_sm p))) k" for k
    using pi(2) that by (simp add: references_def)
  show "\<exists>sv. program_step fuel p (Inr (p\<lparr>pg_sm := t, pg_server := sv\<rparr>))" if "thread_iteration fuel (pg_sm p) = Inr t" for t
    by (rule iterate_possible [OF inv that])
  show "e \<in> {NullDeref, LogOverrun, StillWaiting}" if "program_step fuel p (Inl e)" for e
    using program_step_safe [OF inv that] by (simp add: thread_faults_def)
  fix L r rs
  assume L: "releases_last (program_refs p) L" "\<forall>n. sl_malloc L n" and r: "responses (sm_notbuf (pg_sm p)) = r # rs"
  have kept: "\<forall>k. 0 < program_refs p k \<longrightarrow> sv_regs (pg_server p) k \<noteq> None" using pi(2) by blast
  have form: "response_form (rs_rtype r) (rs_pk r) \<or> rs_rtype r = INVALID_RESPONSE" using pi(5) r by (simp add: history_def)
  have "serve_response L (pg_server p) r \<noteq> Inl e" for e
  proof
    assume f: "serve_response L (pg_server p) r = Inl e"
    have "\<exists>n. \<not> sl_malloc L n"
      using serve_response_kept(1) [OF L(1) kept outstanding_ticket [OF pi(1) r] form f] by blast
    with L(2) show False by blast
  qed
  then show "\<exists>sv. serve_response L (pg_server p) r = Inr sv" by (cases "serve_response L (pg_server p) r") auto
qed

text \<open>A client observes the light sensor.\<close>

definition observing_lib :: coap_lib where
  "observing_lib = \<lparr>lib_add_registration = (\<lambda>g uri peer tk. (100 + peer, g(100 + peer \<mapsto> one_registration))),
     lib_checkout = (\<lambda>g reg. (reg, g)),
     lib_find_registration = (\<lambda>g uri peer. if g (100 + peer) = None then None else Some (100 + peer)),
     lib_register_async = (\<lambda>g req. Some (cr_id req))\<rparr>"

lemma observing_lib_ok: "counts_references refs observing_lib"
  by (simp add: counts_references_def observing_lib_def)

definition first_program :: program where
  "first_program = \<lparr>pg_sm = quiet_state, pg_server = (sample_server one_registration)\<lparr>sv_regs := Map.empty\<rparr>,
     pg_ctx = empty_ctx Map.empty\<rparr>"

theorem whole_program_safe_witness:
  "\<exists>p. program_reachable 0 p \<and> started_with (w_issued (sm_world (pg_sm p))) 105 = 1 \<and> sv_regs (pg_server p) 105 \<noteq> None
     \<and> \<not> program_step 0 p (Inl UseAfterFree)"
proof -
  let ?req = "get_request_msg True" and ?q = "\<lparr>rq_rtype = SM_REQ_START, rq_sensor = 5, rq_ticket = 105, rq_freq = 10\<rparr>"
  let ?cx = "(handler_ctx first_program)\<lparr>cx_regs := [105 \<mapsto> one_registration],
    cx_smreqbuf := put_body ?q (sm_smreqbuf (pg_sm first_program))\<rparr>"
  have i: "sm_initial (pg_sm first_program)" using quiet_state_initial by (simp add: first_program_def)
  have c: "counter (sm_smreqbuf (pg_sm first_program)) = 0" "reqbuf_wf (sm_smreqbuf (pg_sm first_program))"
    using quiet_buffers(2,3) by (simp_all add: first_program_def)
  have "GET_handler Light observing_lib id (handler_ctx first_program) ze_coap_init_light ?req = Inr ?cx"
    by (simp add: light_GET_handler_def generic_GET_handler_def observing_lib_def get_request_msg_def init_defs put_request_body
        first_program_def sensor_codes)
  with program_step.get [OF observing_lib_ok, of first_program 0 Light ze_coap_init_light ?req]
  have "program_step 0 first_program (Inr (after_handler first_program ?cx))" using c by (simp add: SM_RBUF_SIZE_def)
  with program_reachable.start [OF i] have r: "program_reachable 0 (after_handler first_program ?cx)" by (rule program_reachable.step)
  have a: "pg_sm (after_handler first_program ?cx) = issue ?q (pg_sm first_program)"
    by (rule after_handler_one) (simp_all add: c)
  have s: "started_with (w_issued (sm_world (pg_sm (after_handler first_program ?cx)))) 105 = 1"
    "returned (w_taken (sm_world (pg_sm (after_handler first_program ?cx)))) 105 = 0"
    using quiet_world_new unfolding a by (simp_all add: issue_def first_program_def quiet_state_def)
  have f: "\<not> program_step 0 (after_handler first_program ?cx) (Inl UseAfterFree)" using whole_program_safe [OF r] by blast
  have "sv_regs (pg_server (after_handler first_program ?cx)) 105 \<noteq> None" using whole_program_safe [OF r] s by (metis zero_less_one)
  with r s(1) f show ?thesis by blast
qed

end
