(* ===== verification/ExampleServer.thy ===== *)
theory ExampleServer
  imports CoapLoop Root
begin

text \<open>
  \<open>ze_coap_server_example.c\<close>: libcoap's example server behind a JNI function of its own. It has three resources, an index, a clock
  that clients can set and delete, and one that answers later. Not in the build of the library, but complete. What libcoap
  does is in \<open>ex_lib\<close>; \<open>'q\<close> is its queue of messages to send again. \<open>unsigned long\<close>, \<open>size_t\<close> and \<open>time_t\<close> have 32 bits, as on the
  ARM that the NDK builds for, and \<open>time_t\<close> has a sign.
\<close>

section \<open>State\<close>

text \<open>What the handlers read of a request; a query is the value of the option \<open>Uri-Query\<close>.\<close>

record ex_request =
  eq_id :: int
  eq_peer :: int
  eq_token :: "byte list"
  eq_observe :: bool
  eq_query :: "byte list option"
  eq_data :: "byte list"

datatype ex_option = CONTENT_TYPE | MAXAGE | SUBSCRIPTION | TOKEN

text \<open>A response as the code builds it; its length is that of the message so far, options included.\<close>

record ex_response =
  er_code :: int
  er_options :: "(ex_option \<times> byte list) list"
  er_data :: "byte list"
  er_length :: int
  er_max_size :: int

text \<open>\<open>coap_async_state_t\<close>.\<close>

record ex_async =
  ea_id :: int
  ea_peer :: int
  ea_token :: "byte list"
  ea_confirm :: bool
  ea_created :: int
  ea_appdata :: int

record ex_message =
  em_peer :: int
  em_confirm :: bool
  em_id :: int
  em_token :: "byte list option"
  em_data :: "byte list"

datatype ex_method = Method_GET | Method_PUT | Method_DELETE
datatype ex_handler = Hnd_get_index | Hnd_get_time | Hnd_put_time | Hnd_delete_time | Hnd_get_async

record ex_resource =
  xr_uri :: string
  xr_handlers :: "(ex_method \<times> ex_handler) list"
  xr_attrs :: "(string \<times> string) list"
  xr_observable :: int

text \<open>
  The static variables, the fields of the context and of the clock's resource that the code uses, and what it asked of libcoap
  in order. \<open>ex_tick\<close> counts the questions to the system.
\<close>

record 'q example =
  ex_quit :: int
  ex_clock_base :: int
  ex_async :: "ex_async option"
  ex_dirty :: int
  ex_observe :: int
  ex_observers :: "(int \<times> byte list) list"
  ex_replies :: "ex_response list"
  ex_sent :: "ex_message list"
  ex_queue :: 'q
  ex_tick :: nat

text \<open>
  libcoap and the system: \<open>COAP_TICKS_PER_SECOND\<close>, \<open>clock_offset\<close>, the encoding of a number in as few bytes as it needs, the room an option
  takes in a message, and the answers to the n-th question. \<open>el_register\<close> gives the id and the time of a new asynchronous state.
\<close>

record 'q ex_lib =
  el_tps :: int
  el_clock_offset :: int
  el_encode_var :: "int \<Rightarrow> byte list"
  el_option_length :: "ex_option \<Rightarrow> byte list \<Rightarrow> int"
  el_ticks :: "nat \<Rightarrow> int"
  el_register :: "nat \<Rightarrow> (int \<times> int) option"
  el_pdu :: "nat \<Rightarrow> bool"
  el_message_id :: "nat \<Rightarrow> int"
  el_response :: "nat \<Rightarrow> ex_response"
  el_select :: "nat \<Rightarrow> int \<times> int \<Rightarrow> select_result"
  el_received :: "nat \<Rightarrow> (ex_method \<times> string \<times> ex_request) list"
  el_notified :: "nat \<Rightarrow> (int \<times> byte list) list"
  el_notify_state :: "nat \<Rightarrow> int \<times> int"
  el_peek_next :: "'q \<Rightarrow> int option"
  el_retransmit :: "'q \<Rightarrow> 'q"

definition ex_next :: "'q example \<Rightarrow> 'q example" where
  "ex_next st = st\<lparr>ex_tick := ex_tick st + 1\<rparr>"

section \<open>Building a response\<close>

definition add_option :: "'q ex_lib \<Rightarrow> ex_option \<Rightarrow> byte list \<Rightarrow> ex_response \<Rightarrow> ex_response" where
  "add_option L opt bs r = r\<lparr>er_options := er_options r @ [(opt, bs)], er_length := er_length r + el_option_length L opt bs\<rparr>"

text \<open>\<open>coap_add_option\<close> of \<open>coap_encode_var_bytes(buf, v)\<close>, for a \<open>buf\<close> of \<open>k\<close> bytes.\<close>

definition add_var :: "'q ex_lib \<Rightarrow> nat \<Rightarrow> ex_option \<Rightarrow> int \<Rightarrow> ex_response \<Rightarrow> ex_response outcome" where
  "add_var L k opt v r =
     (if length (el_encode_var L v) \<le> k then Inr (add_option L opt (el_encode_var L v) r) else Inl OutOfBounds)"

definition add_token :: "'q ex_lib \<Rightarrow> byte list \<Rightarrow> ex_response \<Rightarrow> ex_response" where
  "add_token L token r = (if token \<noteq> [] then add_option L TOKEN token r else r)"

definition add_data :: "byte list \<Rightarrow> ex_response \<Rightarrow> ex_response" where
  "add_data bs r = r\<lparr>er_data := bs, er_length := er_length r + int (length bs)\<rparr>"

text \<open>
  \<open>response->length += snprintf(response->data, response->max_size - response->length, ...)\<close>: without room the size wraps around and the text is
  written past the end; with too little, the text is cut and the length grows by that of the whole text.
\<close>

definition print_data :: "byte list \<Rightarrow> ex_response \<Rightarrow> ex_response outcome" where
  "print_data txt r =
     (if er_max_size r < er_length r then Inl OutOfBounds
      else Inr (r\<lparr>er_data := take (nat (er_max_size r - er_length r) - 1) txt, er_length := er_length r + int (length txt)\<rparr>))"

text \<open>The same with \<open>strftime\<close>, which gives 0 when the text and its NUL do not fit.\<close>

definition strftime_data :: "byte list \<Rightarrow> ex_response \<Rightarrow> ex_response outcome" where
  "strftime_data txt r =
     (if er_max_size r < er_length r then Inl OutOfBounds
      else if int (length txt) < er_max_size r - er_length r
      then Inr (r\<lparr>er_data := txt, er_length := er_length r + int (length txt)\<rparr>)
      else Inr r)"

section \<open>The index\<close>

definition INDEX :: "byte list" where
  "INDEX = ascii ''This is a test server made with libcoap (see http://libcoap.sf.net)'' @ [10]
     @ ascii ''Copyright (C) 2010--2012 Olaf Bergmann <bergmann@tzi.org>'' @ [10, 10]"

definition hnd_get_index :: "'q ex_lib \<Rightarrow> byte list \<Rightarrow> ex_response \<Rightarrow> ex_response outcome" where
  "hnd_get_index L token r =
     bindR (add_var L 3 CONTENT_TYPE 0 (r\<lparr>er_code := 205\<rparr>)) (\<lambda>r1.
     bindR (add_var L 3 MAXAGE 196607 r1) (\<lambda>r2.
     Inr (add_data INDEX (add_token L token r2))))"

section \<open>The clock\<close>

text \<open>\<open>gmtime\<close>: month, day of the month, hours, minutes and seconds of a time in seconds since 1970, in the Gregorian calendar.\<close>

definition month_day :: "int \<Rightarrow> int \<times> int" where
  "month_day days =
     (let doe = (days + 719468) mod 146097;
          yoe = (doe - doe div 1460 + doe div 36524 - doe div 146096) div 365;
          doy = doe - (365 * yoe + yoe div 4 - yoe div 100);
          mp = (5 * doy + 2) div 153
      in (if mp < 10 then mp + 3 else mp - 9, doy - (153 * mp + 2) div 5 + 1))"

definition month_name :: "int \<Rightarrow> byte list" where
  "month_name m = take 3 (drop (3 * nat (m - 1)) (ascii ''JanFebMarAprMayJunJulAugSepOctNovDec''))"

text \<open>\<open>"%b %d %H:%M:%S"\<close>.\<close>

definition time_text :: "int \<Rightarrow> byte list" where
  "time_text now =
     (let (m, d) = month_day (now div 86400); s = now mod 86400
      in month_name m @ [32] @ digits 2 (nat d) @ [32] @ digits 2 (nat (s div 3600)) @ [58]
         @ digits 2 (nat (s mod 3600 div 60)) @ [58] @ digits 2 (nat (s mod 60)))"

definition ticks_query :: "byte list option \<Rightarrow> bool" where
  "ticks_query q = (case q of None \<Rightarrow> False
     | Some v \<Rightarrow> take (min 5 (length v)) v = take (min 5 (length v)) (ascii ''ticks''))"

text \<open>\<open>request\<close> is \<open>NULL\<close> when libcoap notifies an observer.\<close>

definition hnd_get_time :: "'q ex_lib \<Rightarrow> 'q example \<Rightarrow> int \<Rightarrow> byte list \<Rightarrow> ex_request option \<Rightarrow> ex_response
    \<Rightarrow> (ex_response \<times> 'q example) outcome" where
  "hnd_get_time L st peer token request r =
     (let base = ex_clock_base st;
          r0 = r\<lparr>er_code := if base \<noteq> 0 then 205 else 404\<rparr>
      in bindR (if base \<noteq> 0 then add_var L 5 CONTENT_TYPE 0 r0 else Inr r0) (\<lambda>r1.
         bindR (add_var L 5 MAXAGE 1 r1) (\<lambda>r2.
         let observes = (case request of None \<Rightarrow> False | Some q \<Rightarrow> eq_observe q);
             r3 = (if observes then add_option L SUBSCRIPTION [] r2 else r2);
             st1 = (if observes then st\<lparr>ex_observers := ex_observers st @ [(peer, token)]\<rparr> else st)
         in bindR (if ex_dirty st1 = 1 then add_var L 5 SUBSCRIPTION (ex_observe st1) r3 else Inr r3) (\<lambda>r4.
         let r5 = add_token L token r4
         in if base \<noteq> 0 then
              let now = i32 (base + el_ticks L (ex_tick st1) div el_tps L); st2 = ex_next st1
              in if (case request of None \<Rightarrow> False | Some q \<Rightarrow> ticks_query (eq_query q))
                 then bindR (print_data (dec_digits (nat (u32 now))) r5) (\<lambda>r6. Inr (r6, st2))
                 else bindR (strftime_data (time_text now) r5) (\<lambda>r6. Inr (r6, st2))
            else Inr (r5, st1)))))"

text \<open>\<open>my_clock_base = my_clock_base * 10 + *data++\<close>.\<close>

fun put_loop :: "int \<Rightarrow> byte list \<Rightarrow> int" where
  "put_loop base [] = base"
| "put_loop base (b # data) = put_loop (i32 (base * 10 + uint b)) data"

definition hnd_put_time :: "'q ex_lib \<Rightarrow> 'q example \<Rightarrow> byte list \<Rightarrow> byte list \<Rightarrow> ex_response \<Rightarrow> ex_response \<times> 'q example" where
  "hnd_put_time L st token data r =
     (let r1 = add_token L token (r\<lparr>er_code := if ex_clock_base st \<noteq> 0 then 204 else 201\<rparr>);
          st1 = st\<lparr>ex_dirty := 1\<rparr>
      in if data = [] then (r1, st1\<lparr>ex_clock_base := el_clock_offset L\<rparr>)
         else let t = el_ticks L (ex_tick st1)
              in (r1, (ex_next st1)\<lparr>ex_clock_base := i32 (put_loop 0 data - t div el_tps L)\<rparr>))"

definition hnd_delete_time :: "'q ex_lib \<Rightarrow> 'q example \<Rightarrow> byte list \<Rightarrow> ex_response \<Rightarrow> ex_response \<times> 'q example" where
  "hnd_delete_time L st token r = (add_token L token r, st\<lparr>ex_clock_base := 0\<rparr>)"

section \<open>The late answer\<close>

text \<open>\<open>delay = delay * 10 + (*p - '0')\<close>.\<close>

fun delay_loop :: "int \<Rightarrow> byte list \<Rightarrow> int" where
  "delay_loop delay [] = delay"
| "delay_loop delay (p # ps) = delay_loop (u32 (delay * 10 + (uint p - 48))) ps"

definition hnd_get_async :: "'q ex_lib \<Rightarrow> 'q example \<Rightarrow> ex_request \<Rightarrow> ex_response \<Rightarrow> ex_response \<times> 'q example" where
  "hnd_get_async L st request r =
     (case ex_async st of
        Some a \<Rightarrow> ((if ea_id a \<noteq> eq_id request then r\<lparr>er_code := 503\<rparr> else r), st)
      | None \<Rightarrow>
          let delay = (case eq_query request of None \<Rightarrow> 5 | Some v \<Rightarrow> delay_loop 0 v)
          in (r, (ex_next st)\<lparr>ex_async := map_option (\<lambda>(i, created). \<lparr>ea_id = i, ea_peer = eq_peer request, ea_token = eq_token request,
                ea_confirm = True, ea_created = created, ea_appdata = u32 (el_tps L * delay)\<rparr>) (el_register L (ex_tick st))\<rparr>))"

definition done_message :: "int \<Rightarrow> ex_async \<Rightarrow> ex_message" where
  "done_message mid a = \<lparr>em_peer = ea_peer a, em_confirm = ea_confirm a, em_id = mid,
     em_token = (if ea_token a \<noteq> [] then Some (ea_token a) else None), em_data = ascii ''done''\<rparr>"

definition check_async :: "'q ex_lib \<Rightarrow> int \<Rightarrow> 'q example \<Rightarrow> 'q example" where
  "check_async L now st =
     (case ex_async st of
        None \<Rightarrow> st
      | Some a \<Rightarrow>
          if now < u32 (ea_created a + ea_appdata a) then st
          else if \<not> el_pdu L (ex_tick st)
          then (ex_next st)\<lparr>ex_async := Some (a\<lparr>ea_appdata := u32 (ea_appdata a + 15 * el_tps L)\<rparr>)\<rparr>
          else (ex_next st)\<lparr>ex_sent := ex_sent st @ [done_message (el_message_id L (ex_tick st)) a], ex_async := None\<rparr>)"

section \<open>The resources\<close>

definition init_resources :: "'q ex_lib \<Rightarrow> 'q example \<Rightarrow> ex_resource list \<times> 'q example" where
  "init_resources L st =
     ([\<lparr>xr_uri = [], xr_handlers = [(Method_GET, Hnd_get_index)],
        xr_attrs = [(''ct'', ''0''), (''title'', ''\"General Info\"'')], xr_observable = 0\<rparr>,
       \<lparr>xr_uri = c_bytes ''time'' 4,
        xr_handlers = [(Method_GET, Hnd_get_time), (Method_PUT, Hnd_put_time), (Method_DELETE, Hnd_delete_time)],
        xr_attrs = [(''ct'', ''0''), (''title'', ''\"Internal Clock\"''), (''rt'', ''\"Ticks\"''), (''if'', ''\"clock\"'')],
        xr_observable = 1\<rparr>,
       \<lparr>xr_uri = c_bytes ''async'' 5, xr_handlers = [(Method_GET, Hnd_get_async)], xr_attrs = [(''ct'', ''0'')], xr_observable = 0\<rparr>],
      st\<lparr>ex_clock_base := el_clock_offset L\<rparr>)"

text \<open>A handler that libcoap calls, and the reply it sends.\<close>

definition call_handler :: "'q ex_lib \<Rightarrow> ex_handler \<Rightarrow> ex_request \<Rightarrow> 'q example \<Rightarrow> 'q example outcome" where
  "call_handler L h q st =
     (let r = el_response L (ex_tick st);
          reply = (\<lambda>(r', st'). st'\<lparr>ex_replies := ex_replies st' @ [r']\<rparr>)
      in case h of
           Hnd_get_index \<Rightarrow> bindR (hnd_get_index L (eq_token q) r) (\<lambda>r'. Inr (reply (r', st)))
         | Hnd_get_time \<Rightarrow> bindR (hnd_get_time L st (eq_peer q) (eq_token q) (Some q) r) (\<lambda>x. Inr (reply x))
         | Hnd_put_time \<Rightarrow> Inr (reply (hnd_put_time L st (eq_token q) (eq_data q) r))
         | Hnd_delete_time \<Rightarrow> Inr (reply (hnd_delete_time L st (eq_token q) r))
         | Hnd_get_async \<Rightarrow> Inr (reply (hnd_get_async L st q r)))"

text \<open>The requests \<open>coap_dispatch\<close> finds a resource and a handler for; the others it answers itself.\<close>

fun dispatch :: "'q ex_lib \<Rightarrow> ex_resource list \<Rightarrow> (ex_method \<times> string \<times> ex_request) list \<Rightarrow> 'q example \<Rightarrow> 'q example outcome" where
  "dispatch L rs [] st = Inr st"
| "dispatch L rs ((m, uri, q) # ms) st =
     (case find (\<lambda>r. xr_uri r = uri) rs of
        None \<Rightarrow> dispatch L rs ms st
      | Some r \<Rightarrow>
          (case map_of (xr_handlers r) m of
             None \<Rightarrow> dispatch L rs ms st
           | Some h \<Rightarrow> bindR (call_handler L h q st) (dispatch L rs ms)))"

text \<open>\<open>coap_check_notify\<close> calls the handler of the clock for each observer, and then sets the resource's flag and the context's counter.\<close>

fun check_observe :: "'q ex_lib \<Rightarrow> (int \<times> byte list) list \<Rightarrow> 'q example \<Rightarrow> 'q example outcome" where
  "check_observe L [] st = Inr (st\<lparr>ex_dirty := fst (el_notify_state L (ex_tick st)), ex_observe := snd (el_notify_state L (ex_tick st))\<rparr>)"
| "check_observe L ((peer, token) # os) st =
     bindR (hnd_get_time L st peer token None (el_response L (ex_tick st))) (\<lambda>(r, st1).
     check_observe L os (st1\<lparr>ex_replies := ex_replies st1 @ [r]\<rparr>))"

section \<open>The loop\<close>

definition get_context :: "nat \<Rightarrow> (addrinfo \<Rightarrow> coap_ctx option) \<Rightarrow> addrinfo list option \<Rightarrow> coap_ctx option" where
  "get_context addr_size coap_new_context result =
     (case result of None \<Rightarrow> None | Some rps \<Rightarrow> try_addresses addr_size coap_new_context rps)"

fun ex_retransmissions :: "'q ex_lib \<Rightarrow> nat \<Rightarrow> int \<Rightarrow> 'q example \<Rightarrow> 'q example outcome" where
  "ex_retransmissions L 0 now st = Inl StillWaiting"
| "ex_retransmissions L (Suc fuel) now st =
     (case el_peek_next L (ex_queue st) of
        None \<Rightarrow> Inr st
      | Some t \<Rightarrow>
          if t \<le> now then ex_retransmissions L fuel now (st\<lparr>ex_queue := el_retransmit L (ex_queue st)\<rparr>) else Inr st)"

text \<open>Seconds and microseconds of the timeout of \<open>select\<close>.\<close>

definition COAP_RESOURCE_CHECK_TIME :: int where "COAP_RESOURCE_CHECK_TIME = 2"

definition select_timeout :: "'q ex_lib \<Rightarrow> int \<Rightarrow> int option \<Rightarrow> int \<times> int" where
  "select_timeout L now nextpdu =
     (case nextpdu of
        None \<Rightarrow> (COAP_RESOURCE_CHECK_TIME, 0)
      | Some t \<Rightarrow>
          if t \<le> u32 (now + COAP_RESOURCE_CHECK_TIME)
          then (u32 (t - now) div el_tps L, u32 (u32 (t - now) mod el_tps L * 1000000) div el_tps L)
          else (COAP_RESOURCE_CHECK_TIME, 0))"

definition ex_round :: "'q ex_lib \<Rightarrow> nat \<Rightarrow> ex_resource list \<Rightarrow> 'q example \<Rightarrow> 'q example outcome" where
  "ex_round L fuel rs st =
     (let now = el_ticks L (ex_tick st)
      in bindR (ex_retransmissions L fuel now (ex_next st)) (\<lambda>st1.
         bindR (case el_select L (ex_tick st1) (select_timeout L now (el_peek_next L (ex_queue st1))) of
                  Select_ready True \<Rightarrow> dispatch L rs (el_received L (ex_tick st1)) (ex_next st1)
                | _ \<Rightarrow> Inr (ex_next st1)) (\<lambda>st2.
         let st3 = check_async L now st2
         in check_observe L (el_notified L (ex_tick st3)) (ex_next st3))))"

fun ex_loop :: "'q ex_lib \<Rightarrow> nat \<Rightarrow> ex_resource list \<Rightarrow> nat \<Rightarrow> 'q example \<Rightarrow> 'q example outcome" where
  "ex_loop L fuel rs 0 st = Inl StillWaiting"
| "ex_loop L fuel rs (Suc rounds) st =
     (if ex_quit st \<noteq> 0 then Inr st else bindR (ex_round L fuel rs st) (ex_loop L fuel rs rounds))"

definition handle_sigint :: "'q example \<Rightarrow> 'q example" where
  "handle_sigint st = st\<lparr>ex_quit := 1\<rparr>"

definition example_main :: "'q ex_lib \<Rightarrow> nat \<Rightarrow> nat \<Rightarrow> nat \<Rightarrow> (addrinfo \<Rightarrow> coap_ctx option) \<Rightarrow> addrinfo list option
    \<Rightarrow> 'q example \<Rightarrow> int outcome" where
  "example_main L fuel rounds addr_size coap_new_context result st =
     (case get_context addr_size coap_new_context result of
        None \<Rightarrow> Inr (-1)
      | Some ctx \<Rightarrow> (case init_resources L st of (rs, st1) \<Rightarrow> bindR (ex_loop L fuel rs rounds st1) (\<lambda>_. Inr 0)))"

section \<open>Numbers\<close>

text \<open>\<open>ones k\<close> is the number written with \<open>k\<close> digits 1.\<close>

fun ones :: "nat \<Rightarrow> int" where
  "ones 0 = 0"
| "ones (Suc k) = 10 * ones k + 1"

lemma i32_eq_iff: "i32 x = i32 y \<longleftrightarrow> u32 x = u32 y"
proof
  show "u32 x = u32 y" if "i32 x = i32 y" using that i32_mod by (metis u32_def)
  show "i32 x = i32 y" if "u32 x = u32 y"
    using that unfolding u32_def i32_def by (metis mod_add_left_eq)
qed

lemma u32_i32 [simp]: "u32 (i32 x) = u32 x"
  by (simp add: u32_def i32_mod)

lemma i32_u32 [simp]: "i32 (u32 x) = i32 x"
  by (simp add: i32_eq_iff u32_def)

lemma u32_cong:
  "u32 (u32 x + y) = u32 (x + y)" "u32 (x + u32 y) = u32 (x + y)" "u32 (u32 x - y) = u32 (x - y)" "u32 (u32 x * y) = u32 (x * y)"
  unfolding u32_def by (rule mod_add_left_eq mod_add_right_eq mod_diff_left_eq mod_mult_left_eq)+

lemma i32_cong: "u32 x = u32 y \<Longrightarrow> i32 x = i32 y"
  by (simp add: i32_eq_iff)

text \<open>The loops over the bytes of a text.\<close>

definition text_val :: "int \<Rightarrow> int \<Rightarrow> byte list \<Rightarrow> int" where
  "text_val c v bs = foldl (\<lambda>a b. a * 10 + (uint b - c)) v bs"

lemma text_val_snoc [simp]: "text_val c v (bs @ [b]) = text_val c v bs * 10 + (uint b - c)"
  by (simp add: text_val_def)

lemma text_val_u32: "u32 v = u32 w \<Longrightarrow> u32 (text_val c v bs) = u32 (text_val c w bs)"
proof (induction bs arbitrary: v w)
  case (Cons b bs)
  have "u32 (v * 10 + (uint b - c)) = u32 (w * 10 + (uint b - c))"
    using Cons.prems by (metis u32_cong(1,4))
  from Cons.IH [OF this] show ?case by (simp add: text_val_def)
qed (simp add: text_val_def)

lemma put_loop_val: "u32 (put_loop v bs) = u32 (text_val 0 v bs)"
proof (induction bs arbitrary: v)
  case (Cons b bs)
  have "u32 (put_loop v (b # bs)) = u32 (text_val 0 (i32 (v * 10 + uint b)) bs)" using Cons by simp
  also have "\<dots> = u32 (text_val 0 (v * 10 + uint b) bs)" by (rule text_val_u32) simp
  finally show ?case by (simp add: text_val_def)
qed (simp add: text_val_def)

lemma delay_loop_val: "u32 (delay_loop v bs) = u32 (text_val 48 v bs)"
proof (induction bs arbitrary: v)
  case (Cons b bs)
  have "u32 (delay_loop v (b # bs)) = u32 (text_val 48 (u32 (v * 10 + (uint b - 48))) bs)" using Cons by simp
  also have "\<dots> = u32 (text_val 48 (v * 10 + (uint b - 48)) bs)" by (rule text_val_u32) (simp add: u32_def)
  finally show ?case by (simp add: text_val_def)
qed (simp add: text_val_def)

lemma uint_digit: "d < 10 \<Longrightarrow> uint (digit d) = 48 + int d"
proof -
  assume d: "d < 10"
  have "unat (digit d) = 48 + d" by (simp only: digit_def unat_of_nat) (use d in simp)
  then show ?thesis by (simp only: uint_nat)
qed

lemma text_val_digits: "text_val c 0 (dec_digits n) = int n + (48 - c) * ones (length (dec_digits n))"
proof (induction n rule: dec_digits.induct)
  case (1 q)
  show ?case
  proof (cases "q < 10")
    case True
    then show ?thesis by (subst (1 2) dec_digits.simps) (simp add: text_val_def uint_digit)
  next
    case False
    have d: "dec_digits q = dec_digits (q div 10) @ [digit (q mod 10)]" using False by (subst dec_digits.simps) simp
    have "text_val c 0 (dec_digits q) = (int (q div 10) + (48 - c) * ones (length (dec_digits (q div 10)))) * 10
        + (48 + int (q mod 10) - c)"
      using 1 False by (simp add: d uint_digit)
    moreover have "ones (length (dec_digits q)) = 10 * ones (length (dec_digits (q div 10))) + 1" by (simp add: d)
    moreover have "int q = int (q div 10) * 10 + int (q mod 10)" by (metis of_nat_add of_nat_mult of_nat_numeral div_mult_mod_eq)
    ultimately show ?thesis by (simp add: algebra_simps)
  qed
qed

lemma dec_digits_nonempty [simp]: "dec_digits n \<noteq> []"
  by (subst dec_digits.simps) simp

section \<open>The calendar\<close>

lemma gmtime_examples:
  "time_text 0 = ascii ''Jan 01 00:00:00''"
  "time_text 951827696 = ascii ''Feb 29 12:34:56''"
  "time_text (-1) = ascii ''Dec 31 23:59:59''"
  by code_simp+

section \<open>What the handlers leave alone\<close>

lemma add_fields [simp]:
  "er_max_size (add_option L opt bs r) = er_max_size r" "er_code (add_option L opt bs r) = er_code r"
  "er_max_size (add_token L token r) = er_max_size r" "er_code (add_token L token r) = er_code r"
  by (simp_all add: add_option_def add_token_def)

lemma add_var_code: "add_var L k opt v r = Inr r' \<Longrightarrow> er_code r' = er_code r"
  by (auto simp: add_var_def split: if_splits)

lemma ex_next_fields [simp]:
  "ex_quit (ex_next st) = ex_quit st" "ex_async (ex_next st) = ex_async st" "ex_sent (ex_next st) = ex_sent st"
  "ex_clock_base (ex_next st) = ex_clock_base st" "ex_dirty (ex_next st) = ex_dirty st" "ex_tick (ex_next st) = ex_tick st + 1"
  by (simp_all add: ex_next_def)

lemma get_time_quit: "hnd_get_time L st peer token req r = Inr (r', st') \<Longrightarrow> ex_quit st' = ex_quit st"
  by (auto simp: hnd_get_time_def Let_def bindR_Inr_iff split: if_splits)

lemma call_handler_quit: "call_handler L h q st = Inr st' \<Longrightarrow> ex_quit st' = ex_quit st"
  using get_time_quit
  by (cases h) (fastforce simp: call_handler_def Let_def bindR_Inr_iff hnd_put_time_def hnd_delete_time_def hnd_get_async_def
      split: option.splits)+

lemma dispatch_quit: "dispatch L rs ms st = Inr st' \<Longrightarrow> ex_quit st' = ex_quit st"
proof (induction ms arbitrary: st)
  case (Cons m ms)
  obtain me uri q where "m = (me, uri, q)" by (cases m)
  with Cons show ?case by (fastforce simp: bindR_Inr_iff split: option.splits dest: call_handler_quit)
qed simp

lemma check_observe_quit: "check_observe L os st = Inr st' \<Longrightarrow> ex_quit st' = ex_quit st"
proof (induction os arbitrary: st)
  case (Cons o' os)
  then show ?case by (cases o') (fastforce simp: bindR_Inr_iff dest: get_time_quit)
qed auto

lemma check_async_quit [simp]: "ex_quit (check_async L now st) = ex_quit st"
  by (simp add: check_async_def split: option.splits)

lemma ex_retransmissions_quit: "ex_retransmissions L fuel now st = Inr st' \<Longrightarrow> ex_quit st' = ex_quit st"
  by (induction fuel arbitrary: st) (auto split: option.splits if_splits)

lemma ex_round_quit: "ex_round L fuel rs st = Inr st' \<Longrightarrow> ex_quit st' = ex_quit st"
proof -
  let ?now = "el_ticks L (ex_tick st)"
  assume "ex_round L fuel rs st = Inr st'"
  then obtain st1 st2 where r: "ex_retransmissions L fuel ?now (ex_next st) = Inr st1"
    and c: "(case el_select L (ex_tick st1) (select_timeout L ?now (el_peek_next L (ex_queue st1))) of
        Select_ready True \<Rightarrow> dispatch L rs (el_received L (ex_tick st1)) (ex_next st1) | _ \<Rightarrow> Inr (ex_next st1)) = Inr st2"
    and o: "check_observe L (el_notified L (ex_tick (check_async L ?now st2))) (ex_next (check_async L ?now st2)) = Inr st'"
    unfolding ex_round_def Let_def bindR_Inr_iff by blast
  have d: "dispatch L rs (el_received L (ex_tick st1)) (ex_next st1) = Inr st2 \<or> st2 = ex_next st1"
    using c by (auto split: select_result.splits bool.splits)
  from check_observe_quit [OF o] d ex_retransmissions_quit [OF r] show ?thesis using dispatch_quit by fastforce
qed

lemma ex_loop_goes_on: "ex_quit st = 0 \<Longrightarrow> ex_loop L fuel rs rounds st \<noteq> Inr st'"
proof (induction rounds arbitrary: st)
  case (Suc rounds)
  then show ?case by (auto simp: bindR_Inr_iff dest: ex_round_quit)
qed simp

section \<open>The late answer\<close>

text \<open>What happens to the asynchronous state: requests to its resource, and checks at some times.\<close>

datatype ex_event = Get_async ex_request ex_response | Check_async int

fun run_async :: "'q ex_lib \<Rightarrow> ex_event list \<Rightarrow> 'q example \<Rightarrow> 'q example" where
  "run_async L [] st = st"
| "run_async L (Get_async q r # es) st = run_async L es (snd (hnd_get_async L st q r))"
| "run_async L (Check_async now # es) st = run_async L es (check_async L now st)"

lemma run_async_waits:
  assumes "ex_async st = Some a" and "\<forall>now. Check_async now \<in> set es \<longrightarrow> now < u32 (ea_created a + ea_appdata a)"
  shows "run_async L es st = st"
  using assms(2)
proof (induction es)
  case (Cons e es)
  with assms(1) show ?case by (cases e) (simp_all add: hnd_get_async_def check_async_def)
qed simp

section \<open>Reading the clock\<close>

lemma get_time_ticks:
  assumes "ex_clock_base st \<noteq> 0" and "ticks_query (eq_query q)" and "hnd_get_time L st peer token (Some q) r = Inr (r2, st2)"
  shows "\<exists>r5. print_data (dec_digits (nat (u32 (i32 (ex_clock_base st + el_ticks L (ex_tick st) div el_tps L))))) r5 = Inr r2
    \<and> er_code r5 = 205"
  using assms
  by (auto simp: hnd_get_time_def Let_def bindR_Inr_iff simp del: u32_i32 split: if_splits dest!: add_var_code;
      rule exI, rule conjI, assumption, simp)

section \<open>Properties\<close>

text \<open>
  C36. The clock does not keep what it is set to: a PUT of a number in decimal, read back by a GET with the query \<open>ticks\<close>, gives that number, and
  what has passed since, plus 48 for each of its digits at its place, as the character codes are added up and not the digits.
\<close>

theorem clock_set_to_codes:
  assumes "hnd_put_time L st token (dec_digits n) r = (r1, st1)" and "ex_clock_base st1 \<noteq> 0"
    and "eq_query q = Some (ascii ''ticks'')" and "hnd_get_time L st1 peer token' (Some q) r' = Inr (r2, st2)"
    and "er_length r2 < er_max_size r2"
  shows "er_code r2 = 205
    \<and> er_data r2 = dec_digits (nat (u32 (int n + 48 * ones (length (dec_digits n))
        + el_ticks L (ex_tick st1) div el_tps L - el_ticks L (ex_tick st) div el_tps L)))"
proof -
  let ?t1 = "el_ticks L (ex_tick st) div el_tps L" and ?t2 = "el_ticks L (ex_tick st1) div el_tps L"
  let ?v = "int n + 48 * ones (length (dec_digits n))"
  have base: "ex_clock_base st1 = i32 (put_loop 0 (dec_digits n) - ?t1)"
    using assms(1) by (auto simp: hnd_put_time_def Let_def)
  have "u32 (put_loop 0 (dec_digits n)) = u32 ?v" by (simp add: put_loop_val text_val_digits)
  then have v: "u32 (put_loop 0 (dec_digits n) - ?t1) = u32 (?v - ?t1)" by (metis u32_cong(3))
  have "u32 (i32 (ex_clock_base st1 + ?t2)) = u32 (u32 (ex_clock_base st1) + ?t2)" by (simp add: u32_cong)
  also have "\<dots> = u32 (u32 (?v - ?t1) + ?t2)" unfolding base u32_i32 v ..
  also have "\<dots> = u32 (?v + ?t2 - ?t1)" unfolding u32_cong by (simp add: algebra_simps)
  finally have now: "u32 (i32 (ex_clock_base st1 + ?t2)) = u32 (?v + ?t2 - ?t1)" .
  have "ticks_query (eq_query q)" by (simp add: assms(3) ticks_query_def)
  from get_time_ticks [OF assms(2) this assms(4)] obtain r5
    where p: "print_data (dec_digits (nat (u32 (i32 (ex_clock_base st1 + ?t2))))) r5 = Inr r2" and c: "er_code r5 = 205" by blast
  from p have "r2 = r5\<lparr>er_data := take (nat (er_max_size r5 - er_length r5) - 1) (dec_digits (nat (u32 (?v + ?t2 - ?t1)))),
      er_length := er_length r5 + int (length (dec_digits (nat (u32 (?v + ?t2 - ?t1)))))\<rparr>"
    unfolding now by (auto simp: print_data_def split: if_splits)
  with c assms(5) show ?thesis by simp
qed

definition example_lib :: "unit ex_lib" where
  "example_lib = \<lparr>el_tps = 10, el_clock_offset = 1000, el_encode_var = (\<lambda>v. if v = 0 then [] else [word_of_int v]),
     el_option_length = (\<lambda>opt bs. 1 + int (length bs)), el_ticks = (\<lambda>n. 10 * int n), el_register = (\<lambda>n. Some (7, 10 * int n)),
     el_pdu = (\<lambda>n. True), el_message_id = int, el_response = (\<lambda>n. \<lparr>er_code = 0, er_options = [], er_data = [], er_length = 4, er_max_size = 100\<rparr>),
     el_select = (\<lambda>n t. Select_timeout), el_received = (\<lambda>n. []), el_notified = (\<lambda>n. []), el_notify_state = (\<lambda>n. (0, 0)),
     el_peek_next = (\<lambda>q. None), el_retransmit = id\<rparr>"

definition example_start :: "unit example" where
  "example_start = \<lparr>ex_quit = 0, ex_clock_base = 1000, ex_async = None, ex_dirty = 0, ex_observe = 0, ex_observers = [], ex_replies = [],
     ex_sent = [], ex_queue = (), ex_tick = 0\<rparr>"

definition example_request :: "byte list option \<Rightarrow> ex_request" where
  "example_request query = \<lparr>eq_id = 3, eq_peer = 5, eq_token = [], eq_observe = False, eq_query = query, eq_data = []\<rparr>"

lemma example_lib_fields [simp]:
  "el_tps example_lib = 10" "el_ticks example_lib k = 10 * int k" "el_register example_lib k = Some (7, 10 * int k)" "el_pdu example_lib k"
  "el_encode_var example_lib v = (if v = 0 then [] else [word_of_int v])" "el_option_length example_lib opt bs = 1 + int (length bs)"
  "el_response example_lib k = \<lparr>er_code = 0, er_options = [], er_data = [], er_length = 4, er_max_size = 100\<rparr>"
  by (simp_all add: example_lib_def)

lemma example_start_fields [simp]:
  "ex_quit example_start = 0" "ex_clock_base example_start = 1000" "ex_async example_start = None" "ex_sent example_start = []"
  "ex_tick example_start = 0" "ex_observe example_start = 0"
  by (simp_all add: example_start_def)

lemma example_request_fields [simp]:
  "eq_query (example_request v) = v" "eq_observe (example_request v) = False" "eq_token (example_request v) = []"
  by (simp_all add: example_request_def)

lemma clock_example_run:
  "\<exists>r1 st1 r2 st2. hnd_put_time example_lib example_start [] (dec_digits 12) (el_response example_lib 0) = (r1, st1)
     \<and> ex_clock_base st1 = 540 \<and> ex_tick st1 = 1
     \<and> hnd_get_time example_lib st1 5 [] (Some (example_request (Some (ascii ''ticks'')))) (el_response example_lib 0) = Inr (r2, st2)
     \<and> er_length r2 < er_max_size r2"
proof -
  have d: "dec_digits 12 = [49, 50]" by (simp add: dec_digits.simps digit_def)
  obtain r1 st1 where p: "hnd_put_time example_lib example_start [] (dec_digits 12) (el_response example_lib 0) = (r1, st1)" by force
  then have st1: "ex_clock_base st1 = 540" "ex_tick st1 = 1" "ex_dirty st1 = 1" "ex_observe st1 = 0"
    by (auto simp: d hnd_put_time_def Let_def ex_next_def i32_def)
  have l: "length (dec_digits 541) = 3" by (simp add: dec_digits.simps)
  have "\<exists>r2 st2. hnd_get_time example_lib st1 5 [] (Some (example_request (Some (ascii ''ticks'')))) (el_response example_lib 0)
      = Inr (r2, st2) \<and> er_length r2 < er_max_size r2"
    using l by (simp add: hnd_get_time_def st1 ticks_query_def add_var_def add_option_def add_token_def print_data_def i32_def u32_def)
  with p st1 show ?thesis by blast
qed

theorem clock_set_to_codes_witness:
  "\<exists>r1 st1 r2 st2. hnd_put_time example_lib example_start [] (dec_digits 12) (el_response example_lib 0) = (r1, st1)
     \<and> hnd_get_time example_lib st1 5 [] (Some (example_request (Some (ascii ''ticks'')))) (el_response example_lib 0) = Inr (r2, st2)
     \<and> er_data r2 = dec_digits 541"
proof -
  obtain r1 st1 r2 st2 where p: "hnd_put_time example_lib example_start [] (dec_digits 12) (el_response example_lib 0) = (r1, st1)"
    and b: "ex_clock_base st1 = 540" "ex_tick st1 = 1"
    and g: "hnd_get_time example_lib st1 5 [] (Some (example_request (Some (ascii ''ticks'')))) (el_response example_lib 0) = Inr (r2, st2)"
    and l: "er_length r2 < er_max_size r2"
    using clock_example_run by blast
  have n: "ex_clock_base st1 \<noteq> 0" and q: "eq_query (example_request (Some (ascii ''ticks''))) = Some (ascii ''ticks'')"
    using b by (simp_all add: example_request_def)
  have "length (dec_digits 12) = 2" by (simp add: dec_digits.simps)
  then have "ones (length (dec_digits 12)) = 11" by (simp add: numeral_eq_Suc)
  with clock_set_to_codes [OF p n q g l] b have "er_data r2 = dec_digits 541"
    by (simp add: u32_def)
  with p g show ?thesis by blast
qed

text \<open>
  C28. A request to \<open>async\<close> with a decimal delay is answered once, and not before its time: whatever else is asked of that resource and however
  often the state is checked before the delay is over, nothing is sent and the state stays; the first check after it, with memory, sends
  \<open>done\<close> in a confirmable message with the token of the request to its peer, and the resource is free again. Until then
  a request with another id gets 5.03.
\<close>

theorem late_answer:
  fixes r :: ex_response
  assumes "ex_async st = None" and "eq_query q = Some (dec_digits n)" and "el_register L (ex_tick st) = Some (i, created)"
    and "\<forall>now. Check_async now \<in> set es \<longrightarrow> now < u32 (created + el_tps L * int n)"
    and "u32 (created + el_tps L * int n) \<le> now" and "\<forall>k. el_pdu L k"
  defines "st1 \<equiv> run_async L es (snd (hnd_get_async L st q r))"
  shows "ex_sent st1 = ex_sent st
    \<and> (\<forall>q' r'. eq_id q' \<noteq> i \<longrightarrow> hnd_get_async L st1 q' r' = (r'\<lparr>er_code := 503\<rparr>, st1))
    \<and> (\<exists>m. ex_sent (check_async L now st1) = ex_sent st @ [m] \<and> em_peer m = eq_peer q \<and> em_confirm m
        \<and> em_token m = (if eq_token q \<noteq> [] then Some (eq_token q) else None) \<and> em_data m = ascii ''done'')
    \<and> ex_async (check_async L now st1) = None"
proof -
  let ?a = "\<lparr>ea_id = i, ea_peer = eq_peer q, ea_token = eq_token q, ea_confirm = True, ea_created = created,
    ea_appdata = u32 (el_tps L * delay_loop 0 (dec_digits n))\<rparr>"
  let ?st = "snd (hnd_get_async L st q r)"
  have st: "ex_async ?st = Some ?a" "ex_sent ?st = ex_sent st"
    using assms(1-3) by (simp_all add: hnd_get_async_def)
  have "u32 (delay_loop 0 (dec_digits n)) = u32 (int n)" by (simp add: delay_loop_val text_val_digits)
  then have "u32 (el_tps L * delay_loop 0 (dec_digits n)) = u32 (el_tps L * int n)" by (metis mult.commute u32_cong(4))
  then have due: "u32 (ea_created ?a + ea_appdata ?a) = u32 (created + el_tps L * int n)" by (simp add: u32_cong)
  have st1: "st1 = ?st" unfolding st1_def by (rule run_async_waits [OF st(1)]) (use assms(4) due in simp)
  have "ex_sent (check_async L now ?st) = ex_sent st @ [done_message (el_message_id L (ex_tick ?st)) ?a]"
    "ex_async (check_async L now ?st) = None"
    using assms(5,6) due st by (simp_all add: check_async_def)
  moreover have "hnd_get_async L ?st q' r' = (r'\<lparr>er_code := 503\<rparr>, ?st)" if "eq_id q' \<noteq> i" for q' r'
    using that unfolding hnd_get_async_def [of L ?st] st(1) by simp
  ultimately show ?thesis unfolding st1 using st(2) by (simp add: done_message_def)
qed

theorem late_answer_witness:
  "ex_sent (check_async example_lib 120 (run_async example_lib [Check_async 50, Get_async (example_request None) (el_response example_lib 0),
      Check_async 119] (snd (hnd_get_async example_lib example_start (example_request (Some (dec_digits 12))) (el_response example_lib 0))))) \<noteq> []"
proof -
  let ?es = "[Check_async 50, Get_async (example_request None) (el_response example_lib 0), Check_async 119]"
  let ?q = "example_request (Some (dec_digits 12))"
  have q: "eq_query ?q = Some (dec_digits 12)" and g: "el_register example_lib (ex_tick example_start) = Some (7, 0)" by simp_all
  have e: "\<forall>now. Check_async now \<in> set ?es \<longrightarrow> now < u32 (0 + el_tps example_lib * int 12)"
    and n: "u32 (0 + el_tps example_lib * int 12) \<le> 120" and m: "\<forall>k. el_pdu example_lib k"
    by (simp_all add: u32_def del: example_lib_fields(7))
  from late_answer [OF example_start_fields(3) q g e n m, of "el_response example_lib 0"] show ?thesis
    by (elim conjE exE) (simp only: snoc_eq_iff_butlast simp_thms)
qed

text \<open>
  The example never ends by itself: \<open>quit\<close> is set by nobody, as the signal handler is not installed. It returns only if it gets no context, and
  then with -1.
\<close>

theorem example_never_ends:
  assumes "ex_quit st = 0"
  shows "example_main L fuel rounds addr_size coap_new_context result st = Inr v
    \<longleftrightarrow> get_context addr_size coap_new_context result = None \<and> v = -1"
proof (cases "get_context addr_size coap_new_context result")
  case (Some c)
  obtain rs st1 where i: "init_resources L st = (rs, st1)" by force
  then have "ex_quit st1 = 0" using assms by (auto simp: init_resources_def)
  then have "ex_loop L fuel rs rounds st1 \<noteq> Inr st'" for st' by (rule ex_loop_goes_on)
  with Some i show ?thesis by (simp add: example_main_def bindR_Inr_iff)
qed (auto simp: example_main_def)

theorem example_never_ends_witness: "example_main example_lib 1 5 28 (\<lambda>_. None) None example_start = Inr (-1)"
  using example_never_ends [of example_start example_lib 1 5 28 "\<lambda>_. None" None "-1"] by (simp add: get_context_def)

text \<open>
  The timeout of \<open>select\<close> compares ticks with seconds: a message that has to be sent again in more than two ticks is waited for two whole
  seconds, however close it is, and so may be sent too late; one that is due within two ticks is waited for exactly, in microseconds rounded down.
\<close>

theorem select_oversleeps:
  assumes "now < t" and "t < 4294967296" and "0 \<le> now" and "now + 2 < 4294967296" and "0 < el_tps L" and "el_tps L \<le> 4294"
  shows "(now + 2 < t \<longrightarrow> select_timeout L now (Some t) = (2, 0))
    \<and> (t \<le> now + 2 \<longrightarrow> (case select_timeout L now (Some t) of (sec, usec) \<Rightarrow>
        sec * 1000000 + usec = (t - now) * 1000000 div el_tps L))"
proof -
  let ?d = "t - now" and ?p = "el_tps L"
  have id: "u32 ?d = ?d" and n2: "u32 (now + 2) = now + 2" using assms by (simp_all add: u32_def)
  have r: "0 \<le> ?d mod ?p" "?d mod ?p < ?p" using assms(5) by simp_all
  have u: "u32 (?d mod ?p * 1000000) = ?d mod ?p * 1000000"
    unfolding u32_def by (rule mod_pos_pos_trivial) (use r assms(6) in linarith)+
  have "?d * 1000000 = (?d div ?p * 1000000) * ?p + ?d mod ?p * 1000000"
  proof -
    have "?d * 1000000 = (?d div ?p * ?p + ?d mod ?p) * 1000000" by simp
    then show ?thesis by (simp only: distrib_right mult.assoc mult.commute [of ?p])
  qed
  then have q: "?d * 1000000 div ?p = ?d div ?p * 1000000 + ?d mod ?p * 1000000 div ?p"
    using assms(5) by simp
  have "select_timeout L now (Some t) = (if t \<le> now + 2 then (?d div ?p, ?d mod ?p * 1000000 div ?p) else (2, 0))"
    unfolding select_timeout_def COAP_RESOURCE_CHECK_TIME_def n2 by (simp add: id u)
  then show ?thesis unfolding q by simp
qed

theorem select_oversleeps_witness: "select_timeout example_lib 100 (Some 105) = (2, 0)"
  using select_oversleeps [of 100 105 example_lib] by simp

end

