(* ===== verification/RtpServer.thy ===== *)
theory RtpServer
  imports CoapLoop Root
begin

text \<open>
  \<open>ze_rtp_server_core.c\<close>: the thread that takes the place of the CoAP server thread when the program is built without
  \<open>COAP_SERVER\<close>. As the source stands that build fails, since a packet has no field \<open>sensor\<close>. The structures of the RTP packets, and the functions
  that make and send them, are in a library that is not in the repository: their sizes, the room they give and their fields are in \<open>rtp_lib\<close>.
\<close>

section \<open>State\<close>

text \<open>The fields of \<open>rtp_stream_t\<close> that the code uses.\<close>

record rtp_stream =
  str_ssrc :: int
  str_seqn :: int
  str_dest :: int
  str_invalid :: bool
  str_ntptwin :: int
  str_rtptwin :: int
  str_octectcount :: int
  str_packetcount :: int
  str_last_rtcp_octectcount :: int

text \<open>What is sent. Of the payload: the field \<open>sensor\<close> of its header, and the bytes copied and where to.\<close>

record rtp_pdu =
  rp_dest :: int
  rp_ptype :: int
  rp_seqn :: int
  rp_timestamp :: int
  rp_ssrc :: int
  rp_sensor :: int
  rp_offset :: nat
  rp_data :: "byte list"

record rtcp_sr =
  sr_dest :: int
  sr_ssrc :: int
  sr_ntpts :: int
  sr_rtpts :: int
  sr_ocount :: int
  sr_pcount :: int

datatype rtp_message = Rtp rtp_pdu | Rtcp rtcp_sr

text \<open>
  The context, its streams in the order of the list and as records in memory, which are never freed, the static buffer of \<open>rtp_read_dispatch\<close>, and
  the two buffers to the Streaming Manager. \<open>rc_tick\<close> counts the questions to the system.
\<close>

record rtp_server =
  rc_streams :: "int list"
  rc_stream :: "int \<rightharpoonup> rtp_stream"
  rc_dst :: int
  rc_sent :: "rtp_message list"
  rc_buf :: "byte list"
  rc_smreqbuf :: request_buf
  rc_notbuf :: response_buf
  rc_tick :: nat

text \<open>A header as the code reads it out of its bit fields: version, type, count, and length in words less one.\<close>

record rtcp_fields =
  rf_version :: int
  rf_ptype :: int
  rf_count :: int
  rf_length :: nat

text \<open>
  The library: the sizes of its structures, the bytes behind \<open>data\<close> of a PDU asked for with a length, and behind \<open>hdr\<close> of a report,
  the conversions to the types of the counters and of the sequence number, the field \<open>sensor\<close>, the readers of headers, and \<open>LL_APPEND\<close> and \<open>LL_DELETE\<close>.
  Then the answers to the n-th question: whether there is memory, the clock, random numbers, the socket, and what the Streaming Manager does
  to the response buffer meanwhile. \<open>pl_literal\<close> is the low byte of the address of
  a string literal.
\<close>

record rtp_lib =
  pl_payload_hdr_size :: nat
  pl_rtcp_hdr_size :: nat
  pl_sr_size :: nat
  pl_rr_size :: nat
  pl_sdes_size :: nat
  pl_item_size :: nat
  pl_data_room :: "nat \<Rightarrow> nat"
  pl_sr_room :: nat
  pl_count :: "int \<Rightarrow> int"
  pl_seqn :: "int \<Rightarrow> int"
  pl_sensor :: "sm_packet \<Rightarrow> int"
  pl_fields :: "byte list \<Rightarrow> rtcp_fields"
  pl_item_length :: "byte list \<Rightarrow> nat"
  pl_append :: "int list \<Rightarrow> int \<Rightarrow> int list"
  pl_delete :: "int list \<Rightarrow> int \<Rightarrow> int list outcome"
  pl_malloc :: "nat \<Rightarrow> nat \<Rightarrow> bool"
  pl_ntp :: "nat \<Rightarrow> int"
  pl_rand :: "nat \<Rightarrow> int"
  pl_stream_init :: "nat \<Rightarrow> (int \<times> rtp_stream) option"
  pl_producer :: "nat \<Rightarrow> response_buf \<Rightarrow> response_buf"
  pl_select :: "nat \<Rightarrow> select_result"
  pl_recv :: "nat \<Rightarrow> (int \<times> byte list) option"
  pl_literal :: byte

definition RTP_PAYLOAD_TYPE :: int where "RTP_PAYLOAD_TYPE = 80"
definition RTP_DEFAULT_VERSION :: int where "RTP_DEFAULT_VERSION = 2"
definition RTCP_MAX_LENGTH :: nat where "RTCP_MAX_LENGTH = 100"
definition RTP_SMREQ_RATIO :: nat where "RTP_SMREQ_RATIO = 5"

definition rc_next :: "rtp_server \<Rightarrow> rtp_server" where
  "rc_next st = st\<lparr>rc_tick := rc_tick st + 1\<rparr>"

section \<open>Reading the socket\<close>

text \<open>A structure of \<open>n\<close> bytes at an offset of a block.\<close>

definition read_block :: "byte list \<Rightarrow> nat \<Rightarrow> nat \<Rightarrow> byte list outcome" where
  "read_block bs off n = (if off + n \<le> length bs then Inr (take n (drop off bs)) else Inl OutOfBounds)"

text \<open>
  The pointer to the block is cast to one to its own structure, and the size of the header is added to that: the offset is a product of two
  sizes.
\<close>

definition interpret_rr :: "rtp_lib \<Rightarrow> byte list \<Rightarrow> int outcome" where
  "interpret_rr L chunk =
     bindR (read_block chunk 0 (pl_rtcp_hdr_size L)) (\<lambda>hdr.
     if rf_count (pl_fields L hdr) > 1 then Inr (-1)
     else bindR (read_block chunk (pl_rtcp_hdr_size L * pl_rr_size L) (pl_rr_size L)) (\<lambda>rr. Inr 0))"

text \<open>
  \<open>s\<close> is the copy of the name; the byte that should end it comes from the address of \<open>"\0"\<close>, and then it is printed.
\<close>

definition interpret_sdes :: "rtp_lib \<Rightarrow> bool \<Rightarrow> byte list \<Rightarrow> int outcome" where
  "interpret_sdes L malloc_s chunk =
     (let S = pl_sdes_size L; I = pl_item_size L; at_item = (S + 4) * S
      in bindR (read_block chunk 0 S) (\<lambda>hdr.
         if rf_count (pl_fields L hdr) > 1 then Inr (-1)
         else bindR (read_block chunk (S * S) 4) (\<lambda>chunkssrc.
              bindR (read_block chunk at_item I) (\<lambda>item.
              if \<not> malloc_s then Inl NullDeref
              else bindR (read_block chunk (at_item + I * I) (pl_item_length L item)) (\<lambda>s.
                   if 0 \<in> set (s @ [pl_literal L]) then Inr 0 else Inl OutOfBounds)))))"

text \<open>A receiver report and a description of the source behind it. \<open>malloc i\<close> is whether the i-th \<open>malloc\<close> has memory.\<close>

definition dispatch_reports :: "rtp_lib \<Rightarrow> (nat \<Rightarrow> bool) \<Rightarrow> byte list \<Rightarrow> int outcome" where
  "dispatch_reports L malloc buf =
     bindR (read_block buf 0 (pl_rtcp_hdr_size L)) (\<lambda>h.
     let rrtemp = pl_fields L h
     in if rf_version rrtemp \<noteq> RTP_DEFAULT_VERSION \<or> rf_ptype rrtemp \<noteq> 201 then Inr (-1)
        else
          let rrlength = (rf_length rrtemp + 1) * 4; at_sdes = rrlength * pl_rtcp_hdr_size L
          in bindR (read_block buf at_sdes (pl_sdes_size L)) (\<lambda>d.
             let sdestemp = pl_fields L d
             in if rf_version sdestemp \<noteq> RTP_DEFAULT_VERSION \<or> rf_ptype sdestemp \<noteq> 202 then Inr (-1)
                else if \<not> malloc 0 then Inr (-1)
                else
                  bindR (read_block buf 0 rrlength) (\<lambda>rr.
                  bindR (interpret_rr L rr) (\<lambda>_.
                  if \<not> malloc 1 then Inr (-1)
                  else bindR (read_block buf at_sdes ((rf_length sdestemp + 1) * 4)) (\<lambda>sdes.
                       bindR (interpret_sdes L (malloc 2) sdes) (\<lambda>_. Inr 0))))))"

definition rtp_read_dispatch :: "rtp_lib \<Rightarrow> rtp_server \<Rightarrow> (int \<times> rtp_server) outcome" where
  "rtp_read_dispatch L st =
     (case pl_recv L (rc_tick st) of
        None \<Rightarrow> Inr (-1, rc_next st)
      | Some (src, datagram) \<Rightarrow>
          let bs = take RTCP_MAX_LENGTH datagram;
              buf = bs @ drop (length bs) (rc_buf st);
              st1 = (rc_next st)\<lparr>rc_buf := buf\<rparr>
          in if bs = [] then Inr (-1, st1)
             else if buf ! 0 = 15 \<and> length bs = 1 then Inr (2, st1\<lparr>rc_dst := src\<rparr>)
             else bindR (dispatch_reports L (pl_malloc L (rc_tick st)) buf) (\<lambda>v. Inr (v, st1)))"

section \<open>Sending\<close>

text \<open>
  \<open>a / b\<close> rounded to \<open>p\<close> bits, also where that is \<open>2 ^ p\<close> and more: the result is a number of units of \<open>2 ^ e\<close>.
\<close>

definition fp_round_wide :: "nat \<Rightarrow> nat \<Rightarrow> nat \<Rightarrow> nat \<times> nat" where
  "fp_round_wide p a b =
     (if a = 0 then (0, 0)
      else if a < 2 ^ p * b then fp_round p a b
      else (case find (\<lambda>e. a < 2 ^ (p + e) * b) [0..<128] of
              Some e \<Rightarrow> (round_half_even a (b * 2 ^ e) * 2 ^ e, 0)
            | None \<Rightarrow> (a div b, 0)))"

text \<open>
  \<open>(int)(ntpdiff*freqdiv)\<close>: \<open>freqdiv\<close> is a \<open>float\<close>, \<open>ntpdiff\<close> is turned into one, and their product is rounded and cut. A result that no \<open>int\<close> holds
  is undefined.
\<close>

definition freqdiv :: "nat \<times> nat" where
  "freqdiv = fp_round 24 1000 1000000000"

definition rtp_ticks_since :: "int \<Rightarrow> int outcome" where
  "rtp_ticks_since ntpdiff =
     (let (m, k) = freqdiv; (n, j) = fp_round_wide 24 (nat ntpdiff) 1;
          ticks = int (fp_trunc (fp_round_wide 24 (m * n) (2 ^ (k + j))))
      in if ticks < 2147483648 then Inr ticks else Inl BadConversion)"

text \<open>The sender report, whose fields are written at the size of the header, squared, behind it.\<close>

definition rtp_send_report :: "rtp_lib \<Rightarrow> rtp_stream \<Rightarrow> rtp_server \<Rightarrow> rtp_server outcome" where
  "rtp_send_report L str st =
     (if \<not> pl_malloc L (rc_tick st) 1 then Inl NullDeref
      else if pl_rtcp_hdr_size L * pl_rtcp_hdr_size L + pl_sr_size L > pl_sr_room L then Inl OutOfBounds
      else
        let ntp = u64 (pl_ntp L (rc_tick st))
        in bindR (rtp_ticks_since (u64 (ntp - str_ntptwin str))) (\<lambda>ticks.
           Inr (st\<lparr>rc_sent := rc_sent st @ [Rtcp \<lparr>sr_dest = str_dest str, sr_ssrc = str_ssrc str, sr_ntpts = ntp,
             sr_rtpts = u32 (str_rtptwin str + ticks), sr_ocount = str_octectcount str, sr_pcount = str_packetcount str\<rparr>]\<rparr>)))"

text \<open>
  \<open>pht = pht + sizeof(rtp_payload_hdr_t)\<close> moves by the size of the header, squared, and the data is copied there. How much room a PDU
  has is the library's answer \<open>pl_data_room\<close>; a write past it is undefined, which is the end of the run here, where the C code would go on
  with whatever it has overwritten.
\<close>

definition cook_pdu :: "rtp_lib \<Rightarrow> rtp_stream \<Rightarrow> sm_packet \<Rightarrow> rtp_pdu outcome" where
  "cook_pdu L str pk =
     (let H = pl_payload_hdr_size L; len = nat (pk_length pk); room = pl_data_room L (len + H)
      in if pk_length pk < 0 then Inl OutOfBounds
         else if room < H then Inl OutOfBounds
         else if len \<noteq> 0 \<and> room < H * H + len then Inl OutOfBounds
         else
           let pdu = \<lparr>rp_dest = str_dest str, rp_ptype = RTP_PAYLOAD_TYPE, rp_seqn = str_seqn str mod 65536,
                 rp_timestamp = u32 (pk_rtpts pk), rp_ssrc = u32 (str_ssrc str), rp_sensor = u32 (pl_sensor L pk),
                 rp_offset = H * H, rp_data = []\<rparr>
           in (case pk_data pk of
                 None \<Rightarrow> if len = 0 then Inr pdu else Inl NullDeref
               | Some bs \<Rightarrow> if len \<le> length bs then Inr (pdu\<lparr>rp_data := take len bs\<rparr>) else Inl OutOfBounds))"

definition rtp_update :: "rtp_lib \<Rightarrow> rtp_server \<Rightarrow> int \<Rightarrow> sm_packet option \<Rightarrow> rtp_server outcome" where
  "rtp_update L st ticket packet =
     (case rc_stream st ticket of
        None \<Rightarrow> Inl NullDeref
      | Some str \<Rightarrow>
          if str_invalid str then Inr st
          else (case packet of
            None \<Rightarrow> Inl NullDeref
          | Some pk \<Rightarrow>
              if \<not> pl_malloc L (rc_tick st) 0 then Inl NullDeref
              else bindR (cook_pdu L str pk) (\<lambda>pdu.
                let str1 = str\<lparr>str_ntptwin := pk_ntpts pk, str_rtptwin := pk_rtpts pk, str_seqn := pl_seqn L (str_seqn str + 1),
                      str_octectcount := pl_count L (str_octectcount str + pk_length pk),
                      str_packetcount := pl_count L (str_packetcount str + 1)\<rparr>;
                    st1 = st\<lparr>rc_stream := (rc_stream st)(ticket \<mapsto> str1), rc_sent := rc_sent st @ [Rtp pdu]\<rparr>
                in bindR (if str_packetcount str1 = 1
                              \<or> str_octectcount str1 > str_last_rtcp_octectcount str1 + RTCP_SR_BANDWIDTH_THRESHOLD
                          then rtp_send_report L str1 st1 else Inr st1) (\<lambda>st2. Inr (rc_next st2)))))"

section \<open>The thread\<close>

definition rtp_serve :: "rtp_lib \<Rightarrow> rtp_server \<Rightarrow> sm_response \<Rightarrow> rtp_server outcome" where
  "rtp_serve L st req =
     (if rs_rtype req = STREAM_STOPPED then
        bindR (pl_delete L (rc_streams st) (rs_ticket req)) (\<lambda>sts. Inr (st\<lparr>rc_streams := sts\<rparr>))
      else if rs_rtype req = ONESHOT then Inr st
      else if rs_rtype req = STREAM_UPDATE then rtp_update L st (rs_ticket req) (rs_pk req)
      else if rs_rtype req = INVALID_RESPONSE then Inr st
      else Inl (Exit 1))"

text \<open>\<open>while (smcount < SMREQ_RATIO)\<close>.\<close>

fun rtp_requests :: "rtp_lib \<Rightarrow> nat \<Rightarrow> rtp_server \<Rightarrow> rtp_server outcome" where
  "rtp_requests L 0 st = Inr st"
| "rtp_requests L (Suc m) st =
     (let (req, b) = get_response_buf_item zero_response (rc_notbuf st)
      in bindR (rtp_serve L (st\<lparr>rc_notbuf := b\<rparr>) req) (rtp_requests L m))"

text \<open>\<open>while (1)\<close>: the answer of \<open>select\<close> is not used, and nothing is read.\<close>

definition rtp_round :: "rtp_lib \<Rightarrow> rtp_server \<Rightarrow> rtp_server outcome" where
  "rtp_round L st =
     rtp_requests L RTP_SMREQ_RATIO ((rc_next st)\<lparr>rc_notbuf := pl_producer L (rc_tick st) (rc_notbuf st)\<rparr>)"

fun rtp_loop :: "rtp_lib \<Rightarrow> nat \<Rightarrow> rtp_server \<Rightarrow> int outcome" where
  "rtp_loop L 0 st = Inl StillWaiting"
| "rtp_loop L (Suc rounds) st = bindR (rtp_round L st) (rtp_loop L rounds)"

text \<open>\<open>while (!startsession)\<close>.\<close>

fun rtp_wait_session :: "rtp_lib \<Rightarrow> nat \<Rightarrow> rtp_server \<Rightarrow> rtp_server outcome" where
  "rtp_wait_session L 0 st = Inl StillWaiting"
| "rtp_wait_session L (Suc rounds) st =
     (case pl_select L (rc_tick st) of
        Select_ready True \<Rightarrow>
          bindR (rtp_read_dispatch L (rc_next st)) (\<lambda>(ss, st1). if ss = 2 then Inr st1 else rtp_wait_session L rounds st1)
      | _ \<Rightarrow> rtp_wait_session L rounds (rc_next st))"

definition start_rtp_stream :: "rtp_lib \<Rightarrow> (request_buf \<Rightarrow> request_buf) \<Rightarrow> rtp_server \<Rightarrow> rtp_server option" where
  "start_rtp_stream L wait st =
     (case pl_stream_init L (rc_tick st) of
        None \<Rightarrow> None
      | Some (p, str) \<Rightarrow>
          Some ((rc_next st)\<lparr>rc_streams := pl_append L (rc_streams st) p,
            rc_stream := (rc_stream st)(p \<mapsto> str\<lparr>str_ssrc := pl_rand L (rc_tick st), str_seqn := pl_seqn L (pl_rand L (rc_tick st + 1)),
              str_dest := rc_dst st\<rparr>),
            rc_smreqbuf := snd (put_request_buf_item wait (rc_smreqbuf st) SM_REQ_START ASENSOR_TYPE_ACCELEROMETER p 20)\<rparr>))"

definition ze_rtp_server_core_thread :: "rtp_lib \<Rightarrow> (request_buf \<Rightarrow> request_buf) \<Rightarrow> nat \<Rightarrow> nat \<Rightarrow> rtp_server \<Rightarrow> int outcome" where
  "ze_rtp_server_core_thread L wait waits rounds st =
     bindR (rtp_wait_session L waits st) (\<lambda>st1.
     (case start_rtp_stream L wait st1 of None \<Rightarrow> Inr (-1) | Some st2 \<Rightarrow> rtp_loop L rounds st2))"

text \<open>\<open>get_rtp_context\<close> (\<open>ze_coap_server_root.c\<close>).\<close>

definition get_rtp_context :: "nat \<Rightarrow> (addrinfo \<Rightarrow> 'c option) \<Rightarrow> addrinfo list option \<Rightarrow> 'c option" where
  "get_rtp_context addr_size rtp_new_context getaddrinfo =
     (case getaddrinfo of None \<Rightarrow> None | Some result \<Rightarrow> try_addresses addr_size rtp_new_context result)"

section \<open>Properties\<close>

lemma read_block_Inr: "read_block bs off n = Inr x \<longleftrightarrow> off + n \<le> length bs \<and> x = take n (drop off bs)"
  by (auto simp: read_block_def)

lemma rtp_loop_goes_on: "rtp_loop L rounds st \<noteq> Inr v"
  by (induction rounds arbitrary: st) (simp_all add: bindR_Inr_iff)

text \<open>
  The thread ends only where it finds no memory for its stream, with -1; it does not look at \<open>globalexit\<close>.
\<close>

theorem rtp_thread_returns:
  "ze_rtp_server_core_thread L wait waits rounds st = Inr v
    \<longleftrightarrow> (\<exists>st1. rtp_wait_session L waits st = Inr st1 \<and> pl_stream_init L (rc_tick st1) = None) \<and> v = -1"
  by (auto simp: ze_rtp_server_core_thread_def bindR_Inr_iff start_rtp_stream_def rtp_loop_goes_on split: option.splits)
    (metis option.exhaust prod.exhaust)

lemma cook_pdu_overruns:
  assumes "pl_data_room L (nat (pk_length pk) + pl_payload_hdr_size L) < pl_payload_hdr_size L * pl_payload_hdr_size L + nat (pk_length pk)"
    and "0 < pk_length pk"
  shows "cook_pdu L str pk = Inl OutOfBounds"
  using assms by (simp add: cook_pdu_def Let_def)

lemma cook_pdu_place:
  assumes "cook_pdu L str pk = Inr pdu" and "0 < pk_length pk"
  shows "rp_offset pdu = pl_payload_hdr_size L * pl_payload_hdr_size L
    \<and> (\<exists>bs. pk_data pk = Some bs \<and> rp_data pdu = take (nat (pk_length pk)) bs)
    \<and> rp_offset pdu + nat (pk_length pk) \<le> pl_data_room L (nat (pk_length pk) + pl_payload_hdr_size L)"
  using assms by (auto simp: cook_pdu_def Let_def not_less split: if_splits option.splits)

text \<open>What has been sent stays sent.\<close>

lemma report_sent:
  "rtp_send_report L str st = Inr st' \<Longrightarrow> \<exists>r. st' = st\<lparr>rc_sent := rc_sent st @ [Rtcp r]\<rparr> \<and> sr_ocount r = str_octectcount str"
  by (auto simp: rtp_send_report_def Let_def bindR_Inr_iff split: if_splits)

lemma update_sent:
  assumes "rtp_update L st t packet = Inr st'" and "rc_stream st t = Some str" and "\<not> str_invalid str"
  shows "\<exists>pk p ms. packet = Some pk \<and> cook_pdu L str pk = Inr p \<and> rc_sent st' = rc_sent st @ Rtp p # ms"
  using assms by (auto simp: rtp_update_def rc_next_def Let_def bindR_Inr_iff dest!: report_sent split: if_splits option.splits)

lemma serve_sent:
  assumes "rtp_serve L st req = Inr st'"
  shows "\<exists>ms. rc_sent st' = rc_sent st @ ms"
proof (cases "rs_rtype req = STREAM_UPDATE")
  case True
  then have u: "rtp_update L st (rs_ticket req) (rs_pk req) = Inr st'" using assms by (simp add: rtp_serve_def sm_res_codes)
  then obtain str where str: "rc_stream st (rs_ticket req) = Some str" by (auto simp: rtp_update_def split: option.splits)
  show ?thesis
  proof (cases "str_invalid str")
    case True
    with u str show ?thesis by (simp add: rtp_update_def)
  next
    case False
    from update_sent [OF u str this] show ?thesis by blast
  qed
next
  case False
  with assms show ?thesis by (auto simp: rtp_serve_def bindR_Inr_iff split: if_splits)
qed

lemma requests_sent: "rtp_requests L m st = Inr st' \<Longrightarrow> \<exists>ms. rc_sent st' = rc_sent st @ ms"
proof (induction m arbitrary: st)
  case (Suc m)
  obtain req b where g: "get_response_buf_item zero_response (rc_notbuf st) = (req, b)" by force
  then obtain st1 where r: "rtp_serve L (st\<lparr>rc_notbuf := b\<rparr>) req = Inr st1" "rtp_requests L m st1 = Inr st'"
    using Suc.prems by (auto simp: bindR_Inr_iff)
  from serve_sent [OF r(1)] Suc.IH [OF r(2)] show ?case by auto
qed simp

text \<open>
  C40. The data of a packet never goes where it belongs, right behind the payload header. The size of the header is added to a pointer to that header, and
  so counts squared: for a header of two bytes or more, an update with data, for a stream that is valid, at the head of the response
  buffer. If the library gives its PDU less room than the squared size and the data (the code asks for room for one header and the
  data, which is less), the round writes past the end of the PDU and ends in that fault; if there happens to be room, the
  first thing the round sends is a PDU with the data behind a gap, at the squared size of the header.
\<close>

theorem update_overruns:
  fixes L :: rtp_lib
  defines "H \<equiv> pl_payload_hdr_size L"
  assumes "2 \<le> H" and "\<forall>n i. pl_malloc L n i"
    and "resbuf_wf (pl_producer L (rc_tick st) (rc_notbuf st))"
    and "responses (pl_producer L (rc_tick st) (rc_notbuf st)) = q # qs"
    and "rs_rtype q = STREAM_UPDATE" and "rc_stream st (rs_ticket q) = Some str" and "\<not> str_invalid str"
    and "rs_pk q = Some pk" and "0 < pk_length pk"
  shows "nat (pk_length pk) + H < H * H + nat (pk_length pk)
    \<and> (if pl_data_room L (nat (pk_length pk) + H) < H * H + nat (pk_length pk) then rtp_round L st = Inl OutOfBounds
       else \<forall>st'. rtp_round L st = Inr st' \<longrightarrow>
         (\<exists>p ms bs. rc_sent st' = rc_sent st @ Rtp p # ms \<and> pk_data pk = Some bs
            \<and> rp_data p = take (nat (pk_length pk)) bs \<and> rp_offset p = H * H \<and> H < rp_offset p))"
proof -
  let ?b = "pl_producer L (rc_tick st) (rc_notbuf st)"
  let ?st = "(rc_next st)\<lparr>rc_notbuf := ?b\<rparr>"
  obtain q' b where g: "get_response_buf_item zero_response ?b = (q', b)" by force
  have "0 < counter ?b" using assms(5) ring_list_empty_iff [of COAP_RBUF_SIZE ?b] by (cases "counter ?b") auto
  with responses_remove [OF assms(4) g] assms(5) have q: "q' = q" by simp
  have sq: "H < H * H" using assms(2) by simp
  have round: "rtp_round L st = bindR (rtp_update L (?st\<lparr>rc_notbuf := b\<rparr>) (rs_ticket q) (Some pk)) (rtp_requests L 4)"
  proof -
    have n: "RTP_SMREQ_RATIO = Suc 4" by (simp add: RTP_SMREQ_RATIO_def)
    show ?thesis using g assms(6,9) unfolding q rtp_round_def n rtp_requests.simps
      by (simp add: rtp_serve_def sm_res_codes)
  qed
  have str: "rc_stream (?st\<lparr>rc_notbuf := b\<rparr>) (rs_ticket q) = Some str" using assms(7) by (simp add: rc_next_def)
  show ?thesis
  proof (cases "pl_data_room L (nat (pk_length pk) + H) < H * H + nat (pk_length pk)")
    case True
    then have "cook_pdu L str pk = Inl OutOfBounds" unfolding H_def by (rule cook_pdu_overruns) (rule assms(10))
    then have "rtp_update L (?st\<lparr>rc_notbuf := b\<rparr>) (rs_ticket q) (Some pk) = Inl OutOfBounds"
      using assms(3,8) str by (simp add: rtp_update_def)
    with True sq round show ?thesis by simp
  next
    case False
    have "\<exists>p ms bs. rc_sent st' = rc_sent st @ Rtp p # ms \<and> pk_data pk = Some bs
        \<and> rp_data p = take (nat (pk_length pk)) bs \<and> rp_offset p = H * H \<and> H < rp_offset p"
      if r: "rtp_round L st = Inr st'" for st'
    proof -
      from r round obtain st1 where u: "rtp_update L (?st\<lparr>rc_notbuf := b\<rparr>) (rs_ticket q) (Some pk) = Inr st1"
        and rest: "rtp_requests L 4 st1 = Inr st'" by (auto simp: bindR_Inr_iff)
      from update_sent [OF u str assms(8)] obtain p ms where
        p: "cook_pdu L str pk = Inr p" "rc_sent st1 = rc_sent st @ Rtp p # ms" by (force simp: rc_next_def)
      with cook_pdu_place [OF p(1) assms(10)] requests_sent [OF rest] sq show ?thesis by (auto simp: H_def)
    qed
    with False sq show ?thesis by simp
  qed
qed

lemma interpret_rr_overruns:
  assumes "4 \<le> pl_rtcp_hdr_size L" and "24 \<le> pl_rr_size L" and "\<forall>h. rf_count (pl_fields L h) \<le> 1" and "length chunk \<le> 100"
  shows "interpret_rr L chunk \<noteq> Inr x"
proof -
  have "4 * 24 \<le> pl_rtcp_hdr_size L * pl_rr_size L" using assms(1,2) by (rule mult_le_mono)
  with assms(2,4) have "\<not> pl_rtcp_hdr_size L * pl_rr_size L + pl_rr_size L \<le> length chunk" by linarith
  moreover have "\<not> rf_count (pl_fields L h) > 1" for h using assms(3) by (simp add: not_less)
  ultimately show ?thesis by (auto simp: interpret_rr_def bindR_Inr_iff read_block_Inr)
qed

lemma reports_not_read:
  assumes "4 \<le> pl_rtcp_hdr_size L" and "24 \<le> pl_rr_size L" and "\<forall>h. rf_count (pl_fields L h) \<le> 1"
    and "length buf = 100" and "dispatch_reports L malloc buf = Inr v"
  shows "v = -1"
proof -
  have no: "interpret_rr L (take n (drop 0 buf)) = Inr x \<longleftrightarrow> False" for n x
    using interpret_rr_overruns [OF assms(1-3), of "take n buf"] assms(4) by simp
  from assms(5) show ?thesis
    unfolding dispatch_reports_def Let_def
    by (auto simp only: bindR_Inr_iff read_block_Inr no sum.inject split: if_splits)
qed

text \<open>
  No receiver report with a block is ever understood: with the sizes of RFC 3550, at least 4 bytes for a header and 24 for a block, the offsets
  the code computes do not fit in the 100 bytes it reads, whatever arrives. The only datagram with an effect is the byte that starts the session.
\<close>

theorem receiver_reports_not_read:
  assumes "4 \<le> pl_rtcp_hdr_size L" and "24 \<le> pl_rr_size L" and "length (rc_buf st) = RTCP_MAX_LENGTH"
    and "\<forall>h. rf_count (pl_fields L h) \<le> 1" and "rtp_read_dispatch L st = Inr (v, st')"
  shows "v \<noteq> 0 \<and> (v = 2 \<or> rc_dst st' = rc_dst st) \<and> length (rc_buf st') = RTCP_MAX_LENGTH"
proof (cases "pl_recv L (rc_tick st)")
  case None
  with assms(3,5) show ?thesis by (auto simp: rtp_read_dispatch_def rc_next_def)
next
  case (Some d)
  obtain src datagram where d: "d = (src, datagram)" by force
  define bs where "bs = take RTCP_MAX_LENGTH datagram"
  have l: "length (bs @ drop (length bs) (rc_buf st)) = 100" using assms(3) by (simp add: bs_def RTCP_MAX_LENGTH_def)
  have r: "dispatch_reports L m (bs @ drop (length bs) (rc_buf st)) = Inr w \<Longrightarrow> w = -1" for m w
    by (rule reports_not_read [OF assms(1,2,4) l])
  show ?thesis
  proof (cases "dispatch_reports L (pl_malloc L (rc_tick st)) (bs @ drop (length bs) (rc_buf st))")
    case (Inl e)
    with assms(5) l show ?thesis
      unfolding rtp_read_dispatch_def Some d option.case prod.case Let_def bs_def [symmetric]
      by (auto simp: rc_next_def RTCP_MAX_LENGTH_def split: if_splits)
  next
    case (Inr w)
    with assms(5) l r [OF Inr] show ?thesis
      unfolding rtp_read_dispatch_def Some d option.case prod.case Let_def bs_def [symmetric]
      by (auto simp: rc_next_def RTCP_MAX_LENGTH_def split: if_splits)
  qed
qed

text \<open>Updates of one stream, one after the other.\<close>

fun rtp_updates :: "rtp_lib \<Rightarrow> int \<Rightarrow> sm_packet list \<Rightarrow> rtp_server \<Rightarrow> rtp_server outcome" where
  "rtp_updates L ticket [] st = Inr st"
| "rtp_updates L ticket (pk # pks) st = bindR (rtp_update L st ticket (Some pk)) (rtp_updates L ticket pks)"

definition rtp_pdus :: "rtp_message list \<Rightarrow> rtp_pdu list" where
  "rtp_pdus ms = [p. Rtp p \<leftarrow> ms]"

definition rtcp_reports :: "rtp_message list \<Rightarrow> rtcp_sr list" where
  "rtcp_reports ms = [r. Rtcp r \<leftarrow> ms]"

lemma cook_pdu_fields:
  assumes "cook_pdu L str pk = Inr pdu"
  shows "rp_seqn pdu = str_seqn str mod 65536 \<and> rp_timestamp pdu = u32 (pk_rtpts pk) \<and> 0 \<le> pk_length pk"
  using assms by (auto simp: cook_pdu_def Let_def split: if_splits option.splits)

text \<open>One update of a stream that is over the threshold, in the range of the counters.\<close>

lemma update_reported:
  assumes u: "rtp_update L st t (Some pk) = Inr st'"
    and s: "rc_stream st t = Some str" "\<not> str_invalid str" "str_last_rtcp_octectcount str + 1000 < str_octectcount str"
    and c: "pl_count L (str_octectcount str + pk_length pk) = str_octectcount str + pk_length pk"
    and q: "\<forall>x. pl_seqn L x mod 65536 = x mod 65536"
  shows "\<exists>p r str'. rc_sent st' = rc_sent st @ [Rtp p, Rtcp r] \<and> rc_stream st' t = Some str' \<and> \<not> str_invalid str'
    \<and> str_last_rtcp_octectcount str' = str_last_rtcp_octectcount str \<and> str_octectcount str' = str_octectcount str + pk_length pk
    \<and> str_seqn str' mod 65536 = (str_seqn str + 1) mod 65536 \<and> 0 \<le> pk_length pk
    \<and> rp_seqn p = str_seqn str mod 65536 \<and> rp_timestamp p = u32 (pk_rtpts pk) \<and> sr_ocount r = str_octectcount str'"
proof -
  let ?str1 = "str\<lparr>str_ntptwin := pk_ntpts pk, str_rtptwin := pk_rtpts pk, str_seqn := pl_seqn L (str_seqn str + 1),
    str_octectcount := pl_count L (str_octectcount str + pk_length pk), str_packetcount := pl_count L (str_packetcount str + 1)\<rparr>"
  obtain p where p: "cook_pdu L str pk = Inr p" using u s by (auto simp: rtp_update_def bindR_Inr_iff split: if_splits)
  let ?st1 = "st\<lparr>rc_stream := (rc_stream st)(t \<mapsto> ?str1), rc_sent := rc_sent st @ [Rtp p]\<rparr>"
  note f = cook_pdu_fields [OF p]
  have over: "str_octectcount ?str1 > str_last_rtcp_octectcount ?str1 + RTCP_SR_BANDWIDTH_THRESHOLD"
    using f s(3) c by (simp add: RTCP_SR_BANDWIDTH_THRESHOLD_def)
  obtain st2 where st2: "rtp_send_report L ?str1 ?st1 = Inr st2" and st': "st' = rc_next st2"
    using u s(1,2) p over by (auto simp: rtp_update_def Let_def bindR_Inr_iff split: if_splits)
  from report_sent [OF st2] obtain r where r: "st2 = ?st1\<lparr>rc_sent := rc_sent ?st1 @ [Rtcp r]\<rparr>" "sr_ocount r = str_octectcount ?str1"
    by blast
  show ?thesis
    by (rule exI [of _ p], rule exI [of _ r], rule exI [of _ ?str1]) (use r f c s q in \<open>simp add: st' rc_next_def\<close>)
qed

text \<open>
  Where the updates of a stream get through, their packets carry the RTP times of the samples and sequence numbers that count up modulo 65536.
  Beyond the threshold each of them is followed by a sender report: \<open>last_rtcp_octectcount\<close> is read and never written, so
  what was meant as a report for every 1000 bytes becomes one for every packet.
\<close>

theorem every_packet_reported:
  assumes "rtp_updates L t pks st = Inr st'" and "rc_stream st t = Some str" and "\<not> str_invalid str"
    and "str_last_rtcp_octectcount str + 1000 < str_octectcount str" and "0 \<le> str_octectcount str"
    and "str_octectcount str + sum_list (map pk_length pks) < 4294967296"
    and count: "\<forall>x. 0 \<le> x \<and> x < 4294967296 \<longrightarrow> pl_count L x = x" and seqn: "\<forall>x. pl_seqn L x mod 65536 = x mod 65536"
    and len: "\<forall>pk\<in>set pks. 0 \<le> pk_length pk"
  shows "\<exists>ms. rc_sent st' = rc_sent st @ ms
    \<and> map rp_seqn (rtp_pdus ms) = map (\<lambda>i. (str_seqn str + int i) mod 65536) [0..<length pks]
    \<and> map rp_timestamp (rtp_pdus ms) = map (\<lambda>pk. u32 (pk_rtpts pk)) pks
    \<and> length (rtcp_reports ms) = length pks"
  using assms(1-6) len
proof (induction pks arbitrary: st str)
  case Nil
  then show ?case by (simp add: rtp_pdus_def rtcp_reports_def)
next
  case (Cons pk pks)
  from Cons.prems(1) obtain st1 where u: "rtp_update L st t (Some pk) = Inr st1" and us: "rtp_updates L t pks st1 = Inr st'"
    by (auto simp: bindR_Inr_iff)
  have sum: "0 \<le> sum_list (map pk_length pks)" by (rule sum_list_nonneg) (use Cons.prems(7) in auto)
  have "pl_count L (str_octectcount str + pk_length pk) = str_octectcount str + pk_length pk"
    using count Cons.prems(5-7) sum by simp
  from update_reported [OF u Cons.prems(2-4) this seqn] obtain p r str' where
    sent: "rc_sent st1 = rc_sent st @ [Rtp p, Rtcp r]" and str': "rc_stream st1 t = Some str'" "\<not> str_invalid str'"
    "str_last_rtcp_octectcount str' = str_last_rtcp_octectcount str" "str_octectcount str' = str_octectcount str + pk_length pk"
    and n: "str_seqn str' mod 65536 = (str_seqn str + 1) mod 65536" and l: "0 \<le> pk_length pk"
    and p: "rp_seqn p = str_seqn str mod 65536" "rp_timestamp p = u32 (pk_rtpts pk)" by blast
  have "\<exists>ms. rc_sent st' = rc_sent st1 @ ms
      \<and> map rp_seqn (rtp_pdus ms) = map (\<lambda>i. (str_seqn str' + int i) mod 65536) [0..<length pks]
      \<and> map rp_timestamp (rtp_pdus ms) = map (\<lambda>pk. u32 (pk_rtpts pk)) pks \<and> length (rtcp_reports ms) = length pks"
    by (rule Cons.IH [OF us str'(1,2)]) (use str' l Cons.prems(4-7) in simp_all)
  then obtain ms where ms: "rc_sent st' = rc_sent st1 @ ms"
    "map rp_seqn (rtp_pdus ms) = map (\<lambda>i. (str_seqn str' + int i) mod 65536) [0..<length pks]"
    "map rp_timestamp (rtp_pdus ms) = map (\<lambda>pk. u32 (pk_rtpts pk)) pks" "length (rtcp_reports ms) = length pks" by blast
  have "(str_seqn str' + int i) mod 65536 = (str_seqn str + int (Suc i)) mod 65536" for i
    using mod_add_cong [OF n refl, of "int i"] by (simp add: algebra_simps)
  then have "map (\<lambda>i. (str_seqn str' + int i) mod 65536) [0..<length pks]
      = map (\<lambda>i. (str_seqn str + int i) mod 65536) (map Suc [0..<length pks])"
    unfolding map_map comp_def by (intro map_cong refl)
  then have k: "map rp_seqn (rtp_pdus ms) = map (\<lambda>i. (str_seqn str + int i) mod 65536) [1..<Suc (length pks)]"
    using ms(2) by (simp add: map_Suc_upt)
  have upt: "[0..<length (pk # pks)] = 0 # [1..<Suc (length pks)]" by (simp add: upt_rec)
  have d: "rtp_pdus ([Rtp p, Rtcp r] @ ms) = p # rtp_pdus ms" "rtcp_reports ([Rtp p, Rtcp r] @ ms) = r # rtcp_reports ms"
    by (simp_all add: rtp_pdus_def rtcp_reports_def)
  show ?case
    by (rule exI [of _ "[Rtp p, Rtcp r] @ ms"], unfold d upt) (use sent ms k p in simp)
qed

section \<open>Samples\<close>

definition sample_rtp_lib :: "(nat \<Rightarrow> nat) \<Rightarrow> rtp_lib" where
  "sample_rtp_lib room = \<lparr>pl_payload_hdr_size = 4, pl_rtcp_hdr_size = 8, pl_sr_size = 20, pl_rr_size = 24, pl_sdes_size = 4, pl_item_size = 2,
     pl_data_room = room, pl_sr_room = 200, pl_count = u32, pl_seqn = (\<lambda>x. x mod 65536), pl_sensor = (\<lambda>pk. 1),
     pl_fields = (\<lambda>bs. \<lparr>rf_version = 2, rf_ptype = uint (bs ! 1), rf_count = 1, rf_length = 7\<rparr>), pl_item_length = (\<lambda>bs. 0),
     pl_append = (\<lambda>xs x. xs @ [x]), pl_delete = (\<lambda>xs x. Inr (remove1 x xs)), pl_malloc = (\<lambda>n i. True), pl_ntp = (\<lambda>n. 900),
     pl_rand = int, pl_stream_init = (\<lambda>n. None), pl_producer = (\<lambda>n b. b), pl_select = (\<lambda>n. Select_timeout), pl_recv = (\<lambda>n. None),
     pl_literal = 0\<rparr>"

definition sample_stream :: rtp_stream where
  "sample_stream = \<lparr>str_ssrc = 9, str_seqn = 65535, str_dest = 5, str_invalid = False, str_ntptwin = 0, str_rtptwin = 0,
     str_octectcount = 1001, str_packetcount = 10, str_last_rtcp_octectcount = 0\<rparr>"

definition sample_rtp_packet :: sm_packet where
  "sample_rtp_packet = \<lparr>pk_ntpts = 900, pk_rtpts = 450, pk_conf = COAP_MESSAGE_NON, pk_data = Some [1, 2], pk_length = 2\<rparr>"

definition sample_rtp_server :: rtp_server where
  "sample_rtp_server = \<lparr>rc_streams = [7], rc_stream = [7 \<mapsto> sample_stream], rc_dst = 5, rc_sent = [],
     rc_buf = replicate 100 0, rc_smreqbuf = fresh_smreqbuf,
     rc_notbuf = ring_insert COAP_RBUF_SIZE \<lparr>rs_rtype = STREAM_UPDATE, rs_ticket = 7, rs_pk = Some sample_rtp_packet\<rparr> fresh_notbuf,
     rc_tick = 0\<rparr>"

lemma sample_notbuf:
  "resbuf_wf (rc_notbuf sample_rtp_server)"
  "responses (rc_notbuf sample_rtp_server) = [\<lparr>rs_rtype = STREAM_UPDATE, rs_ticket = 7, rs_pk = Some sample_rtp_packet\<rparr>]"
proof -
  have "init_coap_buf True = Some fresh_notbuf" unfolding fresh_notbuf_def by (simp add: init_coap_buf_def)
  from init_coap_buf_wf [OF this] have w: "resbuf_wf fresh_notbuf" and e: "responses fresh_notbuf = []" by blast+
  have "counter fresh_notbuf = 0" using e by simp
  then have c: "counter fresh_notbuf < COAP_RBUF_SIZE" by simp
  show "resbuf_wf (rc_notbuf sample_rtp_server)"
    unfolding sample_rtp_server_def rtp_server.simps by (rule ring_insert_wf [OF w c])
  show "responses (rc_notbuf sample_rtp_server) = [\<lparr>rs_rtype = STREAM_UPDATE, rs_ticket = 7, rs_pk = Some sample_rtp_packet\<rparr>]"
    unfolding sample_rtp_server_def rtp_server.simps ring_insert_list [OF w c] e by (rule append_Nil)
qed

lemma requests_empty: "counter (rc_notbuf st) = 0 \<Longrightarrow> rtp_requests L m st = Inr st"
  by (induction m) (simp_all add: get_response_empty rtp_serve_def sm_res_codes)

lemma sample_round: "\<exists>st'. rtp_round (sample_rtp_lib (\<lambda>n. n + 100)) sample_rtp_server = Inr st'"
proof -
  let ?L = "sample_rtp_lib (\<lambda>n. n + 100)"
  obtain q b where g: "get_response_buf_item zero_response (rc_notbuf sample_rtp_server) = (q, b)" by force
  have "counter (rc_notbuf sample_rtp_server) \<noteq> 0" using sample_notbuf(2) by (metis ring_list_empty_iff list.distinct(1))
  with responses_remove [OF sample_notbuf(1) g] sample_notbuf(2)
  have q: "q = \<lparr>rs_rtype = STREAM_UPDATE, rs_ticket = 7, rs_pk = Some sample_rtp_packet\<rparr>" "responses b = []" by simp_all
  let ?st = "(rc_next sample_rtp_server)\<lparr>rc_notbuf := b\<rparr>"
  have t: "rtp_ticks_since 0 = Inr 0" by (simp add: rtp_ticks_since_def fp_round_wide_def fp_trunc_def split_def)
  obtain st1 where u: "rtp_update ?L ?st 7 (Some sample_rtp_packet) = Inr st1" "rc_notbuf st1 = b"
    by (simp add: rtp_update_def cook_pdu_def rtp_send_report_def sample_rtp_packet_def sample_rtp_lib_def sample_rtp_server_def
        sample_stream_def RTCP_SR_BANDWIDTH_THRESHOLD_def Let_def t u32_def u64_def rc_next_def)
  have n: "RTP_SMREQ_RATIO = Suc 4" by (simp add: RTP_SMREQ_RATIO_def)
  have p: "pl_producer ?L k x = x" for k x by (simp add: sample_rtp_lib_def)
  have "rtp_round ?L sample_rtp_server = rtp_requests ?L 4 st1"
    unfolding rtp_round_def n rtp_requests.simps p using g u(1) q(1) by (simp add: rtp_serve_def sm_res_codes)
  also have "\<dots> = Inr st1" by (rule requests_empty) (use u(2) q(2) in simp)
  finally show ?thesis by blast
qed

theorem update_overruns_witness:
  "rtp_round (sample_rtp_lib id) sample_rtp_server = Inl OutOfBounds
   \<and> (\<exists>st' p ms. rtp_round (sample_rtp_lib (\<lambda>n. n + 100)) sample_rtp_server = Inr st'
        \<and> rc_sent st' = Rtp p # ms \<and> rp_data p = [1, 2] \<and> rp_offset p = 16)"
proof -
  let ?q = "\<lparr>rs_rtype = STREAM_UPDATE, rs_ticket = 7, rs_pk = Some sample_rtp_packet\<rparr>"
  have h: "2 \<le> pl_payload_hdr_size (sample_rtp_lib f)" "\<forall>n i. pl_malloc (sample_rtp_lib f) n i"
    "resbuf_wf (pl_producer (sample_rtp_lib f) (rc_tick sample_rtp_server) (rc_notbuf sample_rtp_server))"
    "responses (pl_producer (sample_rtp_lib f) (rc_tick sample_rtp_server) (rc_notbuf sample_rtp_server)) = [?q]" for f
    by (simp_all add: sample_rtp_lib_def sample_notbuf)
  have s: "rs_rtype ?q = STREAM_UPDATE" "rc_stream sample_rtp_server (rs_ticket ?q) = Some sample_stream" "\<not> str_invalid sample_stream"
    "rs_pk ?q = Some sample_rtp_packet" "0 < pk_length sample_rtp_packet"
    by (simp_all add: sample_rtp_server_def sample_stream_def sample_rtp_packet_def)
  note u = update_overruns [OF h s]
  have "rtp_round (sample_rtp_lib id) sample_rtp_server = Inl OutOfBounds"
    using u [of id] by (simp add: sample_rtp_lib_def sample_rtp_packet_def)
  moreover from sample_round obtain st' where r: "rtp_round (sample_rtp_lib (\<lambda>n. n + 100)) sample_rtp_server = Inr st'" by blast
  moreover have "\<exists>p ms. rc_sent st' = Rtp p # ms \<and> rp_data p = [1, 2] \<and> rp_offset p = 16"
    using u [of "\<lambda>n. n + 100"] r
    by (auto simp: sample_rtp_packet_def sample_rtp_server_def sample_rtp_lib_def)
  ultimately show ?thesis by blast
qed

lemma sample_updates:
  "\<exists>st'. rtp_updates (sample_rtp_lib (\<lambda>n. n + 100)) 7 [sample_rtp_packet, sample_rtp_packet] sample_rtp_server = Inr st'"
proof -
  have t: "rtp_ticks_since 0 = Inr 0" by (simp add: rtp_ticks_since_def fp_round_wide_def fp_trunc_def split_def)
  show ?thesis
    by (simp add: rtp_update_def cook_pdu_def rtp_send_report_def sample_rtp_packet_def sample_rtp_lib_def sample_rtp_server_def
        sample_stream_def RTCP_SR_BANDWIDTH_THRESHOLD_def Let_def t u32_def u64_def rc_next_def)
qed

theorem every_packet_reported_witness:
  "\<exists>st' ms. rtp_updates (sample_rtp_lib (\<lambda>n. n + 100)) 7 [sample_rtp_packet, sample_rtp_packet] sample_rtp_server = Inr st'
    \<and> rc_sent st' = ms \<and> map rp_seqn (rtp_pdus ms) = [65535, 0] \<and> length (rtcp_reports ms) = 2"
proof -
  let ?L = "sample_rtp_lib (\<lambda>n. n + 100)" and ?pks = "[sample_rtp_packet, sample_rtp_packet]"
  obtain st' where u: "rtp_updates ?L 7 ?pks sample_rtp_server = Inr st'" using sample_updates by blast
  have s: "rc_stream sample_rtp_server 7 = Some sample_stream" "rc_sent sample_rtp_server = []" by (simp_all add: sample_rtp_server_def)
  have i: "\<not> str_invalid sample_stream" "str_last_rtcp_octectcount sample_stream + 1000 < str_octectcount sample_stream"
    "0 \<le> str_octectcount sample_stream" "str_octectcount sample_stream + sum_list (map pk_length ?pks) < 4294967296"
    "\<forall>pk\<in>set ?pks. 0 \<le> pk_length pk" "str_seqn sample_stream = 65535"
    by (simp_all add: sample_stream_def sample_rtp_packet_def)
  have c: "\<forall>x. 0 \<le> x \<and> x < 4294967296 \<longrightarrow> pl_count ?L x = x" "\<forall>x. pl_seqn ?L x mod 65536 = x mod 65536"
    by (simp_all add: sample_rtp_lib_def u32_def)
  from every_packet_reported [OF u s(1) i(1-4) c i(5)] show ?thesis using u s(2) i(6) by auto
qed

lemma freqdiv_eval: "freqdiv = (8796093, 43)"
proof -
  have "freqdiv = (round_half_even (1000 * 2 ^ 43) 1000000000, 43)" unfolding freqdiv_def by (rule fp_round_eval) simp_all
  also have "round_half_even (1000 * 2 ^ 43) 1000000000 = 8796093" by (simp add: round_half_even_def Let_def)
  finally show ?thesis .
qed

end
