(* ===== verification/Spec2Isabelle.thy ===== *)
theory Spec2Isabelle
  imports Stats Resources CoapServer CarrierSystem Liveness CoapLoop StreamingMain Program ExampleServer RtpServer
begin

text \<open>
  ZeSenseServer streams the samples of the sensors of an Android phone to CoAP clients. Two threads do the work and two
  ring buffers connect them. The CoAP server thread (\<open>ze_coap_server_core.c\<close>, with the handlers of
  \<open>ze_coap_resources.c\<close> and libcoap below) turns the clients' requests into START, STOP and ONESHOT requests and puts them in the
  request buffer (\<open>ze_sm_reqbuf.c\<close>); it takes STREAM_UPDATE, ONESHOT and STREAM_STOPPED responses out of the response
  buffer (\<open>ze_sm_resbuf.c\<close>) and sends them on as notifications and answers, with sender reports in between. The
  Streaming Manager thread (\<open>ze_streaming_manager.c\<close>) takes the requests, keeps for each sensor a list of streams and a
  list of oneshots, reads samples from the sensor queue and from the carriers queue (\<open>ze_carriers_queue.c\<close>, filled by the carrier
  threads of the event based sensors), encodes them and puts the responses. A ticket names a stream on both
  sides: it is the server's pointer to a registration, and the Streaming Manager promises to give it back.

  The theories, in the order they build on each other:

  \<^item> \<open>Prelude\<close>: faults as values (\<open>fault\<close>, \<open>outcome\<close>, \<open>bindR\<close>, \<open>outcome_sat\<close>; the write behind a full sample log is the fault \<open>LogOverrun\<close>,
    any other access out of bounds is \<open>OutOfBounds\<close>), integers with the wrap written out (\<open>i32\<close>, \<open>i64\<close>),
    bytes in memory and in network order, writes into a block.
  \<^item> \<open>Fifo\<close>: the contracts \<open>fifo_queue\<close> and \<open>bounded_fifo\<close> of a queue, with the laws of any run of puts and gets, and the ring
    that both buffers are.
  \<^item> \<open>RequestBuffer\<close>, \<open>ResponseBuffer\<close>, \<open>CarriersQueue\<close>: the three queues, each an interpretation of its contract. The request
    buffer also as a step relation of the waiting producer, since its wait is under \<open>if\<close>; the timed wait of the response
    buffer is a parameter.
  \<^item> \<open>Types\<close>, \<open>FormatE\<close>, \<open>Payload\<close>: events, packets, \<open>sprintf("%e")\<close> of a float as exact integer arithmetic, and \<open>encode\<close> with the
    byte layout and its decoder.
  \<^item> \<open>SmState\<close>: the state of the Streaming Manager thread (\<open>stream_context_t\<close> and the locals of the loop) and the world: every
    call outside reads the next answer of an arbitrary sequence, calls with an effect are recorded.
  \<^item> \<open>Sensors\<close>, \<open>Streams\<close>: the sensor helpers, and starting and stopping streams with the invariant of the streams and the contract \<open>ticket_table\<close>.
  \<^item> \<open>Helpers\<close>: the anti-deadlock wrappers. The loop of \<open>put_response_helper\<close> runs for as long as its wait times out, so it has fuel; as many
    rounds as waits that time out are enough (\<open>put_response_helper_returns\<close>), and the theorems about an iteration hold for every fuel.
  \<^item> \<open>StreamingThread\<close>: the body of the loop. \<open>ThreadInvariant\<close>: the step relation of the system, its reachable states, the invariant and the faults.
    \<open>ThreadFrame\<close>: the contracts \<open>hardware_frame\<close>, \<open>round_frame\<close>, \<open>stream_frame\<close> and \<open>thread_frame\<close>, which lift a relation that the primitive
    changes respect to the sensor helpers, the rounds of samples and a whole iteration, with one interpretation for the buffers, the carrier flags,
    the caches, the carriers queue and the world. \<open>IdleSensors\<close>: a second one, for the sensors without streams, whose frequency is zero in
    every reachable state. \<open>Delivery\<close>: what one event
    turns into. \<open>Tickets\<close>: what serving one request does to the tickets. \<open>TicketProtocol\<close>: the promise on tickets over whole runs; it speaks of the
    requests put and the responses taken so far, a history in the world that no operation reads. \<open>Liveness\<close>: the requests that wait are served.
  \<^item> \<open>Binary64\<close>, \<open>ReportTime\<close>, \<open>StatsText\<close>: C's \<open>double\<close> as exact integer arithmetic, for the period of a carrier thread, the RTP time of a
    sender report, and the averages of the statistics. \<open>Stats\<close>: the logs of samples and the statistics.
  \<^item> \<open>Carrier\<close>, \<open>CarrierSystem\<close>: the carrier threads (\<open>ze_carrier.c\<close>), one move per statement that touches shared state, and the system in which they run
    between the iterations of the Streaming Manager. An iteration is one step there, though \<open>is_active\<close> and \<open>carrier_thread_started\<close> have no mutex.
  \<^item> \<open>Resources\<close>, \<open>CoapServer\<close>, \<open>CoapLoop\<close>, \<open>ServerStats\<close>: the handlers and the resource tree; the service of responses and the sender
    reports; the loop of the server thread, whose retransmissions and rounds have fuel (\<open>server_thread_ends\<close> says how much is enough). libcoap's calls run
    handlers that can wait for room in the request buffer without a time limit, so they may not come back (\<open>Inl StillWaiting\<close>), and the thread
    ends only if they do; the statistics it writes. \<open>EndToEnd\<close>: from a sample to the subscribers.
    \<open>Program\<close>: the whole program as one step relation, both threads over the shared buffers and the registrations, with what it asks of libcoap's
    reference counts; every run of it is a run of the system of the Streaming Manager, and no step uses a registration that is gone.
  \<^item> \<open>Root\<close>, \<open>StreamingMain\<close>: the set-up, launch and end of the program (\<open>ze_coap_server_root.c\<close>), and the Streaming Manager thread from its start to its
    return. The waits for \<open>globalexit\<close> have fuel: a loop still running when it is spent is the fault \<open>StillWaiting\<close>, and
    \<open>root_returns\<close> gives the fuel that is enough. How a thread ends is an answer of the environment of the root (\<open>ro_thread_end\<close>), since a join comes
    back only from a thread that returns; \<open>root_blocked_by_carriers\<close> ties that answer to the model of the Streaming Manager thread.
  \<^item> \<open>ExampleServer\<close>: libcoap's example server (\<open>ze_coap_server_example.c\<close>), a program of its own beside the rest and not in the build: its clock,
    its late answer, the timeout it waits for, and its loop, which has fuel since it does not end (\<open>example_never_ends\<close>).
  \<^item> \<open>RtpServer\<close>: the RTP server (\<open>ze_rtp_server_core.c\<close>), which takes the place of the CoAP server when \<open>COAP_SERVER\<close> is not defined. That build does not
    compile, as the code reads a field \<open>sensor\<close> that a packet does not have; that field and the structures of the RTP library are parameters. Its loops
    have fuel, since it does not end (\<open>rtp_thread_returns\<close>).

  A 32 bit \<open>int\<close> is a mathematical integer with \<open>i32\<close> where the code can leave the range; the counters of
  libcoap's registration struct, whose width is not in the repository, are unbounded. Pointers of the server are integers, and a
  pointer of the list macros of \<open>utlist.h\<close>, which is not in the repository either, is a position: \<open>utlist_ok\<close> states what the macros
  document. \<open>malloc\<close> may fail at any time. The timed wait for room in the response buffer is taken to wake up without a time out only after the
  server has taken a response (\<open>world_ok\<close>, part of the initial states): POSIX allows spurious wakeups, and since the code waits under \<open>if\<close>, one
  would let it write into a full buffer, as \<open>RequestBuffer\<close> shows for the other buffer. What the other thread does while one waits is an answer of the world (the responses taken)
  or a step of the relation; it does not happen in the middle of the other operations, which hold the mutex of the buffer they use.

  Not modelled: JNI and the GPS poll (it only logs); libcoap and the RTP library, which are parameters; log messages; and the empty or sketched
  files \<open>ze_codec.c\<close>, \<open>ze_codec.h\<close> and \<open>senml.h\<close>.
\<close>

section \<open>Properties that span the two threads\<close>

text \<open>
  Every request a client can cause is one the Streaming Manager can serve: whatever the handlers put, in a buffer with room for
  two more, has a sensor within the sensors array and, if it is a START, a positive frequency. This is the guard
  under which the invariant of the Streaming Manager thread is proved.
\<close>

theorem client_requests_valid:
  assumes "reqbuf_wf (cx_smreqbuf cx)" and "length (requests (cx_smreqbuf cx)) < 19"
    and "\<forall>q\<in>set (requests (cx_smreqbuf cx)). request_ok q"
    and "GET_handler n L wait cx res req = Inr cx'"
  shows "reqbuf_wf (cx_smreqbuf cx') \<and> (\<forall>q\<in>set (requests (cx_smreqbuf cx')). request_ok q)"
proof -
  have room: "length (requests (cx_smreqbuf cx)) < 20" using assms(2) by simp
  have start: "reqbuf_wf (cx_smreqbuf (put_request wait (cx\<lparr>cx_regs := g\<rparr>) SM_REQ_START (sensor_of n) t 10))
      \<and> (\<forall>q\<in>set (requests (cx_smreqbuf (put_request wait (cx\<lparr>cx_regs := g\<rparr>) SM_REQ_START (sensor_of n) t 10))). request_ok q)"
    for g t
    by (rule put_request_valid) (use assms(1,3) room handler_requests_ok in simp_all)
  have one: "reqbuf_wf (cx_smreqbuf (put_request wait cx SM_REQ_ONESHOT (sensor_of n) t 0))
      \<and> (\<forall>q\<in>set (requests (cx_smreqbuf (put_request wait cx SM_REQ_ONESHOT (sensor_of n) t 0))). request_ok q)"
    for t
    by (rule put_request_valid [OF assms(1) room assms(3)]) (rule handler_requests_ok)
  have stop: "reqbuf_wf (cx_smreqbuf cx2) \<and> (\<forall>q\<in>set (requests (cx_smreqbuf cx2)). request_ok q)"
    if u: "on_unregister m wait (put_request wait cx SM_REQ_ONESHOT (sensor_of n) t 0) reg = Inr cx2" for m t reg cx2
  proof -
    let ?cx1 = "put_request wait cx SM_REQ_ONESHOT (sensor_of n) t 0"
    have "requests (cx_smreqbuf ?cx1) = requests (cx_smreqbuf cx) @
        [\<lparr>rq_rtype = SM_REQ_ONESHOT, rq_sensor = sensor_of n, rq_ticket = t, rq_freq = 0\<rparr>]"
      using put_request_list [OF assms(1) room] by blast
    from arg_cong [OF this, of length] assms(2) have l: "length (requests (cx_smreqbuf ?cx1)) < 20" by simp
    obtain g where g: "cx2 = put_request wait (?cx1\<lparr>cx_regs := g\<rparr>) SM_REQ_STOP (sensor_of m) reg 0"
      using u by (auto simp: on_unregister_eq generic_on_unregister_def split: option.splits)
    show ?thesis unfolding g by (rule put_request_valid) (use one [of t] l handler_requests_ok in simp_all)
  qed
  show ?thesis
    using assms(4) start one stop
    by (auto simp: GET_handler_eq generic_GET_handler_def Let_def split_def simp del: length_ring_list
        split: if_splits option.splits)
qed

theorem client_requests_valid_witness:
  "\<exists>cx'. GET_handler Light plain_lib id (empty_ctx [105 \<mapsto> one_registration]) ze_coap_init_light (get_request_msg False)
       = Inr cx' \<and> (\<forall>q\<in>set (requests (cx_smreqbuf cx')). request_ok q)"
proof -
  let ?cx = "empty_ctx [105 \<mapsto> one_registration]"
  have h: "requests (cx_smreqbuf ?cx) = []" by (rule empty_ctx_buf)
  obtain cx' where "GET_handler Light plain_lib id ?cx ze_coap_init_light (get_request_msg False) = Inr cx'"
    by (simp add: light_GET_handler_def generic_GET_handler_def get_request_msg_def plain_lib_def empty_ctx_def
        init_defs on_unregister_defs generic_on_unregister_def put_request_def)
  with client_requests_valid [OF empty_ctx_buf(1) _ _ this] show ?thesis unfolding h by auto
qed

text \<open>
  C7. From the client to the fault: when the handler of a plain GET, on a context with no request waiting, finds that its client observes
  the resource, the request buffer it leaves makes the Streaming Manager read through a null pointer in its second
  iteration, provided that registration is the only stream of the sensor, no cached value is valid, there is memory, and nothing else arrives.
\<close>

theorem plain_get_after_observe_crashes:
  assumes "GET_handler n L wait cx res req = Inr cx'" and "re_on_unregister res = n" and "\<not> cr_observe req"
    and "reqbuf_wf (cx_smreqbuf cx)" and "requests (cx_smreqbuf cx) = []"
    and "lib_register_async L (cx_regs cx) req = Some tid"
    and "lib_find_registration L (cx_regs cx) (re_uri res) (cr_peer req) = Some reg"
    and "sm_inv s" and "mem_ok s" and "sm_smreqbuf s = cx_smreqbuf cx'"
    and "map st_reg (sn_streams (sensor_at s (sensor_of n))) = [reg]"
    and "sn_cache_valid (sensor_at s (sensor_of n)) \<noteq> 1"
    and "sm_events s = []" and "cq_head (sm_carrq s) = []"
  shows "bindR (thread_iteration fuel s) (thread_iteration fuel) = Inl NullDeref"
proof -
  let ?q1 = "\<lparr>rq_rtype = SM_REQ_ONESHOT, rq_sensor = sensor_of n, rq_ticket = tid, rq_freq = 0\<rparr>"
  let ?q2 = "\<lparr>rq_rtype = SM_REQ_STOP, rq_sensor = sensor_of n, rq_ticket = reg, rq_freq = 0\<rparr>"
  have res: "res\<lparr>re_on_unregister := n\<rparr> = res" using assms(2) by (cases res) simp
  have mapped: "cx_regs cx r \<noteq> None"
    if f: "lib_find_registration L (cx_regs cx) (re_uri res) (cr_peer req) = Some r" for r
    using assms(1,2,3,6) f
    by (auto simp: GET_handler_eq generic_GET_handler_def on_unregister_eq generic_on_unregister_def put_request_def
        Let_def split: option.splits)
  have room: "length (requests (cx_smreqbuf cx)) < 19" unfolding assms(5) by simp
  have "requests (cx_smreqbuf cx') = requests (cx_smreqbuf cx) @ [?q1, ?q2]"
    using plain_get_effect [where res = res and n = n and wait = wait, OF assms(4) room assms(3,6) mapped] assms(1,7) unfolding res by auto
  then have "requests (sm_smreqbuf s) = ?q1 # ?q2 # []" using assms(5,10) by (simp del: ring_list_empty_iff)
  from oneshot_then_stop_faults [OF assms(8,9) sensor_of_ix this assms(11-14)] show ?thesis .
qed

theorem plain_get_after_observe_crashes_witness:
  "\<exists>cx'. GET_handler Accel (plain_lib\<lparr>lib_find_registration := (\<lambda>_ _ _. Some 7), lib_register_async := (\<lambda>_ _. Some 9)\<rparr>)
       id (empty_ctx [7 \<mapsto> one_registration]) ze_coap_init_accel (get_request_msg False) = Inr cx'
     \<and> sm_smreqbuf doomed_state = cx_smreqbuf cx'
     \<and> bindR (thread_iteration 0 doomed_state) (thread_iteration 0) = Inl NullDeref"
proof -
  let ?L = "plain_lib\<lparr>lib_find_registration := (\<lambda>_ _ _. Some 7), lib_register_async := (\<lambda>_ _. Some 9)\<rparr>"
  let ?cx = "empty_ctx [7 \<mapsto> one_registration]" and ?q = "get_request_msg False"
  have "\<exists>cx'. GET_handler Accel ?L id ?cx ze_coap_init_accel ?q = Inr cx' \<and> sm_smreqbuf doomed_state = cx_smreqbuf cx'"
    by (simp add: accel_GET_handler_def generic_GET_handler_def get_request_msg_def plain_lib_def empty_ctx_def
        init_defs on_unregister_defs generic_on_unregister_def put_request_def doomed_state_def sensor_codes)
  then obtain cx' where g: "GET_handler Accel ?L id ?cx ze_coap_init_accel ?q = Inr cx'"
    and b: "sm_smreqbuf doomed_state = cx_smreqbuf cx'" by blast
  have o: "\<not> cr_observe ?q" "re_on_unregister ze_coap_init_accel = Accel"
    "lib_register_async ?L (cx_regs ?cx) ?q = Some 9"
    "lib_find_registration ?L (cx_regs ?cx) (re_uri ze_coap_init_accel) (cr_peer ?q) = Some 7"
    by (simp_all add: get_request_msg_def init_defs)
  have "bindR (thread_iteration 0 doomed_state) (thread_iteration 0) = Inl NullDeref"
    by (rule plain_get_after_observe_crashes [OF g o(2,1) empty_ctx_buf o(3,4) doomed_state_facts(1,2) b])
      (use doomed_state_facts in simp_all)
  with g b show ?thesis by blast
qed

text \<open>What the server makes of the responses of the Streaming Manager: it trusts their type and their packets.\<close>

lemma serve_formed_responses:
  assumes "resbuf_wf (sv_notbuf sv)" and "\<forall>r\<in>set (responses (sv_notbuf sv)). response_form (rs_rtype r) (rs_pk r)"
    and "serve_responses L n sv = Inl e"
  shows "e = UseAfterFree \<or> e = NullDeref \<and> (\<exists>n. \<not> sl_malloc L n)"
  using assms
proof (induction n arbitrary: sv)
  case (Suc n)
  obtain req b where g: "get_response_buf_item zero_response (sv_notbuf sv) = (req, b)" by force
  have b: "resbuf_wf b \<and> (\<forall>r\<in>set (responses b). response_form (rs_rtype r) (rs_pk r))
    \<and> (response_form (rs_rtype req) (rs_pk req) \<or> rs_rtype req = INVALID_RESPONSE)"
  proof (cases "counter (sv_notbuf sv) = 0")
    case True
    with g have "b = sv_notbuf sv" "rs_rtype req = INVALID_RESPONSE" by (auto simp: get_response_empty)
    with Suc.prems show ?thesis by simp
  next
    case False
    with responses_remove [OF Suc.prems(1) g] Suc.prems(2) show ?thesis by simp
  qed
  show ?case
  proof (cases "serve_response L (sv\<lparr>sv_notbuf := b\<rparr>) req")
    case (Inl e')
    with Suc.prems(3) g have "e' = e" by simp
    with serve_formed_response [OF b [THEN conjunct2, THEN conjunct2] Inl] show ?thesis by simp
  next
    case (Inr sv1)
    with Suc.prems(3) g have f: "serve_responses L n sv1 = Inl e" by simp
    have "sv_notbuf sv1 = b" using serve_response_notbuf [OF Inr] by simp
    with Suc.IH [OF _ _ f] b show ?thesis by simp
  qed
qed simp

text \<open>
  The two threads together: when the server serves a round of responses from the buffer of any state that the Streaming Manager can
  reach, it never finds a response of unknown type and never misses a packet. The only two ways it can fail are a ticket whose
  registration is gone, and a sender report for which there is no memory.
\<close>

theorem server_on_reachable_buffer:
  assumes "sm_reachable fuel s" and "sv_notbuf sv = sm_notbuf s" and "serve_round L sv = Inl e"
  shows "e = UseAfterFree \<or> e = NullDeref \<and> (\<exists>n. \<not> sl_malloc L n)"
proof -
  have "buffers_ok s" using sm_inv_buffers [OF sm_reachable_inv [OF assms(1)]] by simp
  moreover have "\<forall>r\<in>set (responses (sm_notbuf s)). response_form (rs_rtype r) (rs_pk r)"
    using sm_reachable_frames [OF assms(1)] by (simp add: typed_responses_def history_def)
  ultimately show ?thesis
    using serve_formed_responses [of sv L SMREQ_RATIO e] assms(2,3)
    by (simp add: serve_round_def buffers_ok_def)
qed

theorem server_on_reachable_buffer_witness:
  "\<exists>t. sm_reachable 0 t \<and> serve_round sample_lib ((sample_server one_registration)\<lparr>sv_notbuf := sm_notbuf t\<rparr>) = Inl UseAfterFree"
proof -
  obtain t where t: "thread_iteration 0 refused_state = Inr t" "responses (sm_notbuf t) = [response STREAM_STOPPED 7 None]"
    using refused_served .
  then have r: "sm_reachable 0 t" using refused_reachable by (blast intro: sm_reachable.step sm_step.iterate)
  let ?sv = "(sample_server one_registration)\<lparr>sv_notbuf := sm_notbuf t\<rparr>"
  have w: "resbuf_wf (sm_notbuf t)" using sm_inv_buffers [OF sm_reachable_inv [OF r]] by (simp add: buffers_ok_def)
  obtain q b where g: "get_response_buf_item zero_response (sm_notbuf t) = (q, b)" by force
  have "counter (sm_notbuf t) \<noteq> 0" using t(2) by (metis ring_list_empty_iff list.distinct(1))
  with responses_remove [OF w g] t(2) have "q = response STREAM_STOPPED 7 None" by simp
  then have f: "serve_round sample_lib ?sv = Inl UseAfterFree"
    by (simp add: serve_round_def SMREQ_RATIO_def numeral_eq_Suc g serve_response_def serve_stopped_def sample_server_def)
  from server_on_reachable_buffer [OF r _ f] have "UseAfterFree = UseAfterFree \<or> (\<exists>n. \<not> sl_malloc sample_lib n)" by blast
  with r f show ?thesis by blast
qed

end
